(* ===== verification/Prelude.thy ===== *)
theory Prelude
  imports
    Main
    "HOL-Library.AList"
    "HOL-Library.Char_ord"
    "HOL-Library.List_Lexorder"
    "HOL-Library.Multiset"
    "HOL-Library.Sublist"
begin

text \<open>
  Shared vocabulary of the development. Go errors are values of the datatype \<open>go_error\<close>;
  a fallible Go function returns \<open>'a res\<close>; a fallible function that also acts on the
  outside world (a storage backend, a cache) is an \<open>('w, 'a) io\<close>. A Go map is an
  association list whose order is the (arbitrary) order in which a \<open>range\<close> loop visits it.
  The rest of the theory is the collection of generic lemmas on results, association lists
  and sorting that the component theories share.
\<close>

section \<open>Errors and results\<close>

text \<open>The gRPC status codes.\<close>

datatype code =
    OK | Canceled | Unknown | InvalidArgument | DeadlineExceeded | NotFound | AlreadyExists
  | PermissionDenied | ResourceExhausted | FailedPrecondition | Aborted | OutOfRange
  | Unimplemented | Internal | Unavailable | DataLoss | Unauthenticated

text \<open>
  An error keeps the format string and the string arguments of the call that made it
  (\<open>status.Errorf\<close>, \<open>fmt.Errorf\<close>), and wrapping (\<open>util.StatusWrap\<close>,
  \<open>fmt.Errorf\<close> with \<open>%w\<close>) keeps the wrapped error and with it its status code.
  \<open>status.Errorf\<close> with the text of another error (\<open>%v\<close>) and
  \<open>util.StatusWrapWithCode\<close> replace the code.
\<close>

datatype go_error =
    Errorf code string "string list"
  | Wrap string "string list" go_error
  | WrapWithCode code string "string list" go_error

primrec status_code :: "go_error \<Rightarrow> code" where
  "status_code (Errorf c m args) = c"
| "status_code (Wrap m args e) = status_code e"
| "status_code (WrapWithCode c m args e) = c"

type_synonym 'a res = "go_error + 'a"

definition rbind :: "'a res \<Rightarrow> ('a \<Rightarrow> 'b res) \<Rightarrow> 'b res" where
  "rbind m f = (case m of Inl e \<Rightarrow> Inl e | Inr x \<Rightarrow> f x)"

text \<open>\<open>if err != nil { return wrap(err) }\<close>.\<close>

definition wrap_err :: "(go_error \<Rightarrow> go_error) \<Rightarrow> 'a res \<Rightarrow> 'a res" where
  "wrap_err w m = (case m of Inl e \<Rightarrow> Inl (w e) | Inr x \<Rightarrow> Inr x)"

text \<open>Stateful results: the world after the call is kept on the error path too.\<close>

type_synonym ('w, 'a) io = "'w \<Rightarrow> 'a res \<times> 'w"

definition io_bind :: "('w, 'a) io \<Rightarrow> ('a \<Rightarrow> ('w, 'b) io) \<Rightarrow> ('w, 'b) io" where
  "io_bind m f = (\<lambda>w. case m w of (Inl e, w') \<Rightarrow> (Inl e, w') | (Inr x, w') \<Rightarrow> f x w')"

abbreviation io_pure :: "'a res \<Rightarrow> ('w, 'a) io" where
  "io_pure r \<equiv> Pair r"

definition io_wrap :: "(go_error \<Rightarrow> go_error) \<Rightarrow> ('w, 'a) io \<Rightarrow> ('w, 'a) io" where
  "io_wrap f m = (\<lambda>w. case m w of (r, w') \<Rightarrow> (wrap_err f r, w'))"

named_theorems io_simps \<open>evaluation of results and of world-passing calls\<close>

lemma rbind_simps [simp, io_simps]:
  "rbind (Inl e) f = Inl e"
  "rbind (Inr x) f = f x"
  by (simp_all add: rbind_def)

lemma rbind_Inr_iff: "rbind m f = Inr y \<longleftrightarrow> (\<exists>x. m = Inr x \<and> f x = Inr y)"
  by (cases m) auto

lemma rbind_Inl_iff: "rbind m f = Inl e \<longleftrightarrow> m = Inl e \<or> (\<exists>x. m = Inr x \<and> f x = Inl e)"
  by (cases m) auto

lemma rbind_InrE [elim!]:
  assumes "rbind m f = Inr y"
  obtains x where "m = Inr x" and "f x = Inr y"
  using assms by (auto simp: rbind_Inr_iff)

lemma wrap_err_simps [simp, io_simps]:
  "wrap_err w (Inl e) = Inl (w e)"
  "wrap_err w (Inr x) = Inr x"
  "wrap_err w m = Inr y \<longleftrightarrow> m = Inr y"
  by (simp_all add: wrap_err_def split: sum.splits)

lemma wrap_err_Inl_iff: "wrap_err w m = Inl e \<longleftrightarrow> (\<exists>e'. m = Inl e' \<and> e = w e')"
  by (cases m) auto

lemma io_bind_simps [io_simps]:
  "m w = (Inl e, w') \<Longrightarrow> io_bind m f w = (Inl e, w')"
  "m w = (Inr x, w') \<Longrightarrow> io_bind m f w = f x w'"
  by (simp_all add: io_bind_def)

lemma io_bind_pure [simp]:
  "io_bind (io_pure (Inl e)) f = io_pure (Inl e)"
  "io_bind (io_pure (Inr x)) f = f x"
  by (auto simp: io_bind_def)

lemma io_bind_InrE:
  assumes "io_bind m f w = (Inr y, w2)"
  obtains x w1 where "m w = (Inr x, w1)" and "f x w1 = (Inr y, w2)"
  using assms by (auto simp: io_bind_def split: prod.splits sum.splits)

lemma io_wrap_Inr [simp]: "io_wrap f m w = (Inr y, w') \<longleftrightarrow> m w = (Inr y, w')"
  by (auto simp: io_wrap_def wrap_err_def split: prod.splits sum.splits)

text \<open>A call that keeps an invariant of the state, whatever it returns.\<close>

definition io_keeps :: "('s \<Rightarrow> bool) \<Rightarrow> ('s, 'a) io \<Rightarrow> bool" where
  "io_keeps P m \<longleftrightarrow> (\<forall>s. P s \<longrightarrow> P (snd (m s)))"

lemma io_keepsI [intro?]: "(\<And>s. P s \<Longrightarrow> P (snd (m s))) \<Longrightarrow> io_keeps P m"
  by (simp add: io_keeps_def)

lemma io_keepsD: "io_keeps P m \<Longrightarrow> P s \<Longrightarrow> P (snd (m s))"
  by (simp add: io_keeps_def)

lemma io_keeps_pure [simp]: "io_keeps P (io_pure r)"
  by (simp add: io_keeps_def)

lemma io_keeps_bind [intro]:
  assumes m: "io_keeps P m" and f: "\<And>x. io_keeps P (f x)"
  shows "io_keeps P (io_bind m f)"
proof
  fix s assume "P s"
  then have "P (snd (m s))" by (rule io_keepsD[OF m])
  then show "P (snd (io_bind m f s))"
    using io_keepsD[OF f] by (auto simp: io_bind_def split: prod.splits sum.splits)
qed

lemma io_keeps_wrap [simp]: "io_keeps P (io_wrap w m) = io_keeps P m"
  by (simp add: io_keeps_def io_wrap_def case_prod_unfold)

section \<open>Machine integers\<close>

text \<open>Addition of \<open>int64\<close> values wraps around.\<close>

definition add64 :: "int \<Rightarrow> int \<Rightarrow> int" where
  "add64 a b = (a + b + 2 ^ 63) mod 2 ^ 64 - 2 ^ 63"

lemma add64_exact: "- (2 ^ 63) \<le> a + b \<Longrightarrow> a + b < 2 ^ 63 \<Longrightarrow> add64 a b = a + b"
  unfolding add64_def by (subst mod_pos_pos_trivial) auto

section \<open>Go maps as association lists\<close>

text \<open>
  The operations on a Go map are those of \<open>HOL-Library.AList\<close>: \<open>map_of\<close> for
  \<open>m[k]\<close>, \<open>AList.update\<close> for \<open>m[k] = v\<close> and \<open>AList.delete\<close> for
  \<open>delete(m, k)\<close>. A map has no duplicate key.
\<close>

type_synonym ('k, 'v) gomap = "('k \<times> 'v) list"

abbreviation keys :: "('k, 'v) gomap \<Rightarrow> 'k list" where
  "keys m \<equiv> map fst m"

definition go_map :: "('k, 'v) gomap \<Rightarrow> bool" where
  "go_map m \<longleftrightarrow> distinct (keys m)"

lemma go_map_Nil [simp]: "go_map []"
  by (simp add: go_map_def)

lemma go_map_update [simp, intro]: "go_map m \<Longrightarrow> go_map (AList.update k v m)"
  by (simp add: go_map_def distinct_update)

lemma go_map_delete [simp, intro]: "go_map m \<Longrightarrow> go_map (AList.delete k m)"
  by (simp add: go_map_def distinct_delete)

lemma set_keys_update [simp]: "fst ` set (AList.update k v m) = insert k (fst ` set m)"
  by (induction m) auto

lemma set_keys_delete [simp]: "fst ` set (AList.delete k m) = fst ` set m - {k}"
  by (auto simp: AList.delete_eq)

lemma set_update_delete: "k \<notin> fst ` set m \<Longrightarrow> set (AList.update k v m) = insert (k, v) (set m)"
  by (induction m) auto

lemma map_of_delete [simp]: "map_of (AList.delete k m) k' = (if k' = k then None else map_of m k')"
  by (simp add: delete_conv')

lemma map_of_update [simp]: "map_of (AList.update k v m) k' = (if k' = k then Some v else map_of m k')"
  by (simp add: update_conv')

lemma in_set_delete: "(a, b) \<in> set (AList.delete k m) \<longleftrightarrow> (a, b) \<in> set m \<and> a \<noteq> k"
  by (auto simp: AList.delete_eq)

lemma in_set_update:
  assumes "go_map m"
  shows "(a, b) \<in> set (AList.update k v m) \<longleftrightarrow> (if a = k then b = v else (a, b) \<in> set m)"
proof -
  have "go_map (AList.update k v m)" using assms by simp
  then have "(a, b) \<in> set (AList.update k v m) \<longleftrightarrow> map_of (AList.update k v m) a = Some b"
    unfolding go_map_def by (metis map_of_eq_Some_iff)
  also have "\<dots> \<longleftrightarrow> (if a = k then b = v else map_of m a = Some b)"
    by auto
  also have "\<dots> \<longleftrightarrow> (if a = k then b = v else (a, b) \<in> set m)"
    using assms by (simp add: go_map_def)
  finally show ?thesis .
qed

lemma go_map_lookup: "go_map m \<Longrightarrow> map_of m k = Some v \<longleftrightarrow> (k, v) \<in> set m"
  by (simp add: go_map_def)

lemma map_of_None_keys: "map_of m k = None \<longleftrightarrow> k \<notin> fst ` set m"
  by (simp add: map_of_eq_None_iff)

lemma map_of_Some_key: "map_of m k = Some v \<Longrightarrow> k \<in> fst ` set m"
  by (metis map_of_None_keys option.distinct(1))

text \<open>The order of a map is irrelevant to its look-ups.\<close>

lemma go_map_perm: "mset m = mset m' \<Longrightarrow> go_map m \<Longrightarrow> go_map m'"
  by (metis go_map_def mset_eq_imp_distinct_iff mset_map)

lemma map_of_perm:
  assumes "mset m = mset m'" and "go_map m"
  shows "map_of m = map_of m'"
proof -
  have "set m = set m'" using assms(1) by (rule mset_eq_setD)
  moreover have "distinct (map fst m')"
    using assms go_map_perm by (auto simp: go_map_def)
  ultimately show ?thesis
    using assms(2) by (intro map_of_eqI) (auto simp: go_map_def)
qed

section \<open>Sorting by a key\<close>

text \<open>
  \<open>slices.SortFunc\<close> with \<open>cmp.Compare\<close> on a key is \<open>sort_key\<close>. The Go sort is not
  stable, so no theorem of the development uses more of it than the laws of the interface
  below: the result is a permutation of the argument and ascending in the key.
\<close>

definition sorted_by :: "('a \<Rightarrow> 'k::linorder) \<Rightarrow> 'a list \<Rightarrow> bool" where
  "sorted_by key xs \<longleftrightarrow> sorted (map key xs)"

locale slice_sort =
  fixes sort_fn :: "('a \<Rightarrow> 'k::linorder) \<Rightarrow> 'a list \<Rightarrow> 'a list"
  assumes sort_fn_perm: "mset (sort_fn key xs) = mset xs"
    and sort_fn_sorted: "sorted_by key (sort_fn key xs)"
begin

lemma sort_fn_set: "set (sort_fn key xs) = set xs"
  by (metis set_mset_mset sort_fn_perm)

lemma sort_fn_length: "length (sort_fn key xs) = length xs"
  by (metis size_mset sort_fn_perm)

text \<open>Without ties the result depends on the multiset only, not on the order of the input.\<close>

lemma sort_fn_unique:
  assumes "mset xs = mset ys" and "distinct (map key xs)"
  shows "sort_fn key xs = sort_fn key ys"
proof (rule map_inj_on)
  have eq: "mset (sort_fn key xs) = mset (sort_fn key ys)"
    using assms(1) by (simp add: sort_fn_perm)
  then have "mset (map key (sort_fn key xs)) = mset (map key (sort_fn key ys))"
    by simp
  then show "map key (sort_fn key xs) = map key (sort_fn key ys)"
    using sort_fn_sorted[of key xs] sort_fn_sorted[of key ys]
    by (metis properties_for_sort sorted_by_def)
  have "set (sort_fn key ys) = set xs"
    using eq by (metis mset_eq_setD sort_fn_set)
  moreover have "inj_on key (set xs)" using assms(2) by (simp add: distinct_map)
  ultimately show "inj_on key (set (sort_fn key xs) \<union> set (sort_fn key ys))"
    by (simp add: sort_fn_set)
qed

end

interpretation go_sort: slice_sort sort_key
  by unfold_locales (simp_all add: sorted_by_def)

text \<open>The canonical form REv2 asks for: ascending names, none of them twice.\<close>

definition canonical :: "('a \<Rightarrow> 'k::linorder) \<Rightarrow> 'a list \<Rightarrow> bool" where
  "canonical key xs \<longleftrightarrow> sorted_by key xs \<and> distinct (map key xs)"

lemma canonical_sort_key: "distinct (map key xs) \<Longrightarrow> canonical key (sort_key key xs)"
  by (metis canonical_def go_sort.sort_fn_perm go_sort.sort_fn_sorted mset_eq_imp_distinct_iff mset_map)

lemma distinct_sort_key_iff: "distinct (map key (sort_key key xs)) = distinct (map key xs)"
  by (metis go_sort.sort_fn_perm mset_eq_imp_distinct_iff mset_map)

end
