(* ===== verification/Go_Strings.thy ===== *)
theory Go_Strings
  imports Prelude
begin

text \<open>
  The functions of Go's \<open>strings\<close>, \<open>strconv\<close>, \<open>bufio\<close> and \<open>path/filepath\<close> packages
  that the repository calls, on byte strings. A Go string is a sequence of bytes and so is
  an Isabelle \<open>string\<close>; the order of \<open>cmp.Compare\<close> is the lexicographic order of bytes.
\<close>

section \<open>Definitions: package strings\<close>

text \<open>\<open>strings.Split\<close> with a one-byte separator.\<close>

fun split_on :: "char \<Rightarrow> string \<Rightarrow> string list" where
  "split_on c [] = [[]]"
| "split_on c (x # xs) =
     (if x = c then [] # split_on c xs
      else (case split_on c xs of [] \<Rightarrow> [[x]] | h # t \<Rightarrow> (x # h) # t))"

text \<open>\<open>strings.SplitN(s, c, n)\<close> for \<open>n \<ge> 1\<close>: at most \<open>n\<close> pieces, the last one unsplit.\<close>

fun split_n :: "nat \<Rightarrow> char \<Rightarrow> string \<Rightarrow> string list" where
  "split_n 0 c s = []"
| "split_n (Suc 0) c s = [s]"
| "split_n (Suc (Suc n)) c s =
     (if c \<in> set s
      then takeWhile (\<lambda>x. x \<noteq> c) s # split_n (Suc n) c (tl (dropWhile (\<lambda>x. x \<noteq> c) s))
      else [s])"

text \<open>\<open>strings.Join\<close>.\<close>

fun join :: "string \<Rightarrow> string list \<Rightarrow> string" where
  "join sep [] = []"
| "join sep [s] = s"
| "join sep (s # t # ss) = s @ sep @ join sep (t # ss)"

definition has_prefix :: "string \<Rightarrow> string \<Rightarrow> bool" where
  "has_prefix s p \<longleftrightarrow> take (length p) s = p"

definition has_suffix :: "string \<Rightarrow> string \<Rightarrow> bool" where
  "has_suffix s p \<longleftrightarrow> length p \<le> length s \<and> drop (length s - length p) s = p"

definition trim_prefix :: "string \<Rightarrow> string \<Rightarrow> string" where
  "trim_prefix s p = (if has_prefix s p then drop (length p) s else s)"

definition trim_suffix :: "string \<Rightarrow> string \<Rightarrow> string" where
  "trim_suffix s p = (if has_suffix s p then take (length s - length p) s else s)"

text \<open>
  \<open>strings.ToLower\<close> on the ASCII letters. The only caller compares the result with
  \<open>false\<close>, and no non-ASCII rune has one of its letters as lower case.
\<close>

definition to_lower_char :: "char \<Rightarrow> char" where
  "to_lower_char c = (if 65 \<le> (of_char c :: nat) \<and> (of_char c :: nat) \<le> 90
     then char_of ((of_char c :: nat) + 32) else c)"

definition to_lower :: "string \<Rightarrow> string" where
  "to_lower s = map to_lower_char s"

text \<open>
  \<open>strings.TrimSpace\<close> removes Unicode white space. \<open>space_len\<close> is the length of the white
  space rune a string begins with, 0 if it does not begin with one; the multi-byte cases are
  the UTF-8 encodings of U+0085, U+00A0, U+1680, U+2000 to U+200A, U+2028, U+2029, U+202F,
  U+205F and U+3000.
\<close>

definition ascii_space :: "char \<Rightarrow> bool" where
  "ascii_space c \<longleftrightarrow> c \<in> {CHR 0x09, CHR 0x0A, CHR 0x0B, CHR 0x0C, CHR 0x0D, CHR 0x20}"

definition space2 :: "char \<Rightarrow> char \<Rightarrow> bool" where
  "space2 a b \<longleftrightarrow> a = CHR 0xC2 \<and> (b = CHR 0x85 \<or> b = CHR 0xA0)"

definition space3 :: "char \<Rightarrow> char \<Rightarrow> char \<Rightarrow> bool" where
  "space3 a b c \<longleftrightarrow>
     a = CHR 0xE1 \<and> b = CHR 0x9A \<and> c = CHR 0x80
   \<or> a = CHR 0xE2 \<and> b = CHR 0x80 \<and>
       (128 \<le> (of_char c :: nat) \<and> (of_char c :: nat) \<le> 138
        \<or> c = CHR 0xA8 \<or> c = CHR 0xA9 \<or> c = CHR 0xAF)
   \<or> a = CHR 0xE2 \<and> b = CHR 0x81 \<and> c = CHR 0x9F
   \<or> a = CHR 0xE3 \<and> b = CHR 0x80 \<and> c = CHR 0x80"

fun trim_left_space :: "string \<Rightarrow> string" where
  "trim_left_space [] = []"
| "trim_left_space [a] = (if ascii_space a then [] else [a])"
| "trim_left_space [a, b] =
     (if ascii_space a then trim_left_space [b] else if space2 a b then [] else [a, b])"
| "trim_left_space (a # b # c # s) =
     (if ascii_space a then trim_left_space (b # c # s)
      else if space2 a b then trim_left_space (c # s)
      else if space3 a b c then trim_left_space s
      else a # b # c # s)"

text \<open>The same on the reversed string, for the trailing white space.\<close>

fun trim_left_space_rev :: "string \<Rightarrow> string" where
  "trim_left_space_rev [] = []"
| "trim_left_space_rev [a] = (if ascii_space a then [] else [a])"
| "trim_left_space_rev [a, b] =
     (if ascii_space a then trim_left_space_rev [b] else if space2 b a then [] else [a, b])"
| "trim_left_space_rev (a # b # c # s) =
     (if ascii_space a then trim_left_space_rev (b # c # s)
      else if space2 b a then trim_left_space_rev (c # s)
      else if space3 c b a then trim_left_space_rev s
      else a # b # c # s)"

definition trim_space :: "string \<Rightarrow> string" where
  "trim_space s = rev (trim_left_space_rev (rev (trim_left_space s)))"

section \<open>Definitions: package strconv\<close>

definition digit_char :: "nat \<Rightarrow> char" where
  "digit_char d = char_of (48 + d)"

definition is_digit :: "char \<Rightarrow> bool" where
  "is_digit c \<longleftrightarrow> 48 \<le> (of_char c :: nat) \<and> (of_char c :: nat) \<le> 57"

definition digit_val :: "char \<Rightarrow> nat" where
  "digit_val c = of_char c - 48"

fun show_nat :: "nat \<Rightarrow> string" where
  "show_nat n = (if n < 10 then [digit_char n] else show_nat (n div 10) @ [digit_char (n mod 10)])"

declare show_nat.simps [simp del]

text \<open>\<open>%d\<close>.\<close>

definition show_int :: "int \<Rightarrow> string" where
  "show_int i = (if i < 0 then CHR ''-'' # show_nat (nat (- i)) else show_nat (nat i))"

definition digits_val :: "string \<Rightarrow> nat" where
  "digits_val s = foldl (\<lambda>n c. 10 * n + digit_val c) 0 s"

definition atoi_unsigned :: "string \<Rightarrow> nat option" where
  "atoi_unsigned s = (if s \<noteq> [] \<and> list_all is_digit s then Some (digits_val s) else None)"

text \<open>
  \<open>strconv.Atoi\<close>: an optional sign, decimal digits, and the range of a 64-bit \<open>int\<close>.
\<close>

definition atoi :: "string \<Rightarrow> int option" where
  "atoi s =
     (let (neg, body) =
        (case s of [] \<Rightarrow> (False, [])
         | c # cs \<Rightarrow> if c = CHR ''-'' then (True, cs) else if c = CHR ''+'' then (False, cs)
                   else (False, s))
      in case atoi_unsigned body of
           None \<Rightarrow> None
         | Some n \<Rightarrow> (let v = (if neg then - int n else int n)
                      in if - (2 ^ 63) \<le> v \<and> v < 2 ^ 63 then Some v else None))"

section \<open>Definitions: package path/filepath\<close>

abbreviation slash :: char where
  "slash \<equiv> CHR ''/''"

definition is_abs :: "string \<Rightarrow> bool" where
  "is_abs p \<longleftrightarrow> p \<noteq> [] \<and> hd p = slash"

text \<open>
  \<open>filepath.Clean\<close>: drop empty and \<open>.\<close> components, and resolve \<open>..\<close> lexically; a rooted path
  has nothing above its root. The accumulator is the cleaned path so far, last component first.
\<close>

fun clean_comps :: "bool \<Rightarrow> string list \<Rightarrow> string list \<Rightarrow> string list" where
  "clean_comps rooted acc [] = rev acc"
| "clean_comps rooted acc (c # cs) =
     (if c = '''' \<or> c = ''.'' then clean_comps rooted acc cs
      else if c = ''..'' then
        (case acc of
           [] \<Rightarrow> if rooted then clean_comps rooted [] cs else clean_comps rooted [''..''] cs
         | a # as \<Rightarrow> if a = ''..'' then clean_comps rooted (''..'' # acc) cs
                    else clean_comps rooted as cs)
      else clean_comps rooted (c # acc) cs)"

definition clean :: "string \<Rightarrow> string" where
  "clean p = (if is_abs p then slash # join [slash] (clean_comps True [] (split_on slash p))
     else (let cs = clean_comps False [] (split_on slash p)
           in if cs = [] then ''.'' else join [slash] cs))"

text \<open>\<open>filepath.Split\<close>: the directory part keeps its trailing slash.\<close>

definition base_name :: "string \<Rightarrow> string" where
  "base_name p = rev (takeWhile (\<lambda>c. c \<noteq> slash) (rev p))"

definition dir_part :: "string \<Rightarrow> string" where
  "dir_part p = rev (dropWhile (\<lambda>c. c \<noteq> slash) (rev p))"

definition path_split :: "string \<Rightarrow> string \<times> string" where
  "path_split p = (dir_part p, base_name p)"

text \<open>\<open>filepath.Join\<close> skips leading empty elements and cleans the result.\<close>

definition path_join :: "string list \<Rightarrow> string" where
  "path_join es = (case dropWhile (\<lambda>e. e = []) es of [] \<Rightarrow> [] | es' \<Rightarrow> clean (join [slash] es'))"

text \<open>\<open>filepath.Dir\<close>.\<close>

definition path_dir :: "string \<Rightarrow> string" where
  "path_dir p = clean (dir_part p)"

section \<open>Splitting and joining\<close>

lemma split_on_nonempty [simp]: "split_on c s \<noteq> []"
  by (induction s) (auto split: list.splits)

lemma join_split_on: "join [c] (split_on c s) = s"
proof (induction s)
  case (Cons x xs)
  then show ?case
    by (cases "split_on c xs") (auto, (metis append_Cons join.simps(2,3) neq_Nil_conv)+)
qed simp

lemma split_on_no_sep: "p \<in> set (split_on c s) \<Longrightarrow> c \<notin> set p"
  by (induction s arbitrary: p) (auto split: list.splits if_splits)

lemma split_on_id: "c \<notin> set s \<Longrightarrow> split_on c s = [s]"
  by (induction s) auto

lemma split_on_append: "c \<notin> set a \<Longrightarrow> split_on c (a @ c # s) = a # split_on c s"
  by (induction a) auto

lemma split_on_join:
  assumes "ps \<noteq> []" and "\<And>p. p \<in> set ps \<Longrightarrow> c \<notin> set p"
  shows "split_on c (join [c] ps) = ps"
  using assms
proof (induction ps)
  case (Cons p ps)
  then show ?case by (cases ps) (auto simp: split_on_append split_on_id)
qed simp

lemma takeWhile_sep [simp]: "c \<notin> set a \<Longrightarrow> takeWhile (\<lambda>x. x \<noteq> c) (a @ c # s) = a"
  by (induction a) auto

lemma dropWhile_sep [simp]: "c \<notin> set a \<Longrightarrow> dropWhile (\<lambda>x. x \<noteq> c) (a @ c # s) = c # s"
  by (induction a) auto

lemma join_append_cons:
  "ps \<noteq> [] \<Longrightarrow> qs \<noteq> [] \<Longrightarrow> join sep (ps @ qs) = join sep ps @ sep @ join sep qs"
proof (induction ps rule: join.induct[of _ sep, case_names Nil One Many])
  case (One sep s)
  then show ?case by (cases qs) auto
qed auto

lemma split_n_no_sep: "c \<notin> set s \<Longrightarrow> split_n (Suc n) c s = [s]"
  by (cases n) auto

lemma split_n_append:
  "c \<notin> set a \<Longrightarrow> split_n (Suc (Suc n)) c (a @ c # s) = a # split_n (Suc n) c s"
  by simp

lemma path_split_append: "dir_part p @ base_name p = p"
  unfolding dir_part_def base_name_def
  by (metis rev_append rev_rev_ident takeWhile_dropWhile_id)

lemma base_name_no_slash: "slash \<notin> set (base_name p)"
  by (auto simp: base_name_def dest: set_takeWhileD)

lemma base_name_append: "slash \<notin> set n \<Longrightarrow> base_name (d @ slash # n) = n"
  using takeWhile_sep[of slash "rev n" "rev d"] by (simp add: base_name_def)

lemma dir_part_append: "slash \<notin> set n \<Longrightarrow> dir_part (d @ slash # n) = d @ [slash]"
  using dropWhile_sep[of slash "rev n" "rev d"] by (simp add: dir_part_def)

lemma trim_prefix_append [simp]: "trim_prefix (p @ s) p = s"
  by (simp add: trim_prefix_def has_prefix_def)

lemma has_prefix_iff: "has_prefix s p \<longleftrightarrow> (\<exists>r. s = p @ r)"
  unfolding has_prefix_def by (metis append_eq_conv_conj append_take_drop_id)

section \<open>Numbers\<close>

lemma digit_char_simps [simp]:
  assumes "d < 10"
  shows "is_digit (digit_char d)" and "digit_val (digit_char d) = d"
    and "(of_char (digit_char d) :: nat) = 48 + d"
  using assms by (simp_all add: digit_char_def is_digit_def digit_val_def)

lemma show_nat_digits: "list_all is_digit (show_nat n)"
proof (induction n rule: show_nat.induct)
  case (1 n)
  then show ?case by (subst show_nat.simps) (simp add: list_all_iff)
qed

lemma show_nat_nonempty [simp]: "show_nat n \<noteq> []"
  by (subst show_nat.simps) simp

lemma digits_val_show_nat: "digits_val (show_nat n) = n"
proof (induction n rule: show_nat.induct)
  case (1 n)
  then show ?case by (subst show_nat.simps) (simp add: digits_val_def)
qed

lemma atoi_unsigned_show_nat: "atoi_unsigned (show_nat n) = Some n"
  by (simp add: atoi_unsigned_def show_nat_digits digits_val_show_nat)

lemma show_nat_no_char: "\<not> is_digit c \<Longrightarrow> c \<notin> set (show_nat n)"
  using show_nat_digits[of n] by (auto simp: list_all_iff)

lemma show_nat_hd: "is_digit (hd (show_nat n))"
  using show_nat_digits[of n] by (simp add: list_all_iff)

lemma is_digit_chars [simp]:
  "\<not> is_digit (CHR ''-'')" "\<not> is_digit (CHR ''+'')" "\<not> is_digit (CHR '':'')"
  "\<not> is_digit (CHR 0x0A)" "\<not> is_digit (CHR 0x0D)" "\<not> is_digit (CHR ''/'')"
  by (simp_all add: is_digit_def)

text \<open>Formatting a 64-bit integer with \<open>%d\<close> and reading it with \<open>Atoi\<close> gives it back.\<close>

lemma atoi_show_int:
  assumes "- (2 ^ 63) \<le> i" and "i < 2 ^ 63"
  shows "atoi (show_int i) = Some i"
proof (cases "i < 0")
  case True
  then show ?thesis
    using assms by (simp add: atoi_def show_int_def atoi_unsigned_show_nat)
next
  case False
  obtain c cs where s: "show_nat (nat i) = c # cs"
    by (meson list.exhaust show_nat_nonempty)
  then have "is_digit c" using show_nat_hd[of "nat i"] by simp
  then have "c \<noteq> CHR ''-''" and "c \<noteq> CHR ''+''" by auto
  moreover have "atoi_unsigned (c # cs) = Some (nat i)"
    using atoi_unsigned_show_nat[of "nat i"] s by simp
  ultimately show ?thesis
    using assms False s by (simp add: atoi_def show_int_def)
qed

lemma show_int_chars: "c \<in> set (show_int i) \<Longrightarrow> is_digit c \<or> c = CHR ''-''"
  using show_nat_digits[of "nat i"] show_nat_digits[of "nat (- i)"]
  by (auto simp: show_int_def list_all_iff split: if_splits)

section \<open>Clean paths\<close>

text \<open>
  A cleaned component list has no empty and no \<open>.\<close> component; \<open>..\<close> survives only at the
  front of a relative path.
\<close>

definition plain_comp :: "string \<Rightarrow> bool" where
  "plain_comp c \<longleftrightarrow> c \<noteq> '''' \<and> c \<noteq> ''.'' \<and> c \<noteq> ''..'' \<and> slash \<notin> set c"

lemma clean_comps_plain:
  assumes "\<And>c. c \<in> set acc \<Longrightarrow> plain_comp c" and "\<And>c. c \<in> set cs \<Longrightarrow> plain_comp c"
  shows "clean_comps rooted acc cs = rev acc @ cs"
  using assms by (induction rooted acc cs rule: clean_comps.induct) (auto simp: plain_comp_def)

lemma clean_comps_set:
  "set (clean_comps rooted acc cs) \<subseteq> set acc \<union> (set cs - {'''', ''.''})"
proof (induction cs arbitrary: acc)
  case (Cons c cs)
  consider (skip) "c = '''' \<or> c = ''.''" | (up) "c = ''..''"
    | (plain) "c \<noteq> ''''" "c \<noteq> ''.''" "c \<noteq> ''..''" by blast
  then show ?case
  proof cases
    case skip
    then have "clean_comps rooted acc (c # cs) = clean_comps rooted acc cs" by simp
    then show ?thesis using Cons.IH[of acc] skip by auto
  next
    case up
    obtain acc' where eq: "clean_comps rooted acc (c # cs) = clean_comps rooted acc' cs"
      and sub: "set acc' \<subseteq> insert ''..'' (set acc)"
    proof (cases acc)
      case Nil
      then show thesis
        using up that[of "[]"] that[of "[''..'']"] by (cases rooted) simp_all
    next
      case (Cons a as)
      then show thesis
        using up that[of "''..'' # acc"] that[of as] by (cases "a = ''..''") auto
    qed
    show ?thesis unfolding eq using Cons.IH[of acc'] sub up by auto
  next
    case plain
    then have "clean_comps rooted acc (c # cs) = clean_comps rooted (c # acc) cs" by simp
    then show ?thesis using Cons.IH[of "c # acc"] plain by auto
  qed
qed simp

lemma clean_comps_rooted_no_up:
  "''..'' \<notin> set acc \<Longrightarrow> ''..'' \<notin> set (clean_comps True acc cs)"
proof (induction cs arbitrary: acc)
  case (Cons c cs)
  show ?case
  proof (cases "c = ''..''")
    case True
    then have "clean_comps True acc (c # cs) = clean_comps True (tl acc) cs"
      using Cons.prems by (cases acc) auto
    moreover have "''..'' \<notin> set (tl acc)" using Cons.prems by (cases acc) auto
    ultimately show ?thesis using Cons.IH by simp
  next
    case False
    then have "clean_comps True acc (c # cs) \<in>
        {clean_comps True acc cs, clean_comps True (c # acc) cs}" by auto
    then show ?thesis using Cons.IH[of acc] Cons.IH[of "c # acc"] Cons.prems False by auto
  qed
qed simp

lemma split_on_append_sep: "split_on c (a @ c # b) = split_on c a @ split_on c b"
  by (induction a) (auto split: list.splits)

text \<open>The base name of a joined path is its last element.\<close>

lemma clean_comps_snoc:
  "plain_comp n \<Longrightarrow> clean_comps r acc (cs @ [n]) = clean_comps r acc cs @ [n]"
  by (induction cs arbitrary: acc) (auto simp: plain_comp_def split: list.splits)

lemma base_name_id: "slash \<notin> set n \<Longrightarrow> base_name n = n"
proof -
  assume "slash \<notin> set n"
  then have all: "takeWhile (\<lambda>c. c \<noteq> slash) (rev n) = rev n" by (auto simp: takeWhile_eq_all_conv)
  show ?thesis unfolding base_name_def all by simp
qed

lemma base_name_join_snoc: "slash \<notin> set n \<Longrightarrow> base_name (join [slash] (xs @ [n])) = n"
proof (cases xs)
  case Nil
  assume "slash \<notin> set n"
  then show ?thesis using Nil by (simp add: base_name_id)
next
  case (Cons x xs')
  assume "slash \<notin> set n"
  then show ?thesis using Cons join_append_cons[of xs "[n]" "[slash]"] base_name_append by simp
qed

lemma base_name_slash: "base_name (slash # p) = base_name p"
  by (simp add: base_name_def takeWhile_tail)

lemma base_name_path_join: "plain_comp n \<Longrightarrow> base_name (path_join [d, n]) = n"
proof -
  assume n: "plain_comp n"
  then have n': "n \<noteq> []" "slash \<notin> set n" by (auto simp: plain_comp_def)
  show ?thesis
  proof (cases "d = []")
    case True
    then have "path_join [d, n] = n"
      using n n' clean_comps_snoc[OF n, of False "[]" "[]"]
      by (auto simp: path_join_def clean_def is_abs_def split_on_id) (metis hd_in_set)
    then show ?thesis using base_name_join_snoc[OF n'(2), of "[]"] by simp
  next
    case False
    have "split_on slash (d @ slash # n) = split_on slash d @ [n]"
      using n' split_on_append_sep[of slash d n] by (simp add: split_on_id)
    then show ?thesis
      using False n n' base_name_join_snoc[OF n'(2)] clean_comps_snoc[OF n]
      by (simp add: path_join_def clean_def base_name_slash Let_def)
  qed
qed

end
