(* ===== verification/Rev2.thy ===== *)
theory Rev2
  imports Go_Strings
begin

text \<open>
  The messages of the Remote Execution API (REv2) that the repository reads and writes, with
  the fields it touches. They are generated protocol buffer code of another repository; the
  records here are the data the Go code exchanges with the storage.
\<close>

record digest =
  hash :: string
  size_bytes :: int

record file_node =
  file_name :: string
  file_digest :: digest
  isExecutable :: bool

record directory_node =
  dir_name :: string
  dir_digest :: digest

record symlink_node =
  link_name :: string
  link_target :: string

record directory =
  dir_files :: "file_node list"
  dir_directories :: "directory_node list"
  dir_symlinks :: "symlink_node list"

text \<open>The canonical form of a \<open>Directory\<close>: each entry list sorted by name, without repeats.\<close>

definition canonical_directory :: "directory \<Rightarrow> bool" where
  "canonical_directory d \<longleftrightarrow>
     canonical file_name (dir_files d) \<and> canonical dir_name (dir_directories d)
   \<and> canonical link_name (dir_symlinks d)"

definition entry_names :: "directory \<Rightarrow> string list" where
  "entry_names d = map dir_name (dir_directories d) @ map link_name (dir_symlinks d)
     @ map file_name (dir_files d)"

record platform_property =
  prop_name :: string
  prop_value :: string

text \<open>A \<open>Platform\<close> message is its property list; an action may have none (a nil pointer).\<close>

type_synonym platform = "platform_property list"

record action =
  commandDigest :: digest
  inputRootDigest :: digest
  action_platform :: "platform option"

record env_var =
  var_name :: string
  var_value :: string

record command =
  arguments :: "string list"
  environmentVariables :: "env_var list"
  workingDirectory :: string

record request_metadata =
  toolInvocationId :: string
  targetId :: string
  actionMnemonic :: string
  configurationId :: string
  correlatedInvocationsId :: string

end
