(* ===== verification/Dir_State.thy ===== *)
theory Dir_State
  imports Rev2
begin

text \<open>
  The in-memory directory tree of \<open>src/pkg/blobstore/cas_uploading_layer_extractor.go\<close>:
  the type \<open>uploadDirState\<close>, path look-up, path creation and deletion, the invariant that a
  directory is one name space, and the refinement of the tree by the abstract file system
  \<open>fs\<close>, a map from paths to entries.
\<close>

section \<open>Definitions\<close>

text \<open>
  A node of the tree. The four Go maps are association lists. A pointer to a node of the tree
  is the path of the node.
\<close>

datatype uploadDirState = UploadDirState
  (subDirs: "(string \<times> uploadDirState) list")
  (files: "(string \<times> file_node) list")
  (symlinks: "(string \<times> symlink_node) list")
  (hardLinks: "(string \<times> string) list")

definition newUploadDirState :: uploadDirState where
  "newUploadDirState = UploadDirState [] [] [] []"

fun set_subDirs :: "(string \<times> uploadDirState) list \<Rightarrow> uploadDirState \<Rightarrow> uploadDirState" where
  "set_subDirs m (UploadDirState sd fs sl hl) = UploadDirState m fs sl hl"

fun set_files :: "(string \<times> file_node) list \<Rightarrow> uploadDirState \<Rightarrow> uploadDirState" where
  "set_files m (UploadDirState sd fs sl hl) = UploadDirState sd m sl hl"

fun set_symlinks :: "(string \<times> symlink_node) list \<Rightarrow> uploadDirState \<Rightarrow> uploadDirState" where
  "set_symlinks m (UploadDirState sd fs sl hl) = UploadDirState sd fs m hl"

fun set_hardLinks :: "(string \<times> string) list \<Rightarrow> uploadDirState \<Rightarrow> uploadDirState" where
  "set_hardLinks m (UploadDirState sd fs sl hl) = UploadDirState sd fs sl m"

definition splitPath :: "string \<Rightarrow> string list" where
  "splitPath path0 =
     (let path1 = clean path0;
          path = (if is_abs path1 then tl path1 else path1)
      in if path = '''' \<or> path = ''.'' \<or> path = ''..'' then [] else split_on slash path)"

text \<open>\<open>getChildDirState\<close>, as the loop over the components and from the path.\<close>

fun get_child :: "uploadDirState \<Rightarrow> string list \<Rightarrow> uploadDirState option" where
  "get_child node [] = Some node"
| "get_child node (childName # cs) =
     (case map_of (subDirs node) childName of Some child \<Rightarrow> get_child child cs | None \<Rightarrow> None)"

definition getChildDirState :: "uploadDirState \<Rightarrow> string \<Rightarrow> uploadDirState option" where
  "getChildDirState u path = get_child u (splitPath path)"

fun ds_delete :: "string \<Rightarrow> uploadDirState \<Rightarrow> uploadDirState" where
  "ds_delete filename (UploadDirState sd fs sl hl) =
     UploadDirState (AList.delete filename sd) (AList.delete filename fs)
       (AList.delete filename sl) (AList.delete filename hl)"

text \<open>
  \<open>getOrCreateChildDirState\<close> returns a pointer into the tree it has extended. The model
  returns the extended tree; the pointer is the path, at which \<open>modify_at\<close> applies what the
  caller does with the node.
\<close>

fun get_or_create :: "string list \<Rightarrow> uploadDirState \<Rightarrow> uploadDirState" where
  "get_or_create [] node = node"
| "get_or_create (childName # cs) node =
     (case map_of (subDirs node) childName of
        Some child \<Rightarrow>
          set_subDirs (AList.update childName (get_or_create cs child) (subDirs node)) node
      | None \<Rightarrow>
          (let node' = ds_delete childName node
           in set_subDirs
                (AList.update childName (get_or_create cs newUploadDirState) (subDirs node')) node'))"

definition getOrCreateChildDirState :: "string \<Rightarrow> uploadDirState \<Rightarrow> uploadDirState" where
  "getOrCreateChildDirState path u = get_or_create (splitPath path) u"

fun modify_at :: "(uploadDirState \<Rightarrow> uploadDirState) \<Rightarrow> string list \<Rightarrow> uploadDirState \<Rightarrow> uploadDirState"
where
  "modify_at f [] node = f node"
| "modify_at f (c # cs) node =
     (case map_of (subDirs node) c of
        Some child \<Rightarrow> set_subDirs (AList.update c (modify_at f cs child) (subDirs node)) node
      | None \<Rightarrow> node)"

text \<open>What the operations of the extractor do to the node they have found.\<close>

definition put_file :: "string \<Rightarrow> digest \<Rightarrow> bool \<Rightarrow> uploadDirState \<Rightarrow> uploadDirState" where
  "put_file name d x node =
     set_files (AList.update name \<lparr>file_name = name, file_digest = d, isExecutable = x\<rparr> (files node)) node"

definition put_symlink :: "string \<Rightarrow> string \<Rightarrow> uploadDirState \<Rightarrow> uploadDirState" where
  "put_symlink name t node =
     set_symlinks (AList.update name \<lparr>link_name = name, link_target = t\<rparr> (symlinks node)) node"

definition put_hardlink :: "string \<Rightarrow> string \<Rightarrow> uploadDirState \<Rightarrow> uploadDirState" where
  "put_hardlink name t node = set_hardLinks (AList.update name t (hardLinks node)) node"

section \<open>The invariant: one name space per directory\<close>

definition node_names :: "uploadDirState \<Rightarrow> string list" where
  "node_names u = keys (subDirs u) @ keys (symlinks u) @ keys (files u) @ keys (hardLinks u)"

definition wf_node :: "uploadDirState \<Rightarrow> bool" where
  "wf_node u \<longleftrightarrow> distinct (node_names u)
     \<and> (\<forall>(n, f) \<in> set (files u). file_name f = n)
     \<and> (\<forall>(n, s) \<in> set (symlinks u). link_name s = n)"

fun wf_ds :: "uploadDirState \<Rightarrow> bool" where
  "wf_ds (UploadDirState sd fs sl hl) \<longleftrightarrow>
     wf_node (UploadDirState sd fs sl hl) \<and> list_all (\<lambda>(n, ch). wf_ds ch) sd"

section \<open>The abstract file system\<close>

datatype entry = EDir | EFile digest bool | ESymlink string | EHardlink string

type_synonym fs = "string list \<Rightarrow> entry option"

definition leaf_entry :: "uploadDirState \<Rightarrow> string \<Rightarrow> entry option" where
  "leaf_entry u n =
     (case map_of (files u) n of Some f \<Rightarrow> Some (EFile (file_digest f) (isExecutable f))
      | None \<Rightarrow> (case map_of (symlinks u) n of Some s \<Rightarrow> Some (ESymlink (link_target s))
                | None \<Rightarrow> map_option EHardlink (map_of (hardLinks u) n)))"

fun lookup :: "uploadDirState \<Rightarrow> fs" where
  "lookup u [] = Some EDir"
| "lookup u (n # p) =
     (case map_of (subDirs u) n of
        Some child \<Rightarrow> lookup child p
      | None \<Rightarrow> if p = [] then leaf_entry u n else None)"

text \<open>The abstract operations: create a chain of directories, replace a path, remove a path.\<close>

definition fs_mkdirs :: "string list \<Rightarrow> fs \<Rightarrow> fs" where
  "fs_mkdirs p fs = (\<lambda>q. if prefix q p then Some EDir else fs q)"

definition fs_put :: "string list \<Rightarrow> entry \<Rightarrow> fs \<Rightarrow> fs" where
  "fs_put p e fs = (\<lambda>q. if q = p then Some e else if prefix p q then None else fs q)"

definition fs_remove :: "string list \<Rightarrow> fs \<Rightarrow> fs" where
  "fs_remove p fs = (\<lambda>q. if prefix p q then None else fs q)"

definition fs_clear :: "string list \<Rightarrow> fs \<Rightarrow> fs" where
  "fs_clear p fs = (\<lambda>q. if strict_prefix p q then None else fs q)"

section \<open>Selectors of an updated node\<close>

named_theorems node_simps \<open>the maps of a node after an update\<close>

lemma set_field_simps [simp, node_simps]:
  "subDirs (set_subDirs m u) = m" "files (set_subDirs m u) = files u"
  "symlinks (set_subDirs m u) = symlinks u" "hardLinks (set_subDirs m u) = hardLinks u"
  "subDirs (set_files fm u) = subDirs u" "files (set_files fm u) = fm"
  "symlinks (set_files fm u) = symlinks u" "hardLinks (set_files fm u) = hardLinks u"
  "subDirs (set_symlinks sm u) = subDirs u" "files (set_symlinks sm u) = files u"
  "symlinks (set_symlinks sm u) = sm" "hardLinks (set_symlinks sm u) = hardLinks u"
  "subDirs (set_hardLinks hm u) = subDirs u" "files (set_hardLinks hm u) = files u"
  "symlinks (set_hardLinks hm u) = symlinks u" "hardLinks (set_hardLinks hm u) = hm"
  by (cases u; simp)+

lemma ds_delete_simps [simp, node_simps]:
  "subDirs (ds_delete n u) = AList.delete n (subDirs u)"
  "files (ds_delete n u) = AList.delete n (files u)"
  "symlinks (ds_delete n u) = AList.delete n (symlinks u)"
  "hardLinks (ds_delete n u) = AList.delete n (hardLinks u)"
  by (cases u; simp)+

lemma newUploadDirState_simps [simp, node_simps]:
  "subDirs newUploadDirState = []" "files newUploadDirState = []"
  "symlinks newUploadDirState = []" "hardLinks newUploadDirState = []"
  by (simp_all add: newUploadDirState_def)

lemma uploadDirState_eqI:
  "subDirs u = subDirs v \<Longrightarrow> files u = files v \<Longrightarrow> symlinks u = symlinks v
   \<Longrightarrow> hardLinks u = hardLinks v \<Longrightarrow> u = v"
  by (cases u; cases v) simp

section \<open>Preservation of the invariant\<close>

lemma wf_dsI:
  "wf_node u \<Longrightarrow> (\<And>n ch. (n, ch) \<in> set (subDirs u) \<Longrightarrow> wf_ds ch) \<Longrightarrow> wf_ds u"
  by (cases u) (auto simp: list_all_iff)

lemma wf_ds_node [dest]: "wf_ds u \<Longrightarrow> wf_node u"
  by (cases u) simp

lemma wf_ds_in_child: "wf_ds u \<Longrightarrow> (n, ch) \<in> set (subDirs u) \<Longrightarrow> wf_ds ch"
  by (cases u) (auto simp: list_all_iff)

lemma wf_ds_child: "wf_ds u \<Longrightarrow> map_of (subDirs u) n = Some ch \<Longrightarrow> wf_ds ch"
  by (auto dest: map_of_SomeD wf_ds_in_child)

text \<open>A change of a node that keeps its children keeps the invariant if the node keeps it.\<close>

lemma wf_ds_same_children:
  "wf_ds u \<Longrightarrow> wf_node v \<Longrightarrow> set (subDirs v) \<subseteq> set (subDirs u) \<Longrightarrow> wf_ds v"
  by (rule wf_dsI) (auto dest: wf_ds_in_child)

lemma wf_node_iff:
  "wf_node u \<longleftrightarrow>
     go_map (subDirs u) \<and> go_map (symlinks u) \<and> go_map (files u) \<and> go_map (hardLinks u)
   \<and> fst ` set (subDirs u) \<inter> fst ` set (symlinks u) = {}
   \<and> fst ` set (subDirs u) \<inter> fst ` set (files u) = {}
   \<and> fst ` set (subDirs u) \<inter> fst ` set (hardLinks u) = {}
   \<and> fst ` set (symlinks u) \<inter> fst ` set (files u) = {}
   \<and> fst ` set (symlinks u) \<inter> fst ` set (hardLinks u) = {}
   \<and> fst ` set (files u) \<inter> fst ` set (hardLinks u) = {}
   \<and> (\<forall>(n, f) \<in> set (files u). file_name f = n)
   \<and> (\<forall>(n, s) \<in> set (symlinks u). link_name s = n)"
  unfolding wf_node_def node_names_def go_map_def
  by (simp add: Int_Un_distrib conj_assoc) (simp add: conj_left_commute conj_commute Int_commute)

text \<open>A name in one map of a node is in no other.\<close>

lemma wf_node_file:
  assumes "wf_node u" and "map_of (files u) n = Some f"
  shows "map_of (subDirs u) n = None" and "file_name f = n"
proof -
  have d: "fst ` set (subDirs u) \<inter> fst ` set (files u) = {}" using assms(1) by (simp add: wf_node_iff)
  then show "map_of (subDirs u) n = None"
    using map_of_Some_key[OF assms(2)] by (simp add: map_of_None_keys disjoint_iff) metis
  show "file_name f = n" using assms by (auto simp: wf_node_def dest!: map_of_SomeD)
qed

lemma wf_node_hardlink:
  assumes "wf_node u" and "(n, t) \<in> set (hardLinks u)"
  shows "map_of (subDirs u) n = None" "map_of (files u) n = None" "map_of (symlinks u) n = None"
    and "map_of (hardLinks u) n = Some t"
proof -
  have n: "n \<in> fst ` set (hardLinks u)" using imageI[OF assms(2), of fst] by simp
  have d: "fst ` set (subDirs u) \<inter> fst ` set (hardLinks u) = {}"
    "fst ` set (files u) \<inter> fst ` set (hardLinks u) = {}"
    "fst ` set (symlinks u) \<inter> fst ` set (hardLinks u) = {}"
    using assms(1) by (simp_all add: wf_node_iff)
  show "map_of (subDirs u) n = None" "map_of (files u) n = None" "map_of (symlinks u) n = None"
    unfolding map_of_None_keys using d n by blast+
  show "map_of (hardLinks u) n = Some t" using assms by (simp add: wf_node_iff go_map_lookup)
qed

lemma wf_new [simp]: "wf_ds newUploadDirState"
  by (simp add: newUploadDirState_def wf_node_def node_names_def)

lemma wf_node_delete: "wf_node u \<Longrightarrow> wf_node (ds_delete n u)"
  unfolding wf_node_iff by (auto simp: in_set_delete)

lemma wf_ds_delete: "wf_ds u \<Longrightarrow> wf_ds (ds_delete n u)"
  by (rule wf_ds_same_children[OF _ wf_node_delete]) (auto simp: in_set_delete)

definition free_name :: "string \<Rightarrow> uploadDirState \<Rightarrow> bool" where
  "free_name n u \<longleftrightarrow> n \<notin> set (node_names u)"

lemma free_name_iff:
  "free_name n u \<longleftrightarrow> n \<notin> fst ` set (subDirs u) \<and> n \<notin> fst ` set (symlinks u)
     \<and> n \<notin> fst ` set (files u) \<and> n \<notin> fst ` set (hardLinks u)"
  by (auto simp: free_name_def node_names_def)

lemma free_name_delete [simp]: "free_name n (ds_delete n u)"
  by (simp add: free_name_iff)

lemma wf_node_put_file: "wf_node u \<Longrightarrow> free_name n u \<Longrightarrow> wf_node (put_file n d x u)"
  unfolding wf_node_iff free_name_iff put_file_def by (auto simp: in_set_update split: if_splits)

lemma wf_node_put_symlink: "wf_node u \<Longrightarrow> free_name n u \<Longrightarrow> wf_node (put_symlink n t u)"
  unfolding wf_node_iff free_name_iff put_symlink_def by (auto simp: in_set_update split: if_splits)

lemma wf_node_put_hardlink: "wf_node u \<Longrightarrow> free_name n u \<Longrightarrow> wf_node (put_hardlink n t u)"
  unfolding wf_node_iff free_name_iff put_hardlink_def by (auto simp: in_set_update)

lemma subDirs_put [simp]:
  "subDirs (put_file n d x u) = subDirs u" "subDirs (put_symlink n t u) = subDirs u"
  "subDirs (put_hardlink n t u) = subDirs u"
  by (simp_all add: put_file_def put_symlink_def put_hardlink_def)

lemma wf_put:
  assumes "wf_ds u" and "free_name n u"
  shows "wf_ds (put_file n d x u)" and "wf_ds (put_symlink n t u)" and "wf_ds (put_hardlink n t u)"
  using assms wf_ds_same_children[OF assms(1)]
  by (auto simp: wf_node_put_file wf_node_put_symlink wf_node_put_hardlink)

lemma wf_node_set_child:
  assumes "wf_node u" and "map_of (subDirs u) n \<noteq> None \<or> free_name n u"
  shows "wf_node (set_subDirs (AList.update n ch (subDirs u)) u)"
proof -
  have "n \<notin> fst ` set (symlinks u)" "n \<notin> fst ` set (files u)" "n \<notin> fst ` set (hardLinks u)"
    using assms by (auto simp: wf_node_iff free_name_iff map_of_None_keys)
  then show ?thesis using assms(1) unfolding wf_node_iff by auto
qed

lemma wf_set_child:
  assumes "wf_ds u" and "wf_ds ch" and "map_of (subDirs u) n \<noteq> None \<or> free_name n u"
  shows "wf_ds (set_subDirs (AList.update n ch (subDirs u)) u)"
proof (rule wf_dsI)
  show "wf_node (set_subDirs (AList.update n ch (subDirs u)) u)"
    using assms by (blast intro: wf_node_set_child)
next
  fix m c
  assume "(m, c) \<in> set (subDirs (set_subDirs (AList.update n ch (subDirs u)) u))"
  moreover have "go_map (subDirs u)" using assms(1) by (auto simp: wf_node_iff)
  ultimately have "c = ch \<or> (m, c) \<in> set (subDirs u)"
    by (auto simp: in_set_update split: if_splits)
  then show "wf_ds c" using assms(1,2) wf_ds_in_child by blast
qed

lemma wf_get_or_create: "wf_ds u \<Longrightarrow> wf_ds (get_or_create cs u)"
proof (induction cs u rule: get_or_create.induct)
  case (2 c cs u)
  show ?case
  proof (cases "map_of (subDirs u) c")
    case None
    have "wf_ds (get_or_create cs newUploadDirState)" using 2 None by simp
    then show ?thesis
      using None wf_set_child[OF wf_ds_delete[OF "2.prems"], of _ c c] by (simp add: Let_def)
  next
    case (Some ch)
    then have "wf_ds (get_or_create cs ch)" using 2 wf_ds_child by blast
    then show ?thesis using Some wf_set_child[OF "2.prems", of _ c] by simp
  qed
qed simp

lemma wf_modify_at:
  assumes "\<And>v. wf_ds v \<Longrightarrow> wf_ds (f v)"
  shows "wf_ds u \<Longrightarrow> wf_ds (modify_at f cs u)"
proof (induction cs arbitrary: u)
  case Nil
  then show ?case using assms by simp
next
  case (Cons c cs)
  show ?case
  proof (cases "map_of (subDirs u) c")
    case (Some ch)
    then have "wf_ds (modify_at f cs ch)" using Cons wf_ds_child by blast
    then show ?thesis using Some wf_set_child[OF Cons.prems, of _ c] by simp
  qed (use Cons.prems in simp)
qed

section \<open>Refinement of the abstract file system\<close>

lemma get_child_append:
  "get_child u (cs @ ds) = (case get_child u cs of Some v \<Rightarrow> get_child v ds | None \<Rightarrow> None)"
  by (induction cs arbitrary: u) (auto split: option.splits)

lemma lookup_get_child: "get_child u cs = Some v \<Longrightarrow> lookup u (cs @ r) = lookup v r"
  by (induction cs arbitrary: u) (auto split: option.splits)

lemma leaf_entry_delete: "leaf_entry (ds_delete n u) m = (if m = n then None else leaf_entry u m)"
  by (auto simp: leaf_entry_def split: option.splits)

lemma leaf_entry_set_subDirs [simp]: "leaf_entry (set_subDirs m u) n = leaf_entry u n"
  by (simp add: leaf_entry_def cong: option.case_cong)

lemma lookup_new: "lookup newUploadDirState q = (if q = [] then Some EDir else None)"
  by (cases q) (simp_all add: leaf_entry_def)

lemma lookup_set_child:
  "lookup (set_subDirs (AList.update n ch (subDirs u)) u) q =
     (case q of [] \<Rightarrow> Some EDir | m # p \<Rightarrow> if m = n then lookup ch p else lookup u q)"
  by (cases q) (auto split: option.splits)

lemma lookup_delete: "lookup (ds_delete n u) = fs_remove [n] (lookup u)"
proof
  fix q
  show "lookup (ds_delete n u) q = fs_remove [n] (lookup u) q"
    by (cases q) (auto simp: fs_remove_def leaf_entry_delete split: option.splits)
qed

text \<open>\<open>getOrCreateChildDirState\<close> implements \<open>fs_mkdirs\<close>.\<close>

lemma lookup_get_or_create: "lookup (get_or_create cs u) = fs_mkdirs cs (lookup u)"
proof (induction cs u rule: get_or_create.induct)
  case (1 u)
  then show ?case by (auto simp: fs_mkdirs_def fun_eq_iff)
next
  case (2 c cs u)
  show ?case
  proof
    fix q
    show "lookup (get_or_create (c # cs) u) q = fs_mkdirs (c # cs) (lookup u) q"
    proof (cases "map_of (subDirs u) c")
      case None
      then have IH: "lookup (get_or_create cs newUploadDirState) = fs_mkdirs cs (lookup newUploadDirState)"
        using "2.IH" None by auto
      show ?thesis
        using None
        by (cases q) (auto simp: Let_def lookup_set_child IH fs_mkdirs_def lookup_new
              leaf_entry_delete split: option.splits)
    next
      case (Some ch)
      then have IH: "lookup (get_or_create cs ch) = fs_mkdirs cs (lookup ch)"
        using "2.IH" by blast
      show ?thesis
        using Some by (cases q) (auto simp: lookup_set_child IH fs_mkdirs_def split: option.splits)
    qed
  qed
qed

lemma get_child_get_or_create:
  obtains v where "get_child (get_or_create cs u) cs = Some v"
    and "\<And>r. lookup v r = fs_mkdirs cs (lookup u) (cs @ r)"
proof -
  have "\<exists>v. get_child (get_or_create cs u) cs = Some v"
    by (induction cs u rule: get_or_create.induct) (auto simp: Let_def split: option.splits)
  then obtain v where v: "get_child (get_or_create cs u) cs = Some v" ..
  then show thesis
    using that[of v] lookup_get_child[OF v] by (simp add: lookup_get_or_create)
qed

lemma lookup_modify_at:
  assumes "get_child u cs = Some v"
  shows "lookup (modify_at f cs u) q =
    (if prefix cs q then lookup (f v) (drop (length cs) q) else lookup u q)"
  using assms
proof (induction cs arbitrary: u q)
  case (Cons c cs)
  then obtain ch where ch: "map_of (subDirs u) c = Some ch" and v: "get_child ch cs = Some v"
    by (auto split: option.splits)
  show ?case
    using ch Cons.IH[OF v] by (cases q) (auto simp: lookup_set_child cong: option.case_cong)
qed simp

text \<open>
  Whatever an operation does to the node \<open>v\<close> it has found or created, its effect on the file
  system is \<open>fs_mkdirs\<close> followed by the effect on the subtree.
\<close>

lemma lookup_modify_created:
  assumes "\<And>v. lookup (f v) = g (lookup v)"
  shows "lookup (modify_at f cs (get_or_create cs u)) q =
    (if prefix cs q then g (\<lambda>r. fs_mkdirs cs (lookup u) (cs @ r)) (drop (length cs) q)
     else fs_mkdirs cs (lookup u) q)"
proof -
  obtain v where v: "get_child (get_or_create cs u) cs = Some v"
    and l: "\<And>r. lookup v r = fs_mkdirs cs (lookup u) (cs @ r)"
    using get_child_get_or_create[of cs u] by blast
  have "lookup v = (\<lambda>r. fs_mkdirs cs (lookup u) (cs @ r))" by (rule ext) (rule l)
  then show ?thesis
    using lookup_modify_at[OF v, of f q] assms by (simp add: lookup_get_or_create)
qed

lemma lookup_put_deleted:
  "lookup (put_file n d x (ds_delete n u)) = fs_put [n] (EFile d x) (lookup u)"
  "lookup (put_symlink n t (ds_delete n u)) = fs_put [n] (ESymlink t) (lookup u)"
  "lookup (put_hardlink n t (ds_delete n u)) = fs_put [n] (EHardlink t) (lookup u)"
proof -
  have aux: "lookup (f (ds_delete n u)) = fs_put [n] e (lookup u)"
    if "\<And>v. subDirs (f v) = subDirs v"
      and "\<And>m. leaf_entry (f (ds_delete n u)) m = (if m = n then Some e else leaf_entry u m)" for f e
  proof
    fix q
    show "lookup (f (ds_delete n u)) q = fs_put [n] e (lookup u) q"
      using that by (cases q) (auto simp: fs_put_def split: option.splits)
  qed
  show "lookup (put_file n d x (ds_delete n u)) = fs_put [n] (EFile d x) (lookup u)"
    by (rule aux) (auto simp: leaf_entry_def put_file_def split: option.splits)
  show "lookup (put_symlink n t (ds_delete n u)) = fs_put [n] (ESymlink t) (lookup u)"
    by (rule aux) (auto simp: leaf_entry_def put_symlink_def split: option.splits)
  show "lookup (put_hardlink n t (ds_delete n u)) = fs_put [n] (EHardlink t) (lookup u)"
    by (rule aux) (auto simp: leaf_entry_def put_hardlink_def split: option.splits)
qed

text \<open>The subtree form of the abstract operations, as \<open>lookup_modify_created\<close> produces it.\<close>

lemma fs_put_at:
  "(if prefix cs q then fs_put [n] e (\<lambda>r. fs (cs @ r)) (drop (length cs) q) else fs q) =
   fs_put (cs @ [n]) e fs q"
  by (auto simp: fs_put_def prefix_def append_eq_append_conv2)

lemma fs_remove_at:
  "(if prefix cs q then fs_remove [n] (\<lambda>r. fs (cs @ r)) (drop (length cs) q) else fs q) =
   fs_remove (cs @ [n]) fs q"
  by (auto simp: fs_remove_def prefix_def append_eq_append_conv2)

lemma fs_clear_at:
  "(if prefix cs q then fs_clear [] (\<lambda>r. fs (cs @ r)) (drop (length cs) q) else fs q) =
   fs_clear cs fs q"
  by (auto simp: fs_clear_def prefix_def strict_prefix_def)

text \<open>The file system seen through a tree is a tree: below a present path are directories only.\<close>

lemma lookup_parent: "lookup u (p @ n # r) \<noteq> None \<Longrightarrow> lookup u p = Some EDir"
  by (induction p arbitrary: u) (auto split: option.splits if_splits)

end
