(* ===== verification/Hardlinks.thy ===== *)
theory Hardlinks
  imports Dir_State
begin

text \<open>
  \<open>resolveHardlinks\<close> of \<open>src/pkg/blobstore/cas_uploading_layer_extractor.go\<close>: at the end of a
  layer every recorded hard link becomes a copy of what it points to. The model threads the
  root, since a link's target is looked up in the tree that is being changed; the node being
  processed is addressed by its path, and its maps (which only its own processing changes)
  are those of the node when the call begins.
\<close>

section \<open>Definitions\<close>

text \<open>The change of its directory that resolving one link makes, or the error.\<close>

definition resolve_link ::
  "uploadDirState \<Rightarrow> string \<Rightarrow> string \<Rightarrow> (uploadDirState \<Rightarrow> uploadDirState) res"
where
  "resolve_link root hlinkName target =
     (let (targetDir, targetName) = path_split target
      in case getChildDirState root targetDir of
           None \<Rightarrow> Inl (Errorf Internal ''couldn't find source dir for %s -> %s hardlink'' [hlinkName, target])
         | Some targetDirDs \<Rightarrow>
             (case map_of (files targetDirDs) targetName of
                Some targetFile \<Rightarrow>
                  Inr (\<lambda>u. put_file hlinkName (file_digest targetFile) (isExecutable targetFile)
                             (ds_delete hlinkName u))
              | None \<Rightarrow>
                  (case map_of (subDirs targetDirDs) targetName of
                     Some _ \<Rightarrow> Inr (\<lambda>u. put_symlink hlinkName target (ds_delete hlinkName u))
                   | None \<Rightarrow>
                       (case map_of (symlinks targetDirDs) targetName of
                          Some targetLink \<Rightarrow>
                            Inr (\<lambda>u. put_symlink hlinkName (link_target targetLink) (ds_delete hlinkName u))
                        | None \<Rightarrow>
                            Inl (Errorf Internal ''Couldn't find source file for %s -> %s hardlink''
                                   [hlinkName, target])))))"

text \<open>The loop over \<open>u.hardLinks\<close> for the directory at path \<open>p\<close>.\<close>

fun resolve_links :: "string list \<Rightarrow> (string \<times> string) list \<Rightarrow> uploadDirState \<Rightarrow> uploadDirState res" where
  "resolve_links p [] root = Inr root"
| "resolve_links p ((hlinkName, target) # hl) root =
     rbind (resolve_link root hlinkName target) (\<lambda>f. resolve_links p hl (modify_at f p root))"

text \<open>
  The recursion. A subdirectory whose name was that of a hard link has been deleted by the
  loop before, so it is not visited (names are never shared, see \<open>wf_ds\<close>).
\<close>

fun resolveHardlinks :: "string list \<Rightarrow> uploadDirState \<Rightarrow> uploadDirState \<Rightarrow> uploadDirState res"
  and resolve_children ::
    "string list \<Rightarrow> string list \<Rightarrow> (string \<times> uploadDirState) list \<Rightarrow> uploadDirState \<Rightarrow> uploadDirState res"
where
  "resolveHardlinks p (UploadDirState sd fs sl hl) root =
     rbind (resolve_links p hl root) (\<lambda>root1.
       rbind (resolve_children p (keys hl) sd root1) (\<lambda>root2.
         Inr (modify_at (set_hardLinks []) p root2)))"
| "resolve_children p hs [] root = Inr root"
| "resolve_children p hs ((n, child) # sd) root =
     (if n \<in> set hs then resolve_children p hs sd root
      else rbind (resolveHardlinks (p @ [n]) child root) (resolve_children p hs sd))"

section \<open>The abstract step\<close>

definition is_hard :: "entry option \<Rightarrow> bool" where
  "is_hard e \<longleftrightarrow> (\<exists>t. e = Some (EHardlink t))"

text \<open>The path a link target denotes, and what a link to an entry becomes.\<close>

definition target_path :: "string \<Rightarrow> string list" where
  "target_path t = splitPath (dir_part t) @ [base_name t]"

fun link_value :: "string \<Rightarrow> entry \<Rightarrow> entry" where
  "link_value t EDir = ESymlink t"
| "link_value t (EFile d x) = EFile d x"
| "link_value t (ESymlink s) = ESymlink s"
| "link_value t (EHardlink s) = EHardlink s"

text \<open>
  One link is resolved: the path held a hard link, its target holds an entry that is not one,
  and the path gets the value of that entry.
\<close>

inductive link_step :: "fs \<Rightarrow> fs \<Rightarrow> bool" where
  link: "fs q = Some (EHardlink t) \<Longrightarrow> fs (target_path t) = Some e \<Longrightarrow> \<not> is_hard (Some e) \<Longrightarrow>
     link_step fs (fs(q \<mapsto> link_value t e))"

inductive_cases link_stepE: "link_step fs fs'"

abbreviation resolves :: "fs \<Rightarrow> fs \<Rightarrow> bool" where
  "resolves \<equiv> link_step\<^sup>*\<^sup>*"

text \<open>What a sequence of steps has done to the file system.\<close>

definition resolved_from :: "fs \<Rightarrow> fs \<Rightarrow> bool" where
  "resolved_from fs0 fs \<longleftrightarrow> (\<forall>q. \<not> is_hard (fs0 q) \<longrightarrow> fs q = fs0 q) \<and>
     (\<forall>q t. fs0 q = Some (EHardlink t) \<longrightarrow> fs q = Some (EHardlink t) \<or>
        (\<exists>e. fs (target_path t) = Some e \<and> \<not> is_hard (Some e) \<and> fs q = Some (link_value t e)))"

lemma is_hard_simps [simp]:
  "\<not> is_hard None" "\<not> is_hard (Some EDir)" "\<not> is_hard (Some (EFile d x))"
  "\<not> is_hard (Some (ESymlink s))" "is_hard (Some (EHardlink s))"
  by (auto simp: is_hard_def)

lemma link_value_not_hard [simp]: "\<not> is_hard (Some e) \<Longrightarrow> \<not> is_hard (Some (link_value t e))"
  by (cases e) auto

lemma resolved_from_refl: "resolved_from fs fs"
  by (simp add: resolved_from_def)

lemma link_step_other: "link_step fs fs' \<Longrightarrow> \<not> is_hard (fs x) \<Longrightarrow> fs' x = fs x"
  by (auto elim!: link_stepE)

lemma resolved_from_step:
  assumes R: "resolved_from fs0 fs" and step: "link_step fs fs'"
  shows "resolved_from fs0 fs'"
  unfolding resolved_from_def
proof (intro conjI allI impI)
  fix q assume "\<not> is_hard (fs0 q)"
  then show "fs' q = fs0 q"
    using R link_step_other[OF step] by (metis resolved_from_def)
next
  fix r s assume s: "fs0 r = Some (EHardlink s)"
  from step obtain q t e where q: "fs q = Some (EHardlink t)" "fs (target_path t) = Some e"
      "\<not> is_hard (Some e)" and fs': "fs' = fs(q \<mapsto> link_value t e)"
    by (auto elim!: link_stepE)
  have keep: "fs' (target_path x) = Some e'" if "fs (target_path x) = Some e'" "\<not> is_hard (Some e')"
    for x e' using link_step_other[OF step, of "target_path x"] that by simp
  from R s consider (hard) "fs r = Some (EHardlink s)"
    | (resolved) e' where "fs (target_path s) = Some e'" "\<not> is_hard (Some e')" "fs r = Some (link_value s e')"
    unfolding resolved_from_def by blast
  then show "fs' r = Some (EHardlink s) \<or>
     (\<exists>e. fs' (target_path s) = Some e \<and> \<not> is_hard (Some e) \<and> fs' r = Some (link_value s e))"
  proof cases
    case hard
    then show ?thesis using q fs' keep[of t] by (cases "r = q") auto
  next
    case resolved
    then have "fs' r = fs r" using link_step_other[OF step, of r] by simp
    then show ?thesis using resolved keep by auto
  qed
qed

lemma resolves_resolved_from: "resolves fs0 fs \<Longrightarrow> resolved_from fs0 fs"
  by (induction rule: rtranclp_induct) (auto intro: resolved_from_refl resolved_from_step)

section \<open>Changing the node at a path\<close>

abbreviation put_at :: "string list \<Rightarrow> uploadDirState \<Rightarrow> uploadDirState \<Rightarrow> uploadDirState" where
  "put_at p v root \<equiv> modify_at (\<lambda>_. v) p root"

lemma set_subDirs_same [simp]: "set_subDirs (subDirs u) u = u"
  by (cases u) simp

lemma set_subDirs_twice [simp]: "set_subDirs m (set_subDirs m' u) = set_subDirs m u"
  by (cases u) simp

lemma modify_at_put_at: "get_child root p = Some v \<Longrightarrow> modify_at f p root = put_at p (f v) root"
  by (induction p arbitrary: root) (auto split: option.splits)

lemma put_at_same: "get_child root p = Some v \<Longrightarrow> put_at p v root = root"
  by (induction p arbitrary: root) (auto simp: update_triv split: option.splits)

lemma put_at_twice: "put_at p v (put_at p w root) = put_at p v root"
  by (induction p arbitrary: root) (auto simp: update_last split: option.splits)

lemma get_child_put_at: "get_child root p = Some v \<Longrightarrow> get_child (put_at p w root) p = Some w"
  by (induction p arbitrary: root) (auto split: option.splits)

lemma put_at_append:
  assumes "get_child root p = Some v" and "map_of (subDirs v) n \<noteq> None"
  shows "put_at (p @ [n]) c root = put_at p (set_subDirs (AList.update n c (subDirs v)) v) root"
  using assms by (induction p arbitrary: root) (auto split: option.splits)

lemma wf_get_child: "wf_ds root \<Longrightarrow> get_child root p = Some v \<Longrightarrow> wf_ds v"
  by (induction p arbitrary: root) (auto split: option.splits dest: wf_ds_child)

lemma fs_put_leaf:
  assumes "lookup root q = Some e0" and "e0 \<noteq> EDir"
  shows "fs_put q e (lookup root) = (lookup root)(q \<mapsto> e)"
proof
  fix r
  show "fs_put q e (lookup root) r = ((lookup root)(q \<mapsto> e)) r"
  proof (cases "strict_prefix q r")
    case True
    then obtain n s where "r = q @ n # s" by (auto elim: strict_prefixE')
    then show ?thesis using assms lookup_parent[of root q n s] by (force simp: fs_put_def)
  qed (auto simp: fs_put_def strict_prefix_def)
qed

section \<open>One directory\<close>

lemma resolve_link_refines:
  assumes "wf_ds root" and "resolve_link root h t = Inr f"
  obtains e where "lookup root (target_path t) = Some e" and "\<not> is_hard (Some e)"
    and "\<And>v. lookup (f v) = fs_put [h] (link_value t e) (lookup v)"
    and "\<And>v. wf_ds v \<Longrightarrow> wf_ds (f v)"
    and "\<And>v. subDirs (f v) = AList.delete h (subDirs v)"
    and "\<And>v. hardLinks (f v) = AList.delete h (hardLinks v)"
proof -
  from assms(2) obtain ds where ds: "get_child root (splitPath (dir_part t)) = Some ds"
    by (auto simp: resolve_link_def path_split_def getChildDirState_def split: option.splits)
  have wf: "wf_node ds" using wf_get_child[OF assms(1) ds] by blast
  have l: "lookup root (target_path t) = lookup ds [base_name t]"
    unfolding target_path_def by (rule lookup_get_child[OF ds])
  have wfs: "wf_ds v \<Longrightarrow> wf_ds (put_file h d x (ds_delete h v))"
    "wf_ds v \<Longrightarrow> wf_ds (put_symlink h s (ds_delete h v))" for v d x s
    by (auto intro: wf_put wf_ds_delete)
  have hl: "hardLinks (put_file h d x v) = hardLinks v" "hardLinks (put_symlink h s v) = hardLinks v"
    for v d x s by (simp_all add: put_file_def put_symlink_def)
  from assms(2) ds consider
      (fil) tf where "map_of (files ds) (base_name t) = Some tf"
        "f = (\<lambda>u. put_file h (file_digest tf) (isExecutable tf) (ds_delete h u))"
    | (dir) c where "map_of (files ds) (base_name t) = None" "map_of (subDirs ds) (base_name t) = Some c"
        "f = (\<lambda>u. put_symlink h t (ds_delete h u))"
    | (sym) s where "map_of (files ds) (base_name t) = None" "map_of (subDirs ds) (base_name t) = None"
        "map_of (symlinks ds) (base_name t) = Some s"
        "f = (\<lambda>u. put_symlink h (link_target s) (ds_delete h u))"
    by (auto simp: resolve_link_def path_split_def getChildDirState_def split: option.splits)
  then show thesis
  proof cases
    case fil
    then have "map_of (subDirs ds) (base_name t) = None" using wf_node_file[OF wf] by blast
    then show thesis
      using fil l by (intro that[of "EFile (file_digest tf) (isExecutable tf)"])
        (auto simp: leaf_entry_def lookup_put_deleted wfs hl)
  next
    case dir
    then show thesis
      using l by (intro that[of EDir]) (auto simp: lookup_put_deleted wfs hl)
  next
    case sym
    then show thesis
      using l by (intro that[of "ESymlink (link_target s)"])
        (auto simp: leaf_entry_def lookup_put_deleted wfs hl)
  qed
qed

text \<open>One link of the directory at \<open>p\<close> is one abstract step.\<close>

lemma resolve_link_step:
  assumes wf: "wf_ds root" and v: "get_child root p = Some v" and mem: "(h, t) \<in> set (hardLinks v)"
    and res: "resolve_link root h t = Inr f"
  obtains v' where "modify_at f p root = put_at p v' root" and "wf_ds (modify_at f p root)"
    and "link_step (lookup root) (lookup (modify_at f p root))"
    and "subDirs v' = subDirs v" and "hardLinks v' = AList.delete h (hardLinks v)"
proof -
  obtain e where e: "lookup root (target_path t) = Some e" "\<not> is_hard (Some e)"
    and lf: "\<And>v. lookup (f v) = fs_put [h] (link_value t e) (lookup v)"
    and wff: "\<And>v. wf_ds v \<Longrightarrow> wf_ds (f v)"
    and sub: "\<And>v. subDirs (f v) = AList.delete h (subDirs v)"
    and hl: "\<And>v. hardLinks (f v) = AList.delete h (hardLinks v)"
    using resolve_link_refines[OF wf res] by metis
  have wfv: "wf_node v" using wf_get_child[OF wf v] by blast
  note h = wf_node_hardlink[OF wfv mem]
  then have "lookup v [h] = Some (EHardlink t)"
    by (simp add: leaf_entry_def)
  then have hard: "lookup root (p @ [h]) = Some (EHardlink t)"
    using lookup_get_child[OF v] by simp
  have "lookup (modify_at f p root) = fs_put (p @ [h]) (link_value t e) (lookup root)"
  proof
    fix q
    have "lookup v = (\<lambda>r. lookup root (p @ r))" by (rule ext) (simp add: lookup_get_child[OF v])
    then show "lookup (modify_at f p root) q = fs_put (p @ [h]) (link_value t e) (lookup root) q"
      using lookup_modify_at[OF v, of f q] fs_put_at[of p q h "link_value t e" "lookup root"] lf
      by (simp split: if_splits)
  qed
  then have "link_step (lookup root) (lookup (modify_at f p root))"
    using fs_put_leaf[OF hard] link_step.link[OF hard e] by simp
  moreover have "AList.delete h (subDirs v) = subDirs v"
    using h(1) by (simp add: map_of_None_keys delete_idem)
  ultimately show thesis
    using that[of "f v"] modify_at_put_at[OF v] wf_modify_at[OF wff wf] sub hl by simp
qed

lemma resolve_links_refines:
  assumes "wf_ds root" and "get_child root p = Some v" and "set hl \<subseteq> set (hardLinks v)"
    and "distinct (keys hl)" and "resolve_links p hl root = Inr root'"
  shows "\<exists>v'. root' = put_at p v' root \<and> wf_ds root' \<and> resolves (lookup root) (lookup root')
    \<and> subDirs v' = subDirs v \<and> hardLinks v' = filter (\<lambda>(k, _). k \<notin> set (keys hl)) (hardLinks v)"
  using assms
proof (induction hl arbitrary: root v)
  case Nil
  then show ?case by (intro exI[of _ v]) (auto simp: put_at_same)
next
  case (Cons x hl)
  obtain h t where x: "x = (h, t)" by (cases x)
  with Cons.prems obtain f where f: "resolve_link root h t = Inr f"
    and rest: "resolve_links p hl (modify_at f p root) = Inr root'" by auto
  obtain v1 where m: "modify_at f p root = put_at p v1 root" and wf1: "wf_ds (modify_at f p root)"
    and st: "link_step (lookup root) (lookup (modify_at f p root))"
    and v1: "subDirs v1 = subDirs v" "hardLinks v1 = AList.delete h (hardLinks v)"
    using resolve_link_step[OF Cons.prems(1,2) _ f] Cons.prems(3) x by auto
  have g: "get_child (modify_at f p root) p = Some v1"
    using m get_child_put_at[OF Cons.prems(2)] by simp
  have sub: "set hl \<subseteq> set (hardLinks v1)"
    using Cons.prems(3,4) x v1(2) by (force simp: AList.delete_eq)
  obtain v' where v': "root' = put_at p v' (modify_at f p root)" "wf_ds root'"
      "resolves (lookup (modify_at f p root)) (lookup root')" "subDirs v' = subDirs v1"
      "hardLinks v' = filter (\<lambda>(k, _). k \<notin> set (keys hl)) (hardLinks v1)"
    using Cons.IH[OF wf1 g sub _ rest] Cons.prems(4) by auto
  have "root' = put_at p v' root" using v'(1) m by (simp add: put_at_twice)
  moreover have "resolves (lookup root) (lookup root')"
    using st v'(3) by (rule converse_rtranclp_into_rtranclp)
  moreover have "hardLinks v' = filter (\<lambda>(k, _). k \<notin> set (keys (x # hl))) (hardLinks v)"
    using v'(5) v1(2) x by (auto simp: AList.delete_eq intro!: filter_cong)
  ultimately show ?case using v' v1 by (intro exI[of _ v']) simp
qed

section \<open>The whole tree\<close>

fun no_hard :: "uploadDirState \<Rightarrow> bool" where
  "no_hard (UploadDirState sd fs sl hl) \<longleftrightarrow> hl = [] \<and> list_all (\<lambda>(n, ch). no_hard ch) sd"

lemma no_hardI:
  "hardLinks u = [] \<Longrightarrow> (\<And>n ch. (n, ch) \<in> set (subDirs u) \<Longrightarrow> no_hard ch) \<Longrightarrow> no_hard u"
  by (cases u) (auto simp: list_all_iff)

lemma no_hard_child: "no_hard u \<Longrightarrow> map_of (subDirs u) n = Some ch \<Longrightarrow> no_hard ch"
  by (cases u) (auto simp: list_all_iff dest: map_of_SomeD)

lemma no_hard_lookup: "no_hard u \<Longrightarrow> \<not> is_hard (lookup u q)"
proof (induction q arbitrary: u)
  case (Cons n q)
  have "hardLinks u = []" using Cons.prems by (cases u) auto
  then have "\<not> is_hard (leaf_entry u n)" by (auto simp: leaf_entry_def split: option.splits)
  then show ?case using Cons by (auto split: option.splits dest: no_hard_child)
qed simp

text \<open>The contract of the recursion over the subdirectories of the node \<open>v\<close> at \<open>p\<close>.\<close>

definition children_resolved ::
  "string list \<Rightarrow> uploadDirState \<Rightarrow> string set \<Rightarrow> uploadDirState \<Rightarrow> uploadDirState \<Rightarrow> bool"
where
  "children_resolved p v ns root root' \<longleftrightarrow> (\<exists>v'. root' = put_at p v' root \<and> wf_ds root'
     \<and> resolves (lookup root) (lookup root') \<and> hardLinks v' = hardLinks v
     \<and> keys (subDirs v') = keys (subDirs v)
     \<and> (\<forall>n \<in> ns. \<exists>c. map_of (subDirs v') n = Some c \<and> no_hard c)
     \<and> (\<forall>n. n \<notin> ns \<longrightarrow> map_of (subDirs v') n = map_of (subDirs v) n))"

lemma children_resolved_step:
  assumes v: "get_child root p = Some v" and n: "map_of (subDirs v) n \<noteq> None"
    and c: "no_hard c" and wf: "wf_ds (put_at (p @ [n]) c root)"
    and res: "resolves (lookup root) (lookup (put_at (p @ [n]) c root))"
    and rest: "children_resolved p (set_subDirs (AList.update n c (subDirs v)) v) ns
      (put_at (p @ [n]) c root) root'"
    and new: "n \<notin> ns"
  shows "children_resolved p v (insert n ns) root root'"
proof -
  let ?v1 = "set_subDirs (AList.update n c (subDirs v)) v"
  have eq: "put_at (p @ [n]) c root = put_at p ?v1 root" by (rule put_at_append[OF v n])
  from rest obtain v' where v': "root' = put_at p v' (put_at (p @ [n]) c root)" "wf_ds root'"
      "resolves (lookup (put_at (p @ [n]) c root)) (lookup root')" "hardLinks v' = hardLinks ?v1"
      "keys (subDirs v') = keys (subDirs ?v1)"
      "\<And>m. m \<in> ns \<Longrightarrow> \<exists>c. map_of (subDirs v') m = Some c \<and> no_hard c"
      "\<And>m. m \<notin> ns \<Longrightarrow> map_of (subDirs v') m = map_of (subDirs ?v1) m"
    unfolding children_resolved_def by blast
  have "n \<in> set (keys (subDirs v))" using n by (auto dest: map_of_Some_key)
  then have k: "keys (subDirs v') = keys (subDirs v)" using v'(5) by (simp add: update_keys)
  show ?thesis
    unfolding children_resolved_def
  proof (rule exI[of _ v'], intro conjI ballI allI impI)
    show "root' = put_at p v' root" using v'(1) by (simp add: eq put_at_twice)
    show "resolves (lookup root) (lookup root')" using res v'(3) by (rule rtranclp_trans)
    show "\<exists>ca. map_of (subDirs v') m = Some ca \<and> no_hard ca" if "m \<in> insert n ns" for m
      using that v'(6)[of m] v'(7)[of n] c new by auto
    show "map_of (subDirs v') m = map_of (subDirs v) m" if "m \<notin> insert n ns" for m
      using that v'(7)[of m] by simp
  qed (use v' k in simp_all)
qed

lemma resolve_refines:
  shows "get_child root p = Some u \<Longrightarrow> wf_ds root \<Longrightarrow> resolveHardlinks p u root = Inr root' \<Longrightarrow>
      \<exists>u'. root' = put_at p u' root \<and> no_hard u' \<and> wf_ds root' \<and> resolves (lookup root) (lookup root')"
    and "get_child root p = Some v \<Longrightarrow> wf_ds root \<Longrightarrow> (\<forall>(n, ch) \<in> set sd. map_of (subDirs v) n = Some ch) \<Longrightarrow>
      distinct (keys sd) \<Longrightarrow> set hs \<inter> fst ` set sd = {} \<Longrightarrow> resolve_children p hs sd root = Inr root' \<Longrightarrow>
      children_resolved p v (fst ` set sd) root root'"
proof (induction p u root and p hs sd root arbitrary: root' and v root'
    rule: resolveHardlinks_resolve_children.induct)
  case (1 p sd fs sl hl root)
  let ?u = "UploadDirState sd fs sl hl"
  from "1.prems"(3) obtain root1 root2 where r1: "resolve_links p hl root = Inr root1"
    and r2: "resolve_children p (keys hl) sd root1 = Inr root2"
    and r: "root' = modify_at (set_hardLinks []) p root2" by auto
  have wfu: "wf_node ?u" using wf_get_child[OF "1.prems"(2,1)] by blast
  have none: "filter (\<lambda>(k, _). k \<notin> set (keys hl)) hl = []" by (force simp: filter_empty_conv)
  obtain v1 where v1: "root1 = put_at p v1 root" "wf_ds root1" "resolves (lookup root) (lookup root1)"
      "subDirs v1 = sd" "hardLinks v1 = []"
    using resolve_links_refines[OF "1.prems"(2,1) _ _ r1] wfu none by (auto simp: wf_node_iff go_map_def)
  have g1: "get_child root1 p = Some v1" using v1(1) get_child_put_at[OF "1.prems"(1)] by simp
  have "children_resolved p v1 (fst ` set sd) root1 root2"
    using "1.IH"[OF g1 v1(2) _ _ _ r2] wfu v1(4)
    by (auto simp: wf_node_iff go_map_def Int_commute)
  then obtain v2 where v2: "root2 = put_at p v2 root1" "wf_ds root2"
      "resolves (lookup root1) (lookup root2)" "hardLinks v2 = []"
      "\<And>n. n \<in> fst ` set sd \<Longrightarrow> \<exists>c. map_of (subDirs v2) n = Some c \<and> no_hard c"
      "keys (subDirs v2) = keys sd"
    using v1(4,5) unfolding children_resolved_def by auto
  have g2: "get_child root2 p = Some v2" using v2(1) get_child_put_at[OF g1] by simp
  have "set_hardLinks [] v2 = v2" using v2(4) by (cases v2) simp
  then have root': "root' = root2" using r modify_at_put_at[OF g2, of "set_hardLinks []"] put_at_same[OF g2]
    by simp
  have "no_hard v2"
  proof (rule no_hardI[OF v2(4)])
    fix n ch assume mem: "(n, ch) \<in> set (subDirs v2)"
    have "n \<in> fst ` set sd" using mem v2(6) by (metis fst_conv imageI list.set_map)
    moreover have "map_of (subDirs v2) n = Some ch"
      using mem wf_get_child[OF v2(2) g2] by (auto simp: wf_node_iff go_map_lookup)
    ultimately show "no_hard ch" using v2(5)[of n] by auto
  qed
  moreover have "root' = put_at p v2 root" using root' v1(1) v2(1) by (simp add: put_at_twice)
  ultimately show ?case
    using root' v2(2) rtranclp_trans[OF v1(3) v2(3)] by blast
next
  case (2 p hs root)
  then show ?case by (auto simp: children_resolved_def put_at_same intro!: exI[of _ v])
next
  case (3 p hs n child sd root)
  have n: "n \<notin> set hs" "map_of (subDirs v) n = Some child" using "3.prems" by auto
  with "3.prems"(6) obtain root1 where r1: "resolveHardlinks (p @ [n]) child root = Inr root1"
    and rest: "resolve_children p hs sd root1 = Inr root'" by auto
  have g: "get_child root (p @ [n]) = Some child"
    using "3.prems"(1) n(2) by (simp add: get_child_append)
  obtain c where c: "root1 = put_at (p @ [n]) c root" "no_hard c" "wf_ds root1"
      "resolves (lookup root) (lookup root1)"
    using "3.IH"(2)[OF n(1) g "3.prems"(2) r1] by blast
  let ?v1 = "set_subDirs (AList.update n c (subDirs v)) v"
  have nn: "map_of (subDirs v) n \<noteq> None" using n(2) by simp
  have g1: "get_child root1 p = Some ?v1"
    using c(1) put_at_append[OF "3.prems"(1) nn] get_child_put_at[OF "3.prems"(1)] by simp
  have "children_resolved p ?v1 (fst ` set sd) root1 root'"
    using "3.IH"(3)[OF n(1) g1 c(3) _ _ _ rest] "3.prems"(3-5) by (force simp: image_iff)
  then show ?case
    using children_resolved_step[OF "3.prems"(1) nn c(2) _ _ _ _] c "3.prems"(4) by auto
qed

section \<open>When resolution succeeds\<close>

text \<open>Every hard link points to an entry that is not itself an unresolved hard link.\<close>

definition targets_ok :: "fs \<Rightarrow> bool" where
  "targets_ok fs \<longleftrightarrow> (\<forall>q t. fs q = Some (EHardlink t) \<longrightarrow>
     (\<exists>e. fs (target_path t) = Some e \<and> \<not> is_hard (Some e)))"

lemma targets_ok_step:
  assumes ok: "targets_ok fs" and step: "link_step fs fs'"
  shows "targets_ok fs'"
  unfolding targets_ok_def
proof (intro allI impI)
  fix q t assume "fs' q = Some (EHardlink t)"
  then have "fs q = Some (EHardlink t)"
    using step by (auto elim!: link_stepE split: if_splits) (metis is_hard_simps(5) link_value_not_hard)
  then obtain e where "fs (target_path t) = Some e" "\<not> is_hard (Some e)"
    using ok by (auto simp: targets_ok_def)
  then show "\<exists>e. fs' (target_path t) = Some e \<and> \<not> is_hard (Some e)"
    using link_step_other[OF step, of "target_path t"] by auto
qed

lemma targets_ok_resolves: "resolves fs fs' \<Longrightarrow> targets_ok fs \<Longrightarrow> targets_ok fs'"
  by (induction rule: rtranclp_induct) (auto intro: targets_ok_step)

lemma get_child_lookup_dir: "lookup u (p @ [n]) \<noteq> None \<Longrightarrow> \<exists>v. get_child u p = Some v"
  by (induction p arbitrary: u) (auto split: option.splits if_splits)

lemma resolve_link_succeeds:
  assumes "lookup root (target_path t) = Some e" and "\<not> is_hard (Some e)"
  shows "\<exists>f. resolve_link root h t = Inr f"
proof -
  obtain ds where ds: "get_child root (splitPath (dir_part t)) = Some ds"
    using assms(1) get_child_lookup_dir[of root] by (auto simp: target_path_def)
  then have "lookup ds [base_name t] = Some e"
    using assms(1) lookup_get_child[OF ds] by (simp add: target_path_def)
  then show ?thesis
    using ds assms(2)
    by (auto simp: resolve_link_def path_split_def getChildDirState_def leaf_entry_def
        split: option.splits)
qed

lemma resolve_links_succeeds:
  assumes "wf_ds root" and "get_child root p = Some v" and "set hl \<subseteq> set (hardLinks v)"
    and "distinct (keys hl)" and "targets_ok (lookup root)"
  shows "\<exists>root'. resolve_links p hl root = Inr root'"
  using assms
proof (induction hl arbitrary: root v)
  case (Cons x hl)
  obtain h t where x: "x = (h, t)" by (cases x)
  have mem: "(h, t) \<in> set (hardLinks v)" using Cons.prems(3) x by auto
  have "wf_node v" using wf_get_child[OF Cons.prems(1,2)] by blast
  then have "lookup v [h] = Some (EHardlink t)"
    using wf_node_hardlink[OF _ mem] by (simp add: leaf_entry_def)
  then have "lookup root (p @ [h]) = Some (EHardlink t)"
    using lookup_get_child[OF Cons.prems(2)] by simp
  then obtain f where f: "resolve_link root h t = Inr f"
    using Cons.prems(5) resolve_link_succeeds[of root t _ h] unfolding targets_ok_def by blast
  obtain v1 where m: "modify_at f p root = put_at p v1 root" "wf_ds (modify_at f p root)"
    "link_step (lookup root) (lookup (modify_at f p root))"
    "hardLinks v1 = AList.delete h (hardLinks v)"
    using resolve_link_step[OF Cons.prems(1,2) mem f] by metis
  have g: "get_child (modify_at f p root) p = Some v1"
    using m(1) get_child_put_at[OF Cons.prems(2)] by simp
  have "set hl \<subseteq> set (hardLinks v1)"
    using Cons.prems(3,4) x m(4) by (force simp: AList.delete_eq)
  then have "\<exists>root'. resolve_links p hl (modify_at f p root) = Inr root'"
    using Cons.IH[OF m(2) g] Cons.prems(4) targets_ok_step[OF Cons.prems(5) m(3)] by simp
  then show ?case using x f by auto
qed simp

lemma resolve_succeeds:
  shows "get_child root p = Some u \<Longrightarrow> wf_ds root \<Longrightarrow> targets_ok (lookup root) \<Longrightarrow>
      \<exists>root'. resolveHardlinks p u root = Inr root'"
    and "get_child root p = Some v \<Longrightarrow> wf_ds root \<Longrightarrow> (\<forall>(n, ch) \<in> set sd. map_of (subDirs v) n = Some ch) \<Longrightarrow>
      distinct (keys sd) \<Longrightarrow> set hs \<inter> fst ` set sd = {} \<Longrightarrow> targets_ok (lookup root) \<Longrightarrow>
      \<exists>root'. resolve_children p hs sd root = Inr root'"
proof (induction p u root and p hs sd root arbitrary: and v
    rule: resolveHardlinks_resolve_children.induct)
  case (1 p sd fs sl hl root)
  let ?u = "UploadDirState sd fs sl hl"
  have wfu: "wf_node ?u" using wf_get_child[OF "1.prems"(2,1)] by blast
  obtain root1 where r1: "resolve_links p hl root = Inr root1"
    using resolve_links_succeeds[OF "1.prems"(2,1) _ _ "1.prems"(3), of hl] wfu
    by (auto simp: wf_node_iff go_map_def)
  obtain v1 where v1: "root1 = put_at p v1 root" "wf_ds root1" "resolves (lookup root) (lookup root1)"
      "subDirs v1 = sd"
    using resolve_links_refines[OF "1.prems"(2,1) _ _ r1] wfu by (auto simp: wf_node_iff go_map_def)
  have g1: "get_child root1 p = Some v1" using v1(1) get_child_put_at[OF "1.prems"(1)] by simp
  have "\<exists>root2. resolve_children p (keys hl) sd root1 = Inr root2"
    using "1.IH"[OF g1 v1(2)] wfu v1(4) targets_ok_resolves[OF v1(3) "1.prems"(3)]
    by (auto simp: wf_node_iff go_map_def Int_commute)
  then show ?case using r1 by auto
next
  case (3 p hs n child sd root)
  have n: "n \<notin> set hs" "map_of (subDirs v) n = Some child" using "3.prems" by auto
  have g: "get_child root (p @ [n]) = Some child"
    using "3.prems"(1) n(2) by (simp add: get_child_append)
  obtain root1 where r1: "resolveHardlinks (p @ [n]) child root = Inr root1"
    using "3.IH"(2)[OF n(1) g "3.prems"(2,6)] by blast
  obtain c where c: "root1 = put_at (p @ [n]) c root" "wf_ds root1"
      "resolves (lookup root) (lookup root1)"
    using resolve_refines(1)[OF g "3.prems"(2) r1] by blast
  let ?v1 = "set_subDirs (AList.update n c (subDirs v)) v"
  have nn: "map_of (subDirs v) n \<noteq> None" using n(2) by simp
  have g1: "get_child root1 p = Some ?v1"
    using c(1) put_at_append[OF "3.prems"(1) nn] get_child_put_at[OF "3.prems"(1)] by simp
  have "\<exists>root2. resolve_children p hs sd root1 = Inr root2"
    using "3.IH"(3)[OF n(1) g1 c(2)] "3.prems"(3-5) targets_ok_resolves[OF c(3) "3.prems"(6)]
    by (force simp: image_iff)
  then show ?case using n(1) r1 by simp
qed simp

end
