(* ===== verification/Layer_Extractor.thy ===== *)
theory Layer_Extractor
  imports Rev2
begin

text \<open>
  \<open>src/pkg/docker/layer_extractor.go\<close>: the interface \<open>LayerContentsVisitor\<close> and the loop
  that feeds it the entries of a layer's tarball. The interface is the record \<open>visitor\<close> over
  the state \<open>'s\<close> of the visitor and of whatever it writes to; the contract a visitor has with
  the loop is the locale \<open>layer_visitor\<close>.
\<close>

section \<open>Definitions\<close>

text \<open>An \<open>io.Reader\<close>: the bytes it delivers and the error it then ends with, if any.\<close>

type_synonym reader = "string \<times> go_error option"

record 's visitor =
  onDirectorySeen :: "string \<Rightarrow> ('s, unit) io"
  onFileSeen :: "string \<Rightarrow> reader \<Rightarrow> int \<Rightarrow> ('s, unit) io"
  onLinkSeen :: "string \<Rightarrow> string \<Rightarrow> ('s, unit) io"
  onSymlinkSeen :: "string \<Rightarrow> string \<Rightarrow> ('s, unit) io"
  onLayerComplete :: "('s, unit) io"

datatype typeflag = TypeDir | TypeReg | TypeSymlink | TypeLink | TypeOther

record tar_header =
  hdr_typeflag :: typeflag
  hdr_name :: string
  hdr_linkname :: string
  hdr_mode :: int

text \<open>
  What successive calls of \<open>tr.Next()\<close> return: a header (with the data the reader then
  delivers) or an error; the end of the list is \<open>io.EOF\<close>.
\<close>

datatype tar_next = TarEntry tar_header reader | TarError go_error

definition visit_entry :: "'s visitor \<Rightarrow> tar_header \<Rightarrow> reader \<Rightarrow> ('s, unit) io" where
  "visit_entry lcv header tr =
     (case hdr_typeflag header of
        TypeDir \<Rightarrow> onDirectorySeen lcv (hdr_name header)
      | TypeReg \<Rightarrow> onFileSeen lcv (hdr_name header) tr (hdr_mode header)
      | TypeSymlink \<Rightarrow> onSymlinkSeen lcv (hdr_name header) (hdr_linkname header)
      | TypeLink \<Rightarrow> onLinkSeen lcv (hdr_name header) (hdr_linkname header)
      | TypeOther \<Rightarrow> io_pure (Inr ()))"

text \<open>\<open>ctxErr i\<close> is what \<open>ctx.Err()\<close> returns when entry number \<open>i\<close> has been read.\<close>

fun processTar :: "(nat \<Rightarrow> go_error option) \<Rightarrow> 's visitor \<Rightarrow> nat \<Rightarrow> tar_next list \<Rightarrow> ('s, unit) io" where
  "processTar ctxErr lcv i [] = io_pure (Inr ())"
| "processTar ctxErr lcv i (TarError e # rest) =
     io_pure (Inl (Wrap ''Failed to read tar header'' [] e))"
| "processTar ctxErr lcv i (TarEntry header tr # rest) =
     (case ctxErr i of
        Some e \<Rightarrow> io_pure (Inl e)
      | None \<Rightarrow> io_bind (visit_entry lcv header tr) (\<lambda>_. processTar ctxErr lcv (Suc i) rest))"

text \<open>\<open>layer.Uncompressed()\<close> gives an error or the tarball.\<close>

definition ExtractAndVisitLayerContents ::
  "(nat \<Rightarrow> go_error option) \<Rightarrow> tar_next list res \<Rightarrow> 's visitor \<Rightarrow> ('s, unit) io"
where
  "ExtractAndVisitLayerContents ctxErr layer lcv =
     (case layer of
        Inl e \<Rightarrow> io_pure (Inl (Wrap ''Failed to uncompress layer'' [] e))
      | Inr uncompressed \<Rightarrow>
          io_bind (io_wrap (Wrap ''Failed to process layer'' []) (processTar ctxErr lcv 0 uncompressed))
            (\<lambda>_. onLayerComplete lcv))"

section \<open>The contract of a visitor\<close>

locale layer_visitor =
  fixes lcv :: "'s visitor" and inv :: "'s \<Rightarrow> bool"
  assumes directory_keeps: "io_keeps inv (onDirectorySeen lcv path)"
    and file_keeps: "io_keeps inv (onFileSeen lcv path data mode)"
    and link_keeps: "io_keeps inv (onLinkSeen lcv path target)"
    and symlink_keeps: "io_keeps inv (onSymlinkSeen lcv path target)"
    and layer_keeps: "io_keeps inv (onLayerComplete lcv)"
begin

lemma visit_entry_keeps: "io_keeps inv (visit_entry lcv header tr)"
  by (simp add: visit_entry_def directory_keeps file_keeps link_keeps symlink_keeps
      split: typeflag.split)

lemma processTar_keeps: "io_keeps inv (processTar ctxErr lcv i es)"
proof (induction es arbitrary: i)
  case (Cons e es)
  then show ?case by (cases e) (auto simp: visit_entry_keeps split: option.split)
qed simp

lemma extract_keeps: "io_keeps inv (ExtractAndVisitLayerContents ctxErr layer lcv)"
  by (auto simp: ExtractAndVisitLayerContents_def processTar_keeps layer_keeps split: sum.split)

end

section \<open>Runs of the loop\<close>

text \<open>
  A successful run visited every entry: the state after it is the state after visiting the
  entries one after the other.
\<close>

fun visit_all :: "'s visitor \<Rightarrow> (tar_header \<times> reader) list \<Rightarrow> ('s, unit) io" where
  "visit_all lcv [] = io_pure (Inr ())"
| "visit_all lcv ((h, tr) # es) = io_bind (visit_entry lcv h tr) (\<lambda>_. visit_all lcv es)"

lemma processTar_visits_all:
  assumes "processTar ctxErr lcv i nexts s = (Inr (), s')"
  shows "\<exists>es. nexts = map (\<lambda>(h, tr). TarEntry h tr) es \<and> visit_all lcv es s = (Inr (), s')"
  using assms
proof (induction nexts arbitrary: i s)
  case (Cons n nexts)
  then obtain h tr where n: "n = TarEntry h tr" by (cases n) auto
  with Cons.prems obtain s1 where v: "visit_entry lcv h tr s = (Inr (), s1)"
    and p: "processTar ctxErr lcv (Suc i) nexts s1 = (Inr (), s')"
    by (auto elim!: io_bind_InrE split: option.splits)
  from Cons.IH[OF p] obtain es where "nexts = map (\<lambda>(h, tr). TarEntry h tr) es"
    and "visit_all lcv es s1 = (Inr (), s')" by blast
  then show ?case
    using n v by (intro exI[of _ "(h, tr) # es"]) (simp add: io_bind_simps)
qed (auto intro: exI[of _ "[]"])

end
