(* ===== verification/Cas_Extractor.thy ===== *)
theory Cas_Extractor
  imports Hardlinks Layer_Extractor
begin

text \<open>
  \<open>CASUploadingLayerExtractor\<close> of \<open>src/pkg/blobstore/cas_uploading_layer_extractor.go\<close>: the
  visitor that collects a layer into an \<open>uploadDirState\<close> and uploads its files. Its state is
  the root of the tree and the outside world \<open>'w\<close> (temporary files, the blob uploader), whose
  operations are the fields of \<open>upload_env\<close>. The theorems relate each callback, and a whole
  layer, to the abstract file system.
\<close>

unbundle bit_operations_syntax

section \<open>Definitions\<close>

text \<open>The temporary file that is handed to the uploader.\<close>

record tmpFileCloser =
  tmp_name :: string
  tmp_data :: string
  tmp_sizeBytes :: int

definition tmp_Len :: "tmpFileCloser \<Rightarrow> int" where
  "tmp_Len c = tmp_sizeBytes c"

text \<open>
  Closing the temporary file closes the descriptor and removes the file, also when closing it
  failed; the first error is reported. \<open>closeFile\<close> and \<open>removeFile\<close> are the calls of package \<open>os\<close>.
\<close>

definition tmp_Close :: "(string \<Rightarrow> ('w, unit) io) \<Rightarrow> (string \<Rightarrow> ('w, unit) io) \<Rightarrow> tmpFileCloser \<Rightarrow> ('w, unit) io" where
  "tmp_Close closeFile removeFile c w =
     (case closeFile (tmp_name c) w of
        (e1, w1) \<Rightarrow>
          (case removeFile (tmp_name c) w1 of
             (e2, w2) \<Rightarrow> (case e1 of Inl e \<Rightarrow> Inl e | Inr _ \<Rightarrow> e2, w2)))"

datatype regionType = Data | Hole

text \<open>\<open>None\<close> is \<open>io.EOF\<close>.\<close>

definition GetNextRegionOffset :: "tmpFileCloser \<Rightarrow> int \<Rightarrow> regionType \<Rightarrow> int option" where
  "GetNextRegionOffset c offset rt =
     (if offset \<ge> tmp_sizeBytes c then None
      else (case rt of Data \<Rightarrow> Some offset | Hole \<Rightarrow> Some (tmp_sizeBytes c)))"

text \<open>
  What the extractor calls outside the repository: the temporary files of package \<open>os\<close> and the
  blob uploader of bb-remote-execution.
\<close>

record 'w upload_env =
  createTemp :: "('w, string) io"
  writeTemp :: "string \<Rightarrow> string \<Rightarrow> ('w, unit) io"
  removeTemp :: "string \<Rightarrow> ('w, unit) io"
  uploadBlob :: "tmpFileCloser \<Rightarrow> ('w, digest) io"

text \<open>\<open>io.Copy(f, data)\<close>: a write error, or the reader's error, or the number of bytes.\<close>

definition copy_to_temp :: "'w upload_env \<Rightarrow> string \<Rightarrow> reader \<Rightarrow> ('w, int) io" where
  "copy_to_temp env f data =
     io_bind (writeTemp env f (fst data))
       (\<lambda>_. io_pure (case snd data of Some e \<Rightarrow> Inl e | None \<Rightarrow> Inr (int (length (fst data)))))"

definition clear_node :: "uploadDirState \<Rightarrow> uploadDirState" where
  "clear_node dirNode = UploadDirState [] [] [] []"

text \<open>\<open>0o111\<close>, the executable bits, is 73.\<close>

definition OnDirectorySeen :: "string \<Rightarrow> (uploadDirState \<times> 'w, unit) io" where
  "OnDirectorySeen path = (\<lambda>(root, w). (Inr (), (getOrCreateChildDirState path root, w)))"

definition OnFileSeen ::
  "'w upload_env \<Rightarrow> string \<Rightarrow> reader \<Rightarrow> int \<Rightarrow> (uploadDirState \<times> 'w, unit) io"
where
  "OnFileSeen env path data mode = (\<lambda>(root, w).
     let (dirname, filename) = path_split path;
         dirNode = splitPath dirname;
         root1 = getOrCreateChildDirState dirname root
     in if has_prefix filename ''.wh.'' then
          (if filename = ''.wh..wh..opq'' then (Inr (), (modify_at clear_node dirNode root1, w))
           else let targetName = trim_prefix filename ''.wh.''
                in (Inr (), (modify_at (ds_delete targetName) dirNode root1, w)))
        else
          let root2 = modify_at (ds_delete filename) dirNode root1
          in case createTemp env w of
               (Inl e, w1) \<Rightarrow> (Inl (Wrap ''Failed to create temp file'' [] e), (root2, w1))
             | (Inr f, w1) \<Rightarrow>
                 (case copy_to_temp env f data w1 of
                    (Inl e, w2) \<Rightarrow>
                      (Inl (Wrap ''Failed to write temporary file'' [] e), (root2, snd (removeTemp env f w2)))
                  | (Inr sizeBytes, w2) \<Rightarrow>
                      (case uploadBlob env \<lparr>tmp_name = f, tmp_data = fst data, tmp_sizeBytes = sizeBytes\<rparr> w2 of
                         (Inl e, w3) \<Rightarrow> (Inl (Wrap ''Failed to upload file'' [] e), (root2, w3))
                       | (Inr blobDigest, w3) \<Rightarrow>
                           (Inr (), (modify_at (put_file filename blobDigest (mode AND 73 \<noteq> 0))
                                       dirNode root2, w3)))))"

definition OnLinkSeen :: "string \<Rightarrow> string \<Rightarrow> (uploadDirState \<times> 'w, unit) io" where
  "OnLinkSeen path target = (\<lambda>(root, w).
     let (dirname, linkname) = path_split path;
         dirNode = splitPath dirname;
         root1 = getOrCreateChildDirState dirname root
     in (Inr (), (modify_at (put_hardlink linkname target)
                    dirNode (modify_at (ds_delete linkname) dirNode root1), w)))"

definition addSymlink :: "string \<Rightarrow> string \<Rightarrow> (uploadDirState \<times> 'w, unit) io" where
  "addSymlink path target = (\<lambda>(root, w).
     let (dirname, linkname) = path_split path;
         dirNode = splitPath dirname;
         root1 = getOrCreateChildDirState dirname root
     in (Inr (), (modify_at (put_symlink linkname target)
                    dirNode (modify_at (ds_delete linkname) dirNode root1), w)))"

definition OnSymlinkSeen :: "string \<Rightarrow> string \<Rightarrow> (uploadDirState \<times> 'w, unit) io" where
  "OnSymlinkSeen path target = addSymlink path target"

definition OnLayerComplete :: "(uploadDirState \<times> 'w, unit) io" where
  "OnLayerComplete = (\<lambda>(root, w).
     case resolveHardlinks [] root root of
       Inl e \<Rightarrow> (Inl e, (root, w))
     | Inr root' \<Rightarrow> (Inr (), (root', w)))"

definition CASUploadingLayerExtractor :: "'w upload_env \<Rightarrow> (uploadDirState \<times> 'w) visitor" where
  "CASUploadingLayerExtractor env =
     \<lparr>onDirectorySeen = OnDirectorySeen, onFileSeen = OnFileSeen env, onLinkSeen = OnLinkSeen,
      onSymlinkSeen = OnSymlinkSeen, onLayerComplete = OnLayerComplete\<rparr>"

section \<open>The invariant\<close>

definition wf_state :: "uploadDirState \<times> 'w \<Rightarrow> bool" where
  "wf_state s \<longleftrightarrow> wf_ds (fst s)"

lemma wf_getOrCreate [simp]: "wf_ds root \<Longrightarrow> wf_ds (getOrCreateChildDirState path root)"
  by (simp add: getOrCreateChildDirState_def wf_get_or_create)

lemma modify_at_twice:
  "modify_at f cs (modify_at g cs root) = modify_at (\<lambda>v. f (g v)) cs root"
  by (induction cs arbitrary: root) (auto simp: update_last split: option.splits)

text \<open>Deleting a name and then storing an entry under it keeps the invariant.\<close>

lemma wf_modify_put:
  assumes "wf_ds root"
  shows "wf_ds (modify_at (put_file n d x) cs (modify_at (ds_delete n) cs root))"
    and "wf_ds (modify_at (put_symlink n t) cs (modify_at (ds_delete n) cs root))"
    and "wf_ds (modify_at (put_hardlink n t) cs (modify_at (ds_delete n) cs root))"
  using assms by (simp_all add: modify_at_twice wf_modify_at wf_put wf_ds_delete)

lemma wf_modify_delete: "wf_ds root \<Longrightarrow> wf_ds (modify_at (ds_delete n) cs root)"
  by (simp add: wf_modify_at wf_ds_delete)

lemma wf_modify_clear: "wf_ds root \<Longrightarrow> wf_ds (modify_at clear_node cs root)"
  using wf_new by (simp add: wf_modify_at clear_node_def newUploadDirState_def)

interpretation cas_visitor: layer_visitor "CASUploadingLayerExtractor env" wf_state for env
proof unfold_locales
  fix path target :: string and data :: reader and mode :: int
  show "io_keeps wf_state (onDirectorySeen (CASUploadingLayerExtractor env) path)"
    by (rule io_keepsI)
      (auto simp: CASUploadingLayerExtractor_def OnDirectorySeen_def wf_state_def)
  show "io_keeps wf_state (onFileSeen (CASUploadingLayerExtractor env) path data mode)"
    by (rule io_keepsI)
      (auto simp: CASUploadingLayerExtractor_def OnFileSeen_def wf_state_def Let_def
        wf_modify_put wf_modify_delete wf_modify_clear split: prod.splits sum.splits)
  show "io_keeps wf_state (onLinkSeen (CASUploadingLayerExtractor env) path target)"
    by (rule io_keepsI)
      (auto simp: CASUploadingLayerExtractor_def OnLinkSeen_def wf_state_def Let_def wf_modify_put
        split: prod.splits)
  show "io_keeps wf_state (onSymlinkSeen (CASUploadingLayerExtractor env) path target)"
    by (rule io_keepsI)
      (auto simp: CASUploadingLayerExtractor_def OnSymlinkSeen_def addSymlink_def wf_state_def
        Let_def wf_modify_put split: prod.splits)
  show "io_keeps wf_state (onLayerComplete (CASUploadingLayerExtractor env))"
  proof (rule io_keepsI)
    fix s :: "uploadDirState \<times> 'a"
    assume "wf_state s"
    then show "wf_state (snd (onLayerComplete (CASUploadingLayerExtractor env) s))"
      using resolve_refines(1)[of "fst s" "[]" "fst s"]
      by (cases s)
        (auto simp: CASUploadingLayerExtractor_def OnLayerComplete_def wf_state_def split: sum.splits)
  qed
qed

section \<open>Refinement: a layer as a change of the file system\<close>

text \<open>
  The abstract effect of one tar entry. \<open>dig\<close> is the digest of file contents. Whiteouts of
  regular files follow the OCI image specification's file names.
\<close>

definition fs_file_seen :: "string \<Rightarrow> digest \<Rightarrow> bool \<Rightarrow> fs \<Rightarrow> fs" where
  "fs_file_seen path d x fs =
     (let cs = splitPath (dir_part path); n = base_name path; fs1 = fs_mkdirs cs fs
      in if n = ''.wh..wh..opq'' then fs_clear cs fs1
         else if has_prefix n ''.wh.'' then fs_remove (cs @ [trim_prefix n ''.wh.'']) fs1
         else fs_put (cs @ [n]) (EFile d x) fs1)"

definition fs_leaf_seen :: "string \<Rightarrow> entry \<Rightarrow> fs \<Rightarrow> fs" where
  "fs_leaf_seen path e fs =
     (let cs = splitPath (dir_part path) in fs_put (cs @ [base_name path]) e (fs_mkdirs cs fs))"

definition fs_entry :: "(string \<Rightarrow> digest) \<Rightarrow> tar_header \<Rightarrow> reader \<Rightarrow> fs \<Rightarrow> fs" where
  "fs_entry dig h tr =
     (case hdr_typeflag h of
        TypeDir \<Rightarrow> fs_mkdirs (splitPath (hdr_name h))
      | TypeReg \<Rightarrow> fs_file_seen (hdr_name h) (dig (fst tr)) (hdr_mode h AND 73 \<noteq> 0)
      | TypeSymlink \<Rightarrow> fs_leaf_seen (hdr_name h) (ESymlink (hdr_linkname h))
      | TypeLink \<Rightarrow> fs_leaf_seen (hdr_name h) (EHardlink (hdr_linkname h))
      | TypeOther \<Rightarrow> id)"

definition fs_layer :: "(string \<Rightarrow> digest) \<Rightarrow> (tar_header \<times> reader) list \<Rightarrow> fs \<Rightarrow> fs" where
  "fs_layer dig es = fold (\<lambda>(h, tr). fs_entry dig h tr) es"

text \<open>The uploader reports the digest of the bytes it was given.\<close>

definition uploads_digest :: "'w upload_env \<Rightarrow> (string \<Rightarrow> digest) \<Rightarrow> bool" where
  "uploads_digest env dig \<longleftrightarrow>
     (\<forall>tf w d w'. uploadBlob env tf w = (Inr d, w') \<longrightarrow> d = dig (tmp_data tf))"

lemma lookup_put_seen:
  "lookup (modify_at (put_file n d x) cs (modify_at (ds_delete n) cs (get_or_create cs root))) =
     fs_put (cs @ [n]) (EFile d x) (fs_mkdirs cs (lookup root))"
  "lookup (modify_at (put_symlink n t) cs (modify_at (ds_delete n) cs (get_or_create cs root))) =
     fs_put (cs @ [n]) (ESymlink t) (fs_mkdirs cs (lookup root))"
  "lookup (modify_at (put_hardlink n t) cs (modify_at (ds_delete n) cs (get_or_create cs root))) =
     fs_put (cs @ [n]) (EHardlink t) (fs_mkdirs cs (lookup root))"
  unfolding modify_at_twice
  using lookup_modify_created[where f = "\<lambda>v. put_file n d x (ds_delete n v)", OF lookup_put_deleted(1)]
    lookup_modify_created[where f = "\<lambda>v. put_symlink n t (ds_delete n v)", OF lookup_put_deleted(2)]
    lookup_modify_created[where f = "\<lambda>v. put_hardlink n t (ds_delete n v)", OF lookup_put_deleted(3)]
  by (simp_all add: fun_eq_iff fs_put_at)

lemma lookup_delete_seen:
  "lookup (modify_at (ds_delete n) cs (get_or_create cs root)) =
     fs_remove (cs @ [n]) (fs_mkdirs cs (lookup root))"
  using lookup_modify_created[where f = "ds_delete n", OF lookup_delete]
  by (simp add: fun_eq_iff fs_remove_at)

lemma lookup_clear: "lookup (clear_node v) = fs_clear [] (lookup v)"
proof
  fix q show "lookup (clear_node v) q = fs_clear [] (lookup v) q"
    by (cases q) (auto simp: clear_node_def fs_clear_def leaf_entry_def)
qed

lemma lookup_clear_seen:
  "lookup (modify_at clear_node cs (get_or_create cs root)) = fs_clear cs (fs_mkdirs cs (lookup root))"
  using lookup_modify_created[where f = clear_node, OF lookup_clear]
  by (simp add: fun_eq_iff fs_clear_at)

lemmas lookup_seen = lookup_put_seen lookup_delete_seen lookup_clear_seen

lemma OnFileSeen_refines:
  assumes "uploads_digest env dig" and "OnFileSeen env path tr mode (root, w) = (Inr (), (root', w'))"
  shows "lookup root' = fs_file_seen path (dig (fst tr)) (mode AND 73 \<noteq> 0) (lookup root)"
  using assms(2) assms(1)[unfolded uploads_digest_def, rule_format]
  by (fastforce simp: OnFileSeen_def fs_file_seen_def Let_def path_split_def lookup_seen
      getOrCreateChildDirState_def has_prefix_def split: if_splits prod.splits sum.splits)

lemma visit_entry_refines:
  assumes dig: "uploads_digest env dig"
    and run: "visit_entry (CASUploadingLayerExtractor env) h tr (root, w) = (Inr (), (root', w'))"
  shows "lookup root' = fs_entry dig h tr (lookup root)"
proof (cases "hdr_typeflag h")
  case TypeReg
  then show ?thesis
    using run OnFileSeen_refines[OF dig, of "hdr_name h" tr "hdr_mode h" root w root' w']
    by (simp add: visit_entry_def fs_entry_def CASUploadingLayerExtractor_def)
qed (use run in \<open>auto simp: visit_entry_def fs_entry_def CASUploadingLayerExtractor_def Let_def
    OnDirectorySeen_def OnLinkSeen_def OnSymlinkSeen_def addSymlink_def fs_leaf_seen_def
    path_split_def getOrCreateChildDirState_def lookup_get_or_create lookup_seen\<close>)

lemma visit_all_refines:
  assumes dig: "uploads_digest env dig"
  shows "visit_all (CASUploadingLayerExtractor env) es (root, w) = (Inr (), (root', w')) \<Longrightarrow>
    lookup root' = fs_layer dig es (lookup root)"
proof (induction es arbitrary: root w)
  case (Cons e es)
  obtain h tr where e: "e = (h, tr)" by (cases e)
  with Cons.prems obtain root1 w1 where
    v: "visit_entry (CASUploadingLayerExtractor env) h tr (root, w) = (Inr (), (root1, w1))"
    and rest: "visit_all (CASUploadingLayerExtractor env) es (root1, w1) = (Inr (), (root', w'))"
    by (auto elim!: io_bind_InrE)
  show ?case
    using Cons.IH[OF rest] visit_entry_refines[OF dig v] e by (simp add: fs_layer_def)
qed (simp add: fs_layer_def)

text \<open>
  The effect of a whole layer: what the entries do one after the other, with every hard link
  replaced by the value of the entry its target denotes.
\<close>

definition layer_effect :: "(string \<Rightarrow> digest) \<Rightarrow> (tar_header \<times> reader) list \<Rightarrow> fs \<Rightarrow> fs \<Rightarrow> bool" where
  "layer_effect dig es before after \<longleftrightarrow>
     (\<forall>q. \<not> is_hard (after q))
   \<and> (\<forall>q. \<not> is_hard (fs_layer dig es before q) \<longrightarrow> after q = fs_layer dig es before q)
   \<and> (\<forall>q t. fs_layer dig es before q = Some (EHardlink t) \<longrightarrow>
        (\<exists>e. after (target_path t) = Some e \<and> after q = Some (link_value t e)))"

lemma visited_layer:
  assumes "uploads_digest env dig" and "wf_ds root"
    and run: "visit_all (CASUploadingLayerExtractor env) es (root, w) = (Inr (), (root1, w1))"
    and wf1: "wf_ds root1" and fin: "OnLayerComplete (root1, w1) = (Inr (), (root', w'))"
  shows "wf_ds root' \<and> no_hard root' \<and> w' = w1 \<and> layer_effect dig es (lookup root) (lookup root')"
proof -
  have fs: "lookup root1 = fs_layer dig es (lookup root)"
    by (rule visit_all_refines[OF assms(1) run])
  have res: "resolveHardlinks [] root1 root1 = Inr root'" and w: "w' = w1"
    using fin by (auto simp: OnLayerComplete_def split: sum.splits)
  have r: "no_hard root'" "wf_ds root'" "resolves (lookup root1) (lookup root')"
    using resolve_refines(1)[OF _ wf1 res] by auto
  have nh: "\<not> is_hard (lookup root' q)" for q by (rule no_hard_lookup[OF r(1)])
  have "resolved_from (lookup root1) (lookup root')" by (rule resolves_resolved_from[OF r(3)])
  then have "lookup root' q = Some (link_value t e)" if "lookup root1 q = Some (EHardlink t)"
    and "lookup root' (target_path t) = Some e" for q t e
    using that nh[of q] unfolding resolved_from_def by (metis is_hard_simps(5) option.inject)
  then have "layer_effect dig es (lookup root) (lookup root')"
    using nh resolves_resolved_from[OF r(3)] fs unfolding layer_effect_def resolved_from_def
    by (metis is_hard_simps(5))
  then show ?thesis using r w by blast
qed

section \<open>Properties\<close>

text \<open>
  A concrete environment and layer for the witnesses: the uploader always succeeds and the
  digest of a file is its contents.
\<close>

definition demo_digest :: "string \<Rightarrow> digest" where
  "demo_digest s = \<lparr>hash = s, size_bytes = int (length s)\<rparr>"

definition demo_env :: "unit upload_env" where
  "demo_env = \<lparr>createTemp = Pair (Inr ''/tmp/casUpload1''), writeTemp = (\<lambda>_ _. Pair (Inr ())),
     removeTemp = (\<lambda>_. Pair (Inr ())), uploadBlob = (\<lambda>tf. Pair (Inr (demo_digest (tmp_data tf))))\<rparr>"

definition demo_entry :: "typeflag \<Rightarrow> string \<Rightarrow> string \<Rightarrow> string \<Rightarrow> tar_next" where
  "demo_entry ty n l d = TarEntry
     \<lparr>hdr_typeflag = ty, hdr_name = n, hdr_linkname = l, hdr_mode = 493\<rparr> (d, None)"

definition demo_layer :: "tar_next list res" where
  "demo_layer = Inr [demo_entry TypeDir ''bin/'' '''' '''', demo_entry TypeReg ''bin/sh'' '''' ''x'',
     demo_entry TypeLink ''bin/ash'' ''bin/sh'' '''']"

abbreviation demo_run :: "unit res \<times> uploadDirState \<times> unit" where
  "demo_run \<equiv> ExtractAndVisitLayerContents (\<lambda>_. None) demo_layer
     (CASUploadingLayerExtractor demo_env) (newUploadDirState, ())"

lemma demo_uploads: "uploads_digest demo_env demo_digest"
  by (simp add: uploads_digest_def demo_env_def)

lemma demo_run_result: "demo_run = (Inr (), (fst (snd demo_run), ()))"
proof -
  have "fst demo_run = Inr ()" by code_simp
  then show ?thesis by (metis prod.collapse old.unit.exhaust)
qed

text \<open>
  C1: Processing a layer implements the abstract change of the file system. If extraction of a
  layer succeeds on a well-formed tree, the layer's tarball was read to its end without error,
  the tree is well-formed again, it holds no unresolved hard link, every entry that is not a
  hard link is exactly what applying the tar entries one after the other (with directory
  creation, replacement and whiteouts) to the old file system gives, and every hard link has
  become the value of the entry its target denotes in the resulting tree.
\<close>

theorem extract_layer_refines:
  assumes "uploads_digest env dig" and "wf_ds root"
    and "ExtractAndVisitLayerContents ctxErr layer (CASUploadingLayerExtractor env) (root, w)
      = (Inr (), (root', w'))"
  shows "\<exists>es. layer = Inr (map (\<lambda>(h, tr). TarEntry h tr) es) \<and> wf_ds root'
    \<and> (\<forall>q. \<not> is_hard (lookup root' q))
    \<and> (\<forall>q. \<not> is_hard (fs_layer dig es (lookup root) q) \<longrightarrow>
         lookup root' q = fs_layer dig es (lookup root) q)
    \<and> (\<forall>q t. fs_layer dig es (lookup root) q = Some (EHardlink t) \<longrightarrow>
         (\<exists>e. lookup root' (target_path t) = Some e \<and> lookup root' q = Some (link_value t e)))"
proof -
  let ?v = "CASUploadingLayerExtractor env"
  from assms(3) obtain nexts root1 w1 where layer: "layer = Inr nexts"
    and tar: "processTar ctxErr ?v 0 nexts (root, w) = (Inr (), (root1, w1))"
    and fin: "onLayerComplete ?v (root1, w1) = (Inr (), (root', w'))"
    by (auto simp: ExtractAndVisitLayerContents_def elim!: io_bind_InrE split: sum.splits)
  obtain es where es: "nexts = map (\<lambda>(h, tr). TarEntry h tr) es"
    and run: "visit_all ?v es (root, w) = (Inr (), (root1, w1))"
    using processTar_visits_all[OF tar] by blast
  have "wf_state (snd (processTar ctxErr ?v 0 nexts (root, w)))"
    using io_keepsD[OF cas_visitor.processTar_keeps[of ctxErr env 0 nexts], of "(root, w)"] assms(2)
    by (simp add: wf_state_def)
  then have wf1: "wf_ds root1" using tar by (simp add: wf_state_def)
  have "OnLayerComplete (root1, w1) = (Inr (), (root', w'))"
    using fin by (simp add: CASUploadingLayerExtractor_def)
  from visited_layer[OF assms(1,2) run wf1 this] show ?thesis
    using layer es unfolding layer_effect_def by blast
qed

text \<open>The property at a layer with a directory, a file and a hard link to the file.\<close>

theorem extract_layer_refines_witness:
  "wf_ds (fst (snd demo_run)) \<and> \<not> is_hard (lookup (fst (snd demo_run)) [''bin'', ''ash''])
   \<and> lookup (fst (snd demo_run)) [''bin'', ''ash''] = Some (EFile (demo_digest ''x'') True)"
proof -
  have "lookup (fst (snd demo_run)) [''bin'', ''ash''] = Some (EFile (demo_digest ''x'') True)"
    by code_simp
  then show ?thesis
    using extract_layer_refines[OF demo_uploads wf_new demo_run_result] by auto
qed




end
