(* ===== verification/Build_User.thy ===== *)
theory Build_User
  imports Cas_Extractor
begin

text \<open>
  \<open>src/pkg/actionrouter/build_user.go\<close> and
  \<open>src/pkg/blobstore/build_user_injecting_visitor.go\<close>: the user an image's processes run as,
  and the visitor that rewrites \<open>etc/passwd\<close> and \<open>etc/group\<close> while a layer is read, so that
  the user has one entry in each. The visitor wraps another one; its contract is derived from
  the contract of the wrapped visitor.
\<close>

section \<open>Definitions\<close>

record UnixUser =
  UID :: int
  GID :: int
  Name :: string

definition UnixUser_String :: "UnixUser \<Rightarrow> string" where
  "UnixUser_String u = Name u @ '':x:'' @ show_int (UID u) @ '':'' @ show_int (GID u)"

text \<open>The configuration message; \<open>uid\<close> and \<open>gid\<close> are \<open>uint32\<close>.\<close>

record BuildUser =
  pb_uid :: nat
  pb_gid :: nat
  pb_name :: string

definition defaultBuildUser :: UnixUser where
  "defaultBuildUser = \<lparr>UID = 0, GID = 0, Name = ''root''\<rparr>"

definition BuildUserFromProto :: "BuildUser option \<Rightarrow> UnixUser res" where
  "BuildUserFromProto m =
     (case m of
        None \<Rightarrow> Inr defaultBuildUser
      | Some m \<Rightarrow>
          (let user = \<lparr>UID = int (pb_uid m), GID = int (pb_gid m), Name = pb_name m\<rparr>
           in if Name user = '''' then
                if UID user \<noteq> 0
                then Inl (Errorf InvalidArgument ''build_user.name must be set for uid %d''
                       [show_int (UID user)])
                else Inr (user\<lparr>Name := Name defaultBuildUser\<rparr>)
              else Inr user))"

text \<open>
  \<open>bufio.Scanner\<close> with the default split function: lines end with a newline, one trailing
  carriage return is dropped, an empty last segment is no line. A line that does not fit into
  the scanner's 64 KiB buffer is the error \<open>ErrTooLong\<close>; a newline has to fit too.
\<close>

definition drop_cr :: "string \<Rightarrow> string" where
  "drop_cr l = (if l \<noteq> [] \<and> last l = CHR 0x0D then butlast l else l)"

definition raw_lines :: "string \<Rightarrow> string list" where
  "raw_lines s = (let segs = split_on (CHR 0x0A) s
     in if last segs = [] then butlast segs else segs)"

definition lines_of :: "string \<Rightarrow> string list" where
  "lines_of s = map drop_cr (raw_lines s)"

definition scan_lines :: "reader \<Rightarrow> string list res" where
  "scan_lines r = (case r of (s, err) \<Rightarrow>
     (let segs = split_on (CHR 0x0A) s
      in if list_ex (\<lambda>l. 65536 \<le> int (length l)) (butlast segs) \<or> 65536 < int (length (last segs))
         then Inl (Errorf Unknown ''bufio.Scanner: token too long'' [])
         else case err of Some e \<Rightarrow> Inl e | None \<Rightarrow> Inr (lines_of s)))"

text \<open>The variables of the scanning loop.\<close>

record id_scan =
  scan_kept :: "string list"
  scan_name :: string
  scan_shell :: string
  scan_members :: string

definition set_id_step :: "int \<Rightarrow> string \<Rightarrow> id_scan \<Rightarrow> id_scan" where
  "set_id_step i line st =
     (let fields = split_n 7 (CHR '':'') line
      in if length fields \<ge> 3 \<and> atoi (fields ! 2) = Some i
         then st\<lparr>scan_name := fields ! 0,
                scan_shell := (if length fields = 7 then fields ! 6 else scan_shell st),
                scan_members := (if length fields > 3 then fields ! 3 else scan_members st)\<rparr>
         else st\<lparr>scan_kept := scan_kept st @ [line]\<rparr>)"

fun set_id_loop :: "int \<Rightarrow> string list \<Rightarrow> id_scan \<Rightarrow> id_scan" where
  "set_id_loop i [] st = st"
| "set_id_loop i (line # rest) st = set_id_loop i rest (set_id_step i line st)"

definition setIDEntry ::
  "reader \<Rightarrow> int \<Rightarrow> string \<Rightarrow> (string \<Rightarrow> string \<Rightarrow> string \<Rightarrow> string) \<Rightarrow> reader res"
where
  "setIDEntry data i defaultName entryLine =
     rbind (scan_lines data) (\<lambda>ls.
       (let st = set_id_loop i ls
              \<lparr>scan_kept = [], scan_name = defaultName, scan_shell = ''/bin/sh'', scan_members = ''''\<rparr>;
            lines = scan_kept st @ [entryLine (scan_name st) (scan_shell st) (scan_members st)]
        in Inr (join [CHR 0x0A] lines, None)))"

definition passwd_line :: "UnixUser \<Rightarrow> string \<Rightarrow> string \<Rightarrow> string \<Rightarrow> string" where
  "passwd_line user name shell ignored = name @ '':x:'' @ show_int (UID user) @ '':'' @
     show_int (GID user) @ ''::/tmp:'' @ shell @ [CHR 0x0A]"

definition group_line :: "UnixUser \<Rightarrow> string \<Rightarrow> string \<Rightarrow> string \<Rightarrow> string" where
  "group_line user name ignored members = name @ '':x:'' @ show_int (GID user) @ '':'' @
     members @ [CHR 0x0A]"

definition BuildUser_OnFileSeen ::
  "'s visitor \<Rightarrow> UnixUser \<Rightarrow> string \<Rightarrow> reader \<Rightarrow> int \<Rightarrow> ('s, unit) io"
where
  "BuildUser_OnFileSeen inner user path data mode =
     (if path = ''etc/passwd'' then
        (case setIDEntry data (UID user) (Name user) (passwd_line user) of
           Inl e \<Rightarrow> io_pure (Inl (Wrap ''ensuring /etc/passwd has the build user'' [] e))
         | Inr content \<Rightarrow> onFileSeen inner path content mode)
      else if path = ''etc/group'' then
        (case setIDEntry data (GID user) (Name user) (group_line user) of
           Inl e \<Rightarrow> io_pure (Inl (Wrap ''ensuring /etc/group has the build group'' [] e))
         | Inr content \<Rightarrow> onFileSeen inner path content mode)
      else onFileSeen inner path data mode)"

definition BuildUserInjectingVisitor :: "'s visitor \<Rightarrow> UnixUser \<Rightarrow> 's visitor" where
  "BuildUserInjectingVisitor inner user =
     \<lparr>onDirectorySeen = (\<lambda>path. onDirectorySeen inner path),
      onFileSeen = BuildUser_OnFileSeen inner user,
      onLinkSeen = (\<lambda>path target. onLinkSeen inner path target),
      onSymlinkSeen = (\<lambda>path target. onSymlinkSeen inner path target),
      onLayerComplete = onLayerComplete inner\<rparr>"

section \<open>The injecting visitor keeps its inner visitor's contract\<close>

context layer_visitor
begin

lemma injecting_visitor: "layer_visitor (BuildUserInjectingVisitor lcv user) inv"
  by unfold_locales
    (simp_all add: BuildUserInjectingVisitor_def BuildUser_OnFileSeen_def directory_keeps file_keeps
      link_keeps symlink_keeps layer_keeps split: sum.split)

end

interpretation build_user_visitor:
  layer_visitor "BuildUserInjectingVisitor (CASUploadingLayerExtractor env) user" wf_state
  for env user
  by (rule cas_visitor.injecting_visitor)

section \<open>The scanning loop as a filter\<close>

text \<open>A line is an entry of an id when its third field reads as that id.\<close>

definition has_id :: "int \<Rightarrow> string \<Rightarrow> bool" where
  "has_id i line \<longleftrightarrow> (let fields = split_n 7 (CHR '':'') line
     in length fields \<ge> 3 \<and> atoi (fields ! 2) = Some i)"

lemma set_id_loop_kept:
  "scan_kept (set_id_loop i ls st) = scan_kept st @ filter (\<lambda>l. \<not> has_id i l) ls"
  by (induction i ls st rule: set_id_loop.induct) (auto simp: set_id_step_def has_id_def Let_def)

lemma split_n_length: "length (split_n n c s) \<le> n"
  by (induction n c s rule: split_n.induct) auto

lemma in_set_tlD: "x \<in> set (tl xs) \<Longrightarrow> x \<in> set xs"
  by (cases xs) auto

lemma split_n_set: "p \<in> set (split_n n c s) \<Longrightarrow> set p \<subseteq> set s"
proof (induction n c s arbitrary: p rule: split_n.induct)
  case (3 n c s)
  have "set (tl (dropWhile (\<lambda>x. x \<noteq> c) s)) \<subseteq> set s"
    using set_dropWhileD[of _ "\<lambda>x. x \<noteq> c" s] in_set_tlD[of _ "dropWhile (\<lambda>x. x \<noteq> c) s"] by blast
  then show ?case
    using 3 by (fastforce split: if_splits dest: set_takeWhileD)
qed auto

text \<open>All pieces but the \<open>n\<close>-th are free of the separator.\<close>

lemma split_n_nth_no_sep:
  "k < length (split_n n c s) \<Longrightarrow> Suc k < n \<Longrightarrow> c \<notin> set (split_n n c s ! k)"
proof (induction n c s arbitrary: k rule: split_n.induct)
  case (3 n c s)
  then show ?case by (cases k) (auto split: if_splits dest: set_takeWhileD)
qed auto

text \<open>What the loop collects comes from the lines: no byte is made up.\<close>

lemma set_id_step_strings:
  assumes "x \<notin> set l" and "x \<notin> set (scan_name st)"
    and "x \<notin> set (scan_shell st)" and "x \<notin> set (scan_members st)"
  shows "x \<notin> set (scan_name (set_id_step i l st))" and "x \<notin> set (scan_shell (set_id_step i l st))"
    and "x \<notin> set (scan_members (set_id_step i l st))"
proof -
  let ?f = "split_n 7 (CHR '':'') l"
  have f: "x \<notin> set (?f ! k)" if "k < length ?f" for k
    using split_n_set[OF nth_mem[OF that]] assms(1) by auto
  show "x \<notin> set (scan_name (set_id_step i l st))"
    using assms f[of 0] by (cases ?f) (simp_all add: set_id_step_def Let_def)
  show "x \<notin> set (scan_shell (set_id_step i l st))"
    using assms f[of 6] by (simp add: set_id_step_def Let_def)
  show "x \<notin> set (scan_members (set_id_step i l st))"
    using assms f[of 3] by (simp add: set_id_step_def Let_def)
qed

lemma set_id_loop_strings:
  assumes "\<And>l. l \<in> set ls \<Longrightarrow> x \<notin> set l" and "x \<notin> set (scan_name st)"
    and "x \<notin> set (scan_shell st)" and "x \<notin> set (scan_members st)"
  shows "x \<notin> set (scan_name (set_id_loop i ls st)) \<and> x \<notin> set (scan_shell (set_id_loop i ls st))
    \<and> x \<notin> set (scan_members (set_id_loop i ls st))"
  using assms by (induction i ls st rule: set_id_loop.induct) (simp_all add: set_id_step_strings)

lemma set_id_step_fields:
  assumes "CHR '':'' \<notin> set (scan_name st)" and "CHR '':'' \<notin> set (scan_members st)"
  shows "CHR '':'' \<notin> set (scan_name (set_id_step i l st))"
    and "CHR '':'' \<notin> set (scan_members (set_id_step i l st))"
  using assms split_n_nth_no_sep[of 0 7 "CHR '':''" l] split_n_nth_no_sep[of 3 7 "CHR '':''" l]
  by (cases "split_n 7 (CHR '':'') l"; simp add: set_id_step_def Let_def)+

lemma set_id_loop_fields:
  assumes "CHR '':'' \<notin> set (scan_name st)" and "CHR '':'' \<notin> set (scan_members st)"
  shows "CHR '':'' \<notin> set (scan_name (set_id_loop i ls st))
    \<and> CHR '':'' \<notin> set (scan_members (set_id_loop i ls st))"
  using assms by (induction i ls st rule: set_id_loop.induct) (simp_all add: set_id_step_fields)

section \<open>Lines of the output\<close>

lemma drop_cr_id: "CHR 0x0D \<notin> set l \<Longrightarrow> drop_cr l = l"
  by (auto simp: drop_cr_def dest: last_in_set)

lemma raw_lines_chars:
  assumes "l \<in> set (raw_lines s)"
  shows "CHR 0x0A \<notin> set l" and "x \<in> set l \<Longrightarrow> x \<in> set s"
proof -
  have l: "l \<in> set (split_on (CHR 0x0A) s)"
    using assms by (auto simp: raw_lines_def Let_def split: if_splits dest: in_set_butlastD)
  then show "CHR 0x0A \<notin> set l" by (rule split_on_no_sep)
  have "set p \<subseteq> set s" if "p \<in> set (split_on c s)" for p c
    using that by (induction s arbitrary: p) (fastforce split: list.splits if_splits)+
  with l show "x \<in> set l \<Longrightarrow> x \<in> set s" by blast
qed

lemma lines_of_no_cr: "CHR 0x0D \<notin> set s \<Longrightarrow> lines_of s = raw_lines s"
  unfolding lines_of_def by (intro map_idI drop_cr_id) (use raw_lines_chars(2) in blast)

text \<open>Lines written with newlines between them, the last one ending with one, read back.\<close>

lemma join_last_newline:
  "join sep (ks @ [e @ t]) = join sep (ks @ [e]) @ t"
  by (induction ks rule: join.induct[of _ sep]) (auto simp: join_append_cons neq_Nil_conv)

lemma raw_lines_join:
  assumes "\<And>l. l \<in> set (ks @ [e]) \<Longrightarrow> CHR 0x0A \<notin> set l"
  shows "raw_lines (join [CHR 0x0A] (ks @ [e @ [CHR 0x0A]])) = ks @ [e]"
proof -
  have "join [CHR 0x0A] (ks @ [e @ [CHR 0x0A]]) = join [CHR 0x0A] ((ks @ [e]) @ [[]])"
    using join_append_cons[of "ks @ [e]" "[[]]" "[CHR 0x0A]"] by (simp only: join_last_newline) simp
  then have "split_on (CHR 0x0A) (join [CHR 0x0A] (ks @ [e @ [CHR 0x0A]])) = (ks @ [e]) @ [[]]"
    using assms by (simp only:) (intro split_on_join, auto)
  then show ?thesis unfolding raw_lines_def Let_def by (simp only: last_snoc butlast_snoc) simp
qed

section \<open>Entries\<close>

definition passwd_entry :: "UnixUser \<Rightarrow> string \<Rightarrow> string \<Rightarrow> string" where
  "passwd_entry user name shell =
     name @ '':x:'' @ show_int (UID user) @ '':'' @ show_int (GID user) @ ''::/tmp:'' @ shell"

definition group_entry :: "UnixUser \<Rightarrow> string \<Rightarrow> string \<Rightarrow> string" where
  "group_entry user name members = name @ '':x:'' @ show_int (GID user) @ '':'' @ members"

definition go_int :: "int \<Rightarrow> bool" where
  "go_int i \<longleftrightarrow> - (2 ^ 63) \<le> i \<and> i < 2 ^ 63"

lemma show_int_no_char: "\<not> is_digit c \<Longrightarrow> c \<noteq> CHR ''-'' \<Longrightarrow> c \<notin> set (show_int i)"
  using show_int_chars by blast

lemma split_n_third:
  assumes "c \<notin> set a" and "c \<notin> set b" and "c \<notin> set d"
  shows "split_n 7 c (a @ c # b @ c # d @ c # s) = a # b # d # split_n 4 c s"
  using assms split_n_append[of c a 5] split_n_append[of c b 4] split_n_append[of c d 3]
  by (simp add: eval_nat_numeral)

lemma has_id_third:
  assumes "CHR '':'' \<notin> set name" and "go_int i"
  shows "has_id i (name @ '':x:'' @ show_int i @ '':'' @ rest)"
proof -
  have "split_n 7 (CHR '':'') (name @ '':x:'' @ show_int i @ '':'' @ rest)
      = name # ''x'' # show_int i # split_n 4 (CHR '':'') rest"
    using split_n_third[of "CHR '':''" name "''x''" "show_int i" rest] assms(1)
    by (simp add: show_int_no_char)
  then show ?thesis
    using atoi_show_int[of i] assms(2) by (simp add: has_id_def go_int_def)
qed

lemma has_id_entries:
  assumes "CHR '':'' \<notin> set name"
  shows "go_int (UID user) \<Longrightarrow> has_id (UID user) (passwd_entry user name shell)"
    and "go_int (GID user) \<Longrightarrow> has_id (GID user) (group_entry user name members)"
  using has_id_third[OF assms, of "UID user" "show_int (GID user) @ ''::/tmp:'' @ shell"]
    has_id_third[OF assms, of "GID user" members]
  by (simp_all add: passwd_entry_def group_entry_def)

text \<open>
  The result of \<open>setIDEntry\<close>, for an entry line that is a newline-terminated entry of the id:
  the lines of other ids in their order, then the entry.
\<close>

definition plain_name :: "string \<Rightarrow> bool" where
  "plain_name n \<longleftrightarrow> CHR '':'' \<notin> set n \<and> CHR 0x0A \<notin> set n \<and> CHR 0x0D \<notin> set n"

lemma setIDEntry_lines:
  assumes scan: "scan_lines (s, None) = Inr ls" and cr: "CHR 0x0D \<notin> set s" and dn: "plain_name dn"
    and entry: "\<And>n sh mem. entryLine n sh mem = entry n sh mem @ [CHR 0x0A]"
    and clean: "\<And>n sh mem x. x \<in> {CHR 0x0A, CHR 0x0D} \<Longrightarrow> x \<notin> set n \<Longrightarrow> x \<notin> set sh \<Longrightarrow>
      x \<notin> set mem \<Longrightarrow> x \<notin> set (entry n sh mem)"
  shows "\<exists>out n sh mem. setIDEntry (s, None) i dn entryLine = Inr (out, None) \<and> CHR '':'' \<notin> set n
    \<and> lines_of out = filter (\<lambda>l. \<not> has_id i l) (lines_of s) @ [entry n sh mem]"
proof -
  define st where "st = set_id_loop i (lines_of s)
    \<lparr>scan_kept = [], scan_name = dn, scan_shell = ''/bin/sh'', scan_members = ''''\<rparr>"
  have ls: "ls = lines_of s" using scan by (auto simp: scan_lines_def Let_def split: if_splits)
  have raw: "lines_of s = raw_lines s" using cr by (rule lines_of_no_cr)
  have x: "x \<notin> set l" if "l \<in> set (lines_of s)" "x \<in> {CHR 0x0A, CHR 0x0D}" for l x
    using that raw raw_lines_chars[of l s] cr by auto
  have "x \<notin> set (entry (scan_name st) (scan_shell st) (scan_members st))"
    if "x \<in> {CHR 0x0A, CHR 0x0D}" for x
    using set_id_loop_strings[of "lines_of s" x, OF x[OF _ that]] that dn
    unfolding st_def by (intro clean[OF that]) (auto simp: plain_name_def)
  then have cl: "x \<notin> set l" if "l \<in> set (filter (\<lambda>l. \<not> has_id i l) (lines_of s) @
      [entry (scan_name st) (scan_shell st) (scan_members st)])" "x \<in> {CHR 0x0A, CHR 0x0D}" for l x
    using that x by auto
  have kept: "scan_kept st = filter (\<lambda>l. \<not> has_id i l) (lines_of s)"
    unfolding st_def by (simp add: set_id_loop_kept)
  let ?out = "join [CHR 0x0A] (scan_kept st @ [entry (scan_name st) (scan_shell st) (scan_members st)
    @ [CHR 0x0A]])"
  have "raw_lines ?out = scan_kept st @ [entry (scan_name st) (scan_shell st) (scan_members st)]"
    unfolding kept by (rule raw_lines_join) (use cl in blast)
  then have "lines_of ?out = scan_kept st @ [entry (scan_name st) (scan_shell st) (scan_members st)]"
    unfolding lines_of_def[of ?out] using cl kept by (simp only:) (intro map_idI drop_cr_id, blast)
  moreover have "setIDEntry (s, None) i dn entryLine = Inr (?out, None)"
    unfolding setIDEntry_def scan ls st_def by (simp add: Let_def entry)
  moreover have "CHR '':'' \<notin> set (scan_name st)"
    using set_id_loop_fields dn unfolding st_def by (simp add: plain_name_def)
  ultimately show ?thesis unfolding kept by blast
qed

lemma entry_lines:
  "passwd_line user n sh mem = passwd_entry user n sh @ [CHR 0x0A]"
  "group_line user n sh mem = group_entry user n mem @ [CHR 0x0A]"
  by (simp_all add: passwd_line_def passwd_entry_def group_line_def group_entry_def)

lemma entry_chars:
  assumes "x \<in> {CHR 0x0A, CHR 0x0D}" and "x \<notin> set n" and "x \<notin> set sh" and "x \<notin> set mem"
  shows "x \<notin> set (passwd_entry user n sh)" and "x \<notin> set (group_entry user n mem)"
proof -
  have "x \<notin> set (show_int j)" for j using assms(1) by (auto dest: show_int_chars)
  then show "x \<notin> set (passwd_entry user n sh)" and "x \<notin> set (group_entry user n mem)"
    using assms by (auto simp: passwd_entry_def group_entry_def)
qed

lemma passwd_lines:
  assumes "scan_lines (s, None) = Inr ls" and "CHR 0x0D \<notin> set s" and "plain_name (Name user)"
  shows "\<exists>out n sh. setIDEntry (s, None) (UID user) (Name user) (passwd_line user) = Inr (out, None)
    \<and> CHR '':'' \<notin> set n
    \<and> lines_of out = filter (\<lambda>l. \<not> has_id (UID user) l) (lines_of s) @ [passwd_entry user n sh]"
proof -
  have "\<exists>out n (sh::string) (mem::string). setIDEntry (s, None) (UID user) (Name user) (passwd_line user) = Inr (out, None)
    \<and> CHR '':'' \<notin> set n
    \<and> lines_of out = filter (\<lambda>l. \<not> has_id (UID user) l) (lines_of s) @ [passwd_entry user n sh]"
    by (rule setIDEntry_lines[OF assms, where entry = "\<lambda>n sh mem. passwd_entry user n sh"])
      (simp_all add: entry_lines entry_chars)
  then show ?thesis by blast
qed

lemma group_lines:
  assumes "scan_lines (s, None) = Inr ls" and "CHR 0x0D \<notin> set s" and "plain_name (Name user)"
  shows "\<exists>out n mem. setIDEntry (s, None) (GID user) (Name user) (group_line user) = Inr (out, None)
    \<and> CHR '':'' \<notin> set n
    \<and> lines_of out = filter (\<lambda>l. \<not> has_id (GID user) l) (lines_of s) @ [group_entry user n mem]"
proof -
  have "\<exists>out n (sh::string) (mem::string). setIDEntry (s, None) (GID user) (Name user) (group_line user) = Inr (out, None)
    \<and> CHR '':'' \<notin> set n
    \<and> lines_of out = filter (\<lambda>l. \<not> has_id (GID user) l) (lines_of s) @ [group_entry user n mem]"
    by (rule setIDEntry_lines[OF assms, where entry = "\<lambda>n sh mem. group_entry user n mem"])
      (simp_all add: entry_lines entry_chars)
  then show ?thesis by blast
qed

section \<open>Properties\<close>

text \<open>
  C18: When the file \<open>etc/passwd\<close> of a layer can be read, the wrapped visitor is given a file in
  which exactly one line is an entry of the build user's id, that line is the last one and has
  the build user's uid, gid and home directory, and all other lines are those of the original
  file in their order; likewise for \<open>etc/group\<close> and the build user's group id. Every other path is
  passed on unchanged.
\<close>

theorem build_user_injected:
  assumes "scan_lines (s, None) = Inr ls" and "CHR 0x0D \<notin> set s" and "plain_name (Name user)"
    and "go_int (UID user)" and "go_int (GID user)"
  shows "(\<exists>out n sh. onFileSeen (BuildUserInjectingVisitor inner user) ''etc/passwd'' (s, None) mode
        = onFileSeen inner ''etc/passwd'' (out, None) mode
      \<and> filter (has_id (UID user)) (lines_of out) = [passwd_entry user n sh]
      \<and> lines_of out = filter (\<lambda>l. \<not> has_id (UID user) l) (lines_of s) @ [passwd_entry user n sh])
    \<and> (\<exists>out n mem. onFileSeen (BuildUserInjectingVisitor inner user) ''etc/group'' (s, None) mode
        = onFileSeen inner ''etc/group'' (out, None) mode
      \<and> filter (has_id (GID user)) (lines_of out) = [group_entry user n mem]
      \<and> lines_of out = filter (\<lambda>l. \<not> has_id (GID user) l) (lines_of s) @ [group_entry user n mem])
    \<and> (\<forall>path. path \<noteq> ''etc/passwd'' \<and> path \<noteq> ''etc/group'' \<longrightarrow>
         onFileSeen (BuildUserInjectingVisitor inner user) path (s, None) mode
         = onFileSeen inner path (s, None) mode)"
proof -
  obtain out n sh where p: "setIDEntry (s, None) (UID user) (Name user) (passwd_line user) = Inr (out, None)"
    "lines_of out = filter (\<lambda>l. \<not> has_id (UID user) l) (lines_of s) @ [passwd_entry user n sh]"
    "CHR '':'' \<notin> set n"
    using passwd_lines[OF assms(1-3)] by blast
  obtain out' n' mem where g: "setIDEntry (s, None) (GID user) (Name user) (group_line user) = Inr (out', None)"
    "lines_of out' = filter (\<lambda>l. \<not> has_id (GID user) l) (lines_of s) @ [group_entry user n' mem]"
    "CHR '':'' \<notin> set n'"
    using group_lines[OF assms(1-3)] by blast
  have "filter (has_id (UID user)) (lines_of out) = [passwd_entry user n sh]"
    "filter (has_id (GID user)) (lines_of out') = [group_entry user n' mem]"
    unfolding p(2) g(2) using has_id_entries(1)[OF p(3) assms(4)] has_id_entries(2)[OF g(3) assms(5)]
    by simp_all
  moreover have "onFileSeen (BuildUserInjectingVisitor inner user) ''etc/passwd'' (s, None) mode
      = onFileSeen inner ''etc/passwd'' (out, None) mode"
    "onFileSeen (BuildUserInjectingVisitor inner user) ''etc/group'' (s, None) mode
      = onFileSeen inner ''etc/group'' (out', None) mode"
    by (simp_all add: BuildUserInjectingVisitor_def BuildUser_OnFileSeen_def p(1) g(1))
  moreover have "\<forall>path. path \<noteq> ''etc/passwd'' \<and> path \<noteq> ''etc/group'' \<longrightarrow>
      onFileSeen (BuildUserInjectingVisitor inner user) path (s, None) mode
      = onFileSeen inner path (s, None) mode"
    by (simp add: BuildUserInjectingVisitor_def BuildUser_OnFileSeen_def)
  ultimately show ?thesis using p(2) g(2) by blast
qed

text \<open>The property at a password file that already has an entry of the id, under another name.\<close>

definition demo_user :: UnixUser where
  "demo_user = \<lparr>UID = 12, GID = 10, Name = ''build''\<rparr>"

definition demo_passwd :: string where
  "demo_passwd = ''root:x:0:0:root:/root:/bin/bash'' @ [CHR 0x0A]
     @ ''bob:x:12:7:Bob:/home/bob:/bin/zsh'' @ [CHR 0x0A] @ ''nobody:x:9:9'' @ [CHR 0x0A]"

text \<open>A visitor that records the contents of the files it sees.\<close>

definition recording_visitor :: "(string \<times> string) list visitor" where
  "recording_visitor = \<lparr>onDirectorySeen = (\<lambda>_. Pair (Inr ())),
     onFileSeen = (\<lambda>path data mode log. (Inr (), log @ [(path, fst data)])),
     onLinkSeen = (\<lambda>_ _. Pair (Inr ())), onSymlinkSeen = (\<lambda>_ _. Pair (Inr ())),
     onLayerComplete = Pair (Inr ())\<rparr>"

theorem build_user_injected_witness:
  "(\<exists>out n sh. onFileSeen (BuildUserInjectingVisitor recording_visitor demo_user) ''etc/passwd''
        (demo_passwd, None) 420 = onFileSeen recording_visitor ''etc/passwd'' (out, None) 420
      \<and> filter (has_id 12) (lines_of out) = [passwd_entry demo_user n sh])
   \<and> onFileSeen (BuildUserInjectingVisitor recording_visitor demo_user) ''etc/passwd''
        (demo_passwd, None) 420 []
      = (Inr (), [(''etc/passwd'', ''root:x:0:0:root:/root:/bin/bash'' @ [CHR 0x0A]
          @ ''nobody:x:9:9'' @ [CHR 0x0A] @ ''bob:x:12:10::/tmp:/bin/zsh'' @ [CHR 0x0A])])"
proof -
  have scan: "scan_lines (demo_passwd, None) = Inr (lines_of demo_passwd)" by code_simp
  have cr: "CHR 0x0D \<notin> set demo_passwd" by code_simp
  have user: "plain_name (Name demo_user)" "go_int (UID demo_user)" "go_int (GID demo_user)"
    by code_simp+
  have uid: "UID demo_user = 12" by (simp add: demo_user_def)
  have "\<exists>out n sh. onFileSeen (BuildUserInjectingVisitor recording_visitor demo_user) ''etc/passwd''
        (demo_passwd, None) 420 = onFileSeen recording_visitor ''etc/passwd'' (out, None) 420
      \<and> filter (has_id (UID demo_user)) (lines_of out) = [passwd_entry demo_user n sh]"
    using build_user_injected[OF scan cr user, of recording_visitor 420, THEN conjunct1] by metis
  moreover have "onFileSeen (BuildUserInjectingVisitor recording_visitor demo_user) ''etc/passwd''
        (demo_passwd, None) 420 []
      = (Inr (), [(''etc/passwd'', ''root:x:0:0:root:/root:/bin/bash'' @ [CHR 0x0A]
          @ ''nobody:x:9:9'' @ [CHR 0x0A] @ ''bob:x:12:10::/tmp:/bin/zsh'' @ [CHR 0x0A])])"
    by code_simp
  ultimately show ?thesis unfolding uid by (rule conjI)
qed

text \<open>
  The build user of the configuration: the default is root; a message's ids are taken over;
  the name is the message's one, or root for uid 0; an unnamed user with another uid is rejected
  as an invalid argument. The user that is returned always has a name.
\<close>

theorem build_user_from_proto:
  "BuildUserFromProto None = Inr \<lparr>UID = 0, GID = 0, Name = ''root''\<rparr>
   \<and> (\<forall>m. case BuildUserFromProto (Some m) of
        Inl e \<Rightarrow> pb_name m = '''' \<and> pb_uid m > 0 \<and> status_code e = InvalidArgument
      | Inr u \<Rightarrow> UID u = int (pb_uid m) \<and> GID u = int (pb_gid m) \<and> Name u \<noteq> ''''
          \<and> Name u = (if pb_name m = '''' then ''root'' else pb_name m))"
  by (auto simp: BuildUserFromProto_def defaultBuildUser_def Let_def)

text \<open>
  The injecting visitor compares paths literally, while the extractor it wraps cleans them:
  a layer whose tar entry is called \<open>./etc/passwd\<close> has its password file stored at
  \<open>etc/passwd\<close> without the build user's entry.
\<close>

theorem build_user_missed_for_dot_path:
  "lookup (fst (snd (ExtractAndVisitLayerContents (\<lambda>_. None)
     (Inr [demo_entry TypeReg ''./etc/passwd'' '''' ''root:x:0:0''])
     (BuildUserInjectingVisitor (CASUploadingLayerExtractor demo_env) demo_user)
     (newUploadDirState, ())))) [''etc'', ''passwd'']
   = Some (EFile (demo_digest ''root:x:0:0'') True)"
  by code_simp

end
