(* ===== verification/Cas_Upload.thy ===== *)
theory Cas_Upload
  imports Hardlinks
begin

text \<open>
  The upload of the collected tree: \<open>upload\<close>, \<open>assertNoDuplicateNames\<close>, \<open>toSlice\<close> and
  \<open>UploadDirectories\<close> of \<open>src/pkg/blobstore/cas_uploading_layer_extractor.go\<close>. The storage is
  the parameter \<open>putProto\<close>; what the theorems need of it are the named hypotheses
  \<open>stores_directories\<close> and \<open>puts_digest\<close>.
\<close>

section \<open>Definitions\<close>

text \<open>One of the three loops over the names, with the set of names seen so far.\<close>

fun assert_names :: "string list \<Rightarrow> string list \<Rightarrow> string list res" where
  "assert_names seen [] = Inr seen"
| "assert_names seen (n # ns) =
     (if n \<notin> set seen then assert_names (n # seen) ns
      else Inl (Errorf Internal ''duplicate entires for %s in directory'' [n]))"

definition assertNoDuplicateNames :: "directory \<Rightarrow> unit res" where
  "assertNoDuplicateNames reDir =
     rbind (assert_names [] (map dir_name (dir_directories reDir))) (\<lambda>seen1.
       rbind (assert_names seen1 (map link_name (dir_symlinks reDir))) (\<lambda>seen2.
         rbind (assert_names seen2 (map file_name (dir_files reDir))) (\<lambda>_. Inr ())))"

definition toSlice :: "(string \<times> 'v) list \<Rightarrow> 'v list" where
  "toSlice m = map snd m"

text \<open>The three \<open>slices.SortFunc\<close> calls.\<close>

definition sort_directory :: "directory \<Rightarrow> directory" where
  "sort_directory d = \<lparr>dir_files = sort_key file_name (dir_files d),
     dir_directories = sort_key dir_name (dir_directories d),
     dir_symlinks = sort_key link_name (dir_symlinks d)\<rparr>"

fun upload :: "(directory \<Rightarrow> ('w, digest) io) \<Rightarrow> uploadDirState \<Rightarrow> ('w, digest) io"
  and upload_subDirs ::
    "(directory \<Rightarrow> ('w, digest) io) \<Rightarrow> (string \<times> uploadDirState) list \<Rightarrow> ('w, directory_node list) io"
where
  "upload putProto (UploadDirState sd fs sl hl) =
     io_bind (upload_subDirs putProto sd) (\<lambda>dirNodes.
       let directory = \<lparr>dir_files = toSlice fs, dir_directories = dirNodes, dir_symlinks = toSlice sl\<rparr>
       in io_bind (io_pure (assertNoDuplicateNames directory)) (\<lambda>_.
            io_wrap (Wrap ''Failed to upload directory'' []) (putProto (sort_directory directory))))"
| "upload_subDirs putProto [] = io_pure (Inr [])"
| "upload_subDirs putProto ((name, chUplSt) # sd) =
     io_bind (upload putProto chUplSt) (\<lambda>chDig.
       io_bind (upload_subDirs putProto sd) (\<lambda>rest.
         io_pure (Inr (\<lparr>dir_name = name, dir_digest = chDig\<rparr> # rest))))"

definition UploadDirectories ::
  "(directory \<Rightarrow> ('w, digest) io) \<Rightarrow> (uploadDirState \<times> 'w, digest) io"
where
  "UploadDirectories putProto = (\<lambda>(root, w).
     case upload putProto root w of
       (Inl e, w') \<Rightarrow> (Inl e, (root, w'))
     | (Inr d, w') \<Rightarrow> (Inr d, (newUploadDirState, w')))"

section \<open>The check for duplicate names\<close>

lemma assert_names_ok:
  "distinct ns \<Longrightarrow> set seen \<inter> set ns = {} \<Longrightarrow> assert_names seen ns = Inr (rev ns @ seen)"
  by (induction ns arbitrary: seen) auto

lemma assert_names_Inr:
  "assert_names seen ns = Inr seen' \<Longrightarrow> distinct ns \<and> set seen \<inter> set ns = {} \<and> seen' = rev ns @ seen"
  by (induction ns arbitrary: seen) (force split: if_splits)+

lemma assertNoDuplicateNames_iff: "assertNoDuplicateNames d = Inr () \<longleftrightarrow> distinct (entry_names d)"
proof
  assume "assertNoDuplicateNames d = Inr ()"
  then obtain s1 s2 s3 where "assert_names [] (map dir_name (dir_directories d)) = Inr s1"
      "assert_names s1 (map link_name (dir_symlinks d)) = Inr s2"
      "assert_names s2 (map file_name (dir_files d)) = Inr s3"
    by (auto simp: assertNoDuplicateNames_def)
  from this[THEN assert_names_Inr] show "distinct (entry_names d)"
    by (simp add: entry_names_def) blast
next
  assume d: "distinct (entry_names d)"
  then show "assertNoDuplicateNames d = Inr ()"
    by (simp add: assertNoDuplicateNames_def entry_names_def assert_names_ok Int_Un_distrib Int_Un_distrib2
        Int_commute)
qed

text \<open>In a well-formed node the check cannot fail: the names are the keys of disjoint maps.\<close>

lemma toSlice_names:
  "wf_node u \<Longrightarrow> map file_name (toSlice (files u)) = keys (files u)"
  "wf_node u \<Longrightarrow> map link_name (toSlice (symlinks u)) = keys (symlinks u)"
  by (auto simp: toSlice_def wf_node_def)

lemma wf_node_directory:
  assumes "wf_node u" and "map dir_name ns = keys (subDirs u)"
  defines "d \<equiv> \<lparr>dir_files = toSlice (files u), dir_directories = ns, dir_symlinks = toSlice (symlinks u)\<rparr>"
  shows "assertNoDuplicateNames d = Inr ()" and "canonical_directory (sort_directory d)"
    and "distinct (entry_names (sort_directory d))"
proof -
  have names: "entry_names d = keys (subDirs u) @ keys (symlinks u) @ keys (files u)"
    using assms(2) toSlice_names[OF assms(1)] by (simp add: d_def entry_names_def)
  then have dist: "distinct (entry_names d)"
    using assms(1) by (auto simp: wf_node_def node_names_def)
  then show "assertNoDuplicateNames d = Inr ()" by (simp add: assertNoDuplicateNames_iff)
  show "canonical_directory (sort_directory d)"
    using dist by (simp add: canonical_directory_def sort_directory_def entry_names_def canonical_sort_key)
  have "mset (entry_names (sort_directory d)) = mset (entry_names d)"
    by (simp add: entry_names_def sort_directory_def)
  then show "distinct (entry_names (sort_directory d))"
    using dist mset_eq_imp_distinct_iff by blast
qed

section \<open>What an upload does\<close>

lemma upload_subDirs_names:
  "upload_subDirs putProto sd w = (Inr ns, w') \<Longrightarrow> map dir_name ns = keys sd"
  by (induction sd arbitrary: w w' ns) (auto elim!: io_bind_InrE)

text \<open>The message stored for a node whose children have been stored as \<open>ns\<close>.\<close>

definition dir_message :: "uploadDirState \<Rightarrow> directory_node list \<Rightarrow> directory" where
  "dir_message u ns = sort_directory \<lparr>dir_files = toSlice (files u), dir_directories = ns,
     dir_symlinks = toSlice (symlinks u)\<rparr>"

text \<open>
  On a well-formed node the upload is the upload of the children followed by one \<open>PutProto\<close>.
\<close>

lemma upload_cases:
  assumes "wf_node u" and "upload putProto u w = (r, w')"
  obtains (sub) e where "upload_subDirs putProto (subDirs u) w = (Inl e, w')" and "r = Inl e"
    | (put) ns w1 r' where "upload_subDirs putProto (subDirs u) w = (Inr ns, w1)"
        and "putProto (dir_message u ns) w1 = (r', w')"
        and "r = wrap_err (Wrap ''Failed to upload directory'' []) r'"
proof -
  obtain sd fs sl hl where u: "u = UploadDirState sd fs sl hl" by (cases u)
  obtain q w1 where q: "upload_subDirs putProto sd w = (q, w1)" by fastforce
  show thesis
  proof (cases q)
    case (Inl e)
    then show thesis using sub q assms(2) by (simp add: u io_bind_simps)
  next
    case (Inr ns)
    obtain r' w2 where r': "putProto (dir_message u ns) w1 = (r', w2)" by fastforce
    have "assertNoDuplicateNames \<lparr>dir_files = toSlice fs, dir_directories = ns,
        dir_symlinks = toSlice sl\<rparr> = Inr ()"
      using wf_node_directory(1)[OF assms(1), of ns] upload_subDirs_names[OF q[unfolded Inr]]
      by (simp add: u)
    then show thesis
      using put[of ns w1 r'] q Inr r' assms(2)
      by (simp add: u io_bind_simps io_wrap_def dir_message_def)
  qed
qed

lemma upload_subDirs_cases:
  assumes "upload_subDirs putProto ((n, ch) # sd) w = (r, w')"
  obtains (child) e where "upload putProto ch w = (Inl e, w')" and "r = Inl e"
    | (rest) g w1 e where "upload putProto ch w = (Inr g, w1)"
        and "upload_subDirs putProto sd w1 = (Inl e, w')" and "r = Inl e"
    | (all) g w1 ns where "upload putProto ch w = (Inr g, w1)"
        and "upload_subDirs putProto sd w1 = (Inr ns, w')"
        and "r = Inr (\<lparr>dir_name = n, dir_digest = g\<rparr> # ns)"
  using assms by (auto simp: io_bind_def split: prod.splits sum.splits)

text \<open>Induction over a tree, as the recursion of \<open>upload\<close> goes.\<close>

lemma uploadDirState_tree_induct [case_names Node]:
  assumes "\<And>u. (\<And>n ch. (n, ch) \<in> set (subDirs u) \<Longrightarrow> P ch) \<Longrightarrow> P u"
  shows "P u"
proof (induction u)
  case (UploadDirState sd fs sl hl)
  then show ?case by (intro assms[of "UploadDirState sd fs sl hl"]) force
qed

section \<open>Every stored directory is canonical\<close>

lemma upload_subDirs_keeps:
  assumes "\<And>n ch w. (n, ch) \<in> set sd \<Longrightarrow> I w \<Longrightarrow> I (snd (upload putProto ch w))" and "I w"
    and "upload_subDirs putProto sd w = (r, w')"
  shows "I w'"
  using assms
proof (induction sd arbitrary: w r)
  case (Cons x sd)
  obtain n ch where x: "x = (n, ch)" by (cases x)
  have head: "I (snd (upload putProto ch w))" using Cons.prems(1,2) x by auto
  have tail: "I w'" if "I w1" and "upload_subDirs putProto sd w1 = (r1, w')" for w1 r1
    by (rule Cons.IH[OF _ that]) (meson Cons.prems(1) list.set_intros(2))
  from Cons.prems(3)[unfolded x] show ?case
    by (cases rule: upload_subDirs_cases) (use head tail in auto)
qed simp

lemma upload_keeps:
  assumes put: "\<And>d w. canonical_directory d \<Longrightarrow> distinct (entry_names d) \<Longrightarrow> I w \<Longrightarrow> I (snd (putProto d w))"
  shows "wf_ds u \<Longrightarrow> I w \<Longrightarrow> I (snd (upload putProto u w))"
proof (induction u arbitrary: w rule: uploadDirState_tree_induct)
  case (Node u)
  have wf: "wf_node u" using Node.prems by blast
  have sub: "I w1" if "upload_subDirs putProto (subDirs u) w = (q, w1)" for q w1
    by (rule upload_subDirs_keeps[where I = I, OF _ Node.prems(2) that])
      (use Node wf_ds_in_child in blast)
  obtain r w' where run: "upload putProto u w = (r, w')" by fastforce
  from wf run have "I w'"
  proof (cases rule: upload_cases)
    case (put ns w1 r')
    note names = upload_subDirs_names[OF put(1)]
    show ?thesis
      using assms[OF wf_node_directory(2,3)[OF wf names] sub[OF put(1)]] put(2)
      by (simp add: dir_message_def)
  qed (rule sub)
  then show ?case using run by simp
qed

text \<open>An error of an upload is an error of the storage.\<close>

lemma upload_subDirs_error:
  "upload_subDirs putProto sd w = (Inl e, w') \<Longrightarrow>
   \<exists>n ch w1. (n, ch) \<in> set sd \<and> upload putProto ch w1 = (Inl e, w')"
proof (induction sd arbitrary: w)
  case (Cons x sd)
  obtain n ch where x: "x = (n, ch)" by (cases x)
  from Cons.prems[unfolded x] show ?case
    by (cases rule: upload_subDirs_cases) (use x Cons.IH in force)+
qed simp

lemma upload_error:
  "wf_ds u \<Longrightarrow> upload putProto u w = (Inl e, w') \<Longrightarrow>
   \<exists>d w1 e'. putProto d w1 = (Inl e', w') \<and> e = Wrap ''Failed to upload directory'' [] e'"
proof (induction u arbitrary: w rule: uploadDirState_tree_induct)
  case (Node u)
  have wf: "wf_node u" using Node.prems by blast
  from wf Node.prems(2) show ?case
  proof (cases rule: upload_cases)
    case (sub e1)
    then show ?thesis
      using upload_subDirs_error[OF sub(1)] Node wf_ds_in_child by blast
  next
    case (put ns w1 r')
    then obtain e' where "r' = Inl e'" and "e = Wrap ''Failed to upload directory'' [] e'"
      by (cases r') auto
    then show ?thesis using put(2) by blast
  qed
qed

section \<open>The digest of a tree\<close>

text \<open>The storage returns the digest of the message it stored.\<close>

definition puts_digest :: "(directory \<Rightarrow> ('w, digest) io) \<Rightarrow> (directory \<Rightarrow> digest) \<Rightarrow> bool" where
  "puts_digest putProto dig \<longleftrightarrow> (\<forall>d w g w'. putProto d w = (Inr g, w') \<longrightarrow> g = dig d)"

fun tree_digest :: "(directory \<Rightarrow> digest) \<Rightarrow> uploadDirState \<Rightarrow> digest" where
  "tree_digest dig (UploadDirState sd fs sl hl) =
     dig (sort_directory \<lparr>dir_files = toSlice fs,
       dir_directories = map (\<lambda>(n, ch). \<lparr>dir_name = n, dir_digest = tree_digest dig ch\<rparr>) sd,
       dir_symlinks = toSlice sl\<rparr>)"

definition child_nodes :: "(directory \<Rightarrow> digest) \<Rightarrow> uploadDirState \<Rightarrow> directory_node list" where
  "child_nodes dig u = map (\<lambda>(n, ch). \<lparr>dir_name = n, dir_digest = tree_digest dig ch\<rparr>) (subDirs u)"

lemma tree_digest_eq: "tree_digest dig u = dig (dir_message u (child_nodes dig u))"
  by (cases u) (simp add: child_nodes_def dir_message_def)

lemma upload_subDirs_digests:
  assumes "upload_subDirs putProto sd w = (Inr ns, w')"
    and "\<And>n ch w w' g. (n, ch) \<in> set sd \<Longrightarrow> upload putProto ch w = (Inr g, w') \<Longrightarrow> g = tree_digest dig ch"
  shows "ns = map (\<lambda>(n, ch). \<lparr>dir_name = n, dir_digest = tree_digest dig ch\<rparr>) sd"
  using assms
proof (induction sd arbitrary: w ns)
  case (Cons x sd)
  obtain n ch where x: "x = (n, ch)" by (cases x)
  have tail: "\<And>n ch w w' g. (n, ch) \<in> set sd \<Longrightarrow> upload putProto ch w = (Inr g, w') \<Longrightarrow> g = tree_digest dig ch"
    by (meson Cons.prems(2) list.set_intros(2))
  have head: "upload putProto ch w = (Inr g, w1) \<Longrightarrow> g = tree_digest dig ch" for w g w1
    by (rule Cons.prems(2)[of n]) (simp_all add: x)
  from Cons.prems(1)[unfolded x] show ?case
    by (cases rule: upload_subDirs_cases) (use x head Cons.IH tail in auto)
qed simp

lemma upload_digest:
  assumes "puts_digest putProto dig"
  shows "wf_ds u \<Longrightarrow> upload putProto u w = (Inr g, w') \<Longrightarrow> g = tree_digest dig u"
proof (induction u arbitrary: w w' g rule: uploadDirState_tree_induct)
  case (Node u)
  have wf: "wf_node u" using Node.prems by blast
  from wf Node.prems(2) show ?case
  proof (cases rule: upload_cases)
    case (put ns w1 r')
    have "ns = child_nodes dig u"
      unfolding child_nodes_def using upload_subDirs_digests[OF put(1)] Node wf_ds_in_child by blast
    then show ?thesis
      using put assms by (auto simp: tree_digest_eq puts_digest_def eq_commute[of "Inr _"])
  qed simp
qed

section \<open>The digest depends on the file system only\<close>

lemma sort_key_set_eq:
  assumes "set xs = set ys" and "distinct (map key xs)" and "distinct (map key ys)"
  shows "sort_key key xs = sort_key key ys"
proof (rule go_sort.sort_fn_unique)
  show "mset xs = mset ys" using assms by (simp add: set_eq_iff_mset_eq_distinct distinct_map)
qed (rule assms(2))

lemma leaf_entry_not_dir [simp]: "leaf_entry u n \<noteq> Some EDir"
  by (auto simp: leaf_entry_def split: option.splits)

lemma file_in_lookup:
  assumes "wf_node u"
  shows "(n, f) \<in> set (files u) \<longleftrightarrow>
    lookup u [n] = Some (EFile (file_digest f) (isExecutable f)) \<and> file_name f = n"
proof -
  have "(n, f) \<in> set (files u) \<longleftrightarrow> map_of (files u) n = Some f"
    using assms by (simp add: wf_node_iff go_map_lookup)
  also have "\<dots> \<longleftrightarrow> lookup u [n] = Some (EFile (file_digest f) (isExecutable f)) \<and> file_name f = n"
  proof
    assume "map_of (files u) n = Some f"
    then show "lookup u [n] = Some (EFile (file_digest f) (isExecutable f)) \<and> file_name f = n"
      using wf_node_file[OF assms] by (simp add: leaf_entry_def)
  next
    assume r: "lookup u [n] = Some (EFile (file_digest f) (isExecutable f)) \<and> file_name f = n"
    then obtain f' where f': "map_of (files u) n = Some f'"
      "file_digest f' = file_digest f" "isExecutable f' = isExecutable f"
      by (auto simp: leaf_entry_def split: option.splits)
    then have "f' = f" using r wf_node_file(2)[OF assms f'(1)] by (intro file_node.equality) auto
    then show "map_of (files u) n = Some f" using f'(1) by simp
  qed
  finally show ?thesis .
qed

lemma wf_node_symlink:
  assumes "wf_node u" and "map_of (symlinks u) n = Some s"
  shows "map_of (subDirs u) n = None" and "map_of (files u) n = None" and "link_name s = n"
proof -
  have d: "fst ` set (subDirs u) \<inter> fst ` set (symlinks u) = {}"
    "fst ` set (symlinks u) \<inter> fst ` set (files u) = {}" using assms(1) by (simp_all add: wf_node_iff)
  then show "map_of (subDirs u) n = None" and "map_of (files u) n = None"
    using map_of_Some_key[OF assms(2)] unfolding map_of_None_keys by blast+
  show "link_name s = n" using assms by (auto simp: wf_node_def dest!: map_of_SomeD)
qed

lemma symlink_in_lookup:
  assumes "wf_node u"
  shows "(n, s) \<in> set (symlinks u) \<longleftrightarrow>
    lookup u [n] = Some (ESymlink (link_target s)) \<and> link_name s = n"
proof -
  have "(n, s) \<in> set (symlinks u) \<longleftrightarrow> map_of (symlinks u) n = Some s"
    using assms by (simp add: wf_node_iff go_map_lookup)
  also have "\<dots> \<longleftrightarrow> lookup u [n] = Some (ESymlink (link_target s)) \<and> link_name s = n"
  proof
    assume "map_of (symlinks u) n = Some s"
    then show "lookup u [n] = Some (ESymlink (link_target s)) \<and> link_name s = n"
      using wf_node_symlink[OF assms] by (simp add: leaf_entry_def)
  next
    assume r: "lookup u [n] = Some (ESymlink (link_target s)) \<and> link_name s = n"
    then obtain s' where s': "map_of (symlinks u) n = Some s'" "link_target s' = link_target s"
      by (auto simp: leaf_entry_def split: option.splits)
    then have "s' = s" using r wf_node_symlink(3)[OF assms s'(1)] by (intro symlink_node.equality) auto
    then show "map_of (symlinks u) n = Some s" using s'(1) by simp
  qed
  finally show ?thesis .
qed

lemma subDirs_in_lookup: "map_of (subDirs u) n = None \<longleftrightarrow> lookup u [n] \<noteq> Some EDir"
  by (auto split: option.splits)

lemma set_toSlice: "set (toSlice m) = {v. \<exists>n. (n, v) \<in> set m}"
  by (force simp: toSlice_def)

lemma lookup_eq_child:
  assumes "lookup u = lookup v" and "map_of (subDirs u) n = Some c"
  obtains c' where "map_of (subDirs v) n = Some c'" and "lookup c = lookup c'"
proof -
  have "map_of (subDirs v) n \<noteq> None"
    using assms subDirs_in_lookup[of u n] subDirs_in_lookup[of v n] by simp
  then obtain c' where c': "map_of (subDirs v) n = Some c'" by blast
  have "lookup c q = lookup c' q" for q
    using fun_cong[OF assms(1), of "n # q"] assms(2) c' by simp
  then show thesis using that[OF c'] by blast
qed

lemma child_nodes_subset:
  assumes "wf_ds u" "wf_ds v" "lookup u = lookup v"
    and IH: "\<And>n c c'. map_of (subDirs u) n = Some c \<Longrightarrow> map_of (subDirs v) n = Some c' \<Longrightarrow>
      lookup c = lookup c' \<Longrightarrow> tree_digest dig c = tree_digest dig c'"
  shows "set (child_nodes dig u) \<subseteq> set (child_nodes dig v)"
proof
  fix x assume "x \<in> set (child_nodes dig u)"
  then obtain n c where x: "x = \<lparr>dir_name = n, dir_digest = tree_digest dig c\<rparr>" "(n, c) \<in> set (subDirs u)"
    by (auto simp: child_nodes_def)
  have c: "map_of (subDirs u) n = Some c"
    using x(2) wf_ds_node[OF assms(1)] by (simp add: wf_node_iff go_map_lookup)
  obtain c' where c': "map_of (subDirs v) n = Some c'" "lookup c = lookup c'"
    by (rule lookup_eq_child[OF assms(3) c])
  then have "tree_digest dig c = tree_digest dig c'" using IH c by blast
  then show "x \<in> set (child_nodes dig v)"
    using x(1) map_of_SomeD[OF c'(1)] by (force simp: child_nodes_def)
qed

lemma dir_message_cong:
  assumes "wf_node u" "wf_node v" "set (files u) = set (files v)" "set (symlinks u) = set (symlinks v)"
    and "set ns = set ms" "map dir_name ns = keys (subDirs u)" "map dir_name ms = keys (subDirs v)"
  shows "dir_message u ns = dir_message v ms"
proof -
  have "distinct (map file_name (toSlice (files x)))" "distinct (map link_name (toSlice (symlinks x)))"
    "distinct (keys (subDirs x))" if "wf_node x" for x
    using that toSlice_names[OF that] by (simp_all add: wf_node_iff go_map_def)
  note dist = this[OF assms(1)] this[OF assms(2)]
  show ?thesis
    unfolding dir_message_def sort_directory_def
    using dist assms(3-7)
    by (simp add: sort_key_set_eq[of "toSlice (files u)" "toSlice (files v)"] set_toSlice
        sort_key_set_eq[of "toSlice (symlinks u)" "toSlice (symlinks v)"] sort_key_set_eq[of ns ms])
qed

lemma tree_digest_lookup:
  "wf_ds u \<Longrightarrow> wf_ds v \<Longrightarrow> lookup u = lookup v \<Longrightarrow> tree_digest dig u = tree_digest dig v"
proof (induction u arbitrary: v rule: uploadDirState_tree_induct)
  case (Node u)
  note wf = wf_ds_node[OF Node.prems(1)] wf_ds_node[OF Node.prems(2)]
  have IH: "tree_digest dig c = tree_digest dig c'"
    if "map_of (subDirs u) n = Some c" "map_of (subDirs v) n = Some c'" "lookup c = lookup c'" for n c c'
    using that Node.IH[OF map_of_SomeD] Node.prems(1,2) wf_ds_child by blast
  have "set (child_nodes dig u) \<subseteq> set (child_nodes dig v)"
    by (rule child_nodes_subset[OF Node.prems(1,2,3)]) (rule IH)
  moreover have "set (child_nodes dig v) \<subseteq> set (child_nodes dig u)"
    by (rule child_nodes_subset[OF Node.prems(2,1) Node.prems(3)[symmetric]]) (metis IH)
  ultimately have "set (child_nodes dig u) = set (child_nodes dig v)" by (rule subset_antisym)
  moreover have "set (files u) = set (files v)"
  proof (rule set_eqI)
    fix x show "x \<in> set (files u) \<longleftrightarrow> x \<in> set (files v)"
      using Node.prems(3) file_in_lookup[OF wf(1), of "fst x" "snd x"]
        file_in_lookup[OF wf(2), of "fst x" "snd x"] by simp
  qed
  moreover have "set (symlinks u) = set (symlinks v)"
  proof (rule set_eqI)
    fix x show "x \<in> set (symlinks u) \<longleftrightarrow> x \<in> set (symlinks v)"
      using Node.prems(3) symlink_in_lookup[OF wf(1), of "fst x" "snd x"]
        symlink_in_lookup[OF wf(2), of "fst x" "snd x"] by simp
  qed
  moreover have "map dir_name (child_nodes dig x) = keys (subDirs x)" for x
    by (auto simp: child_nodes_def)
  ultimately show ?case
    using dir_message_cong[OF wf] by (simp add: tree_digest_eq)
qed

section \<open>Reading the tree back from the storage\<close>

text \<open>
  \<open>rd w\<close> is the content of the storage in world \<open>w\<close>. A successful put makes the message
  readable under the digest it returned, and no put loses or changes a message.
\<close>

definition stores_directories ::
  "(directory \<Rightarrow> ('w, digest) io) \<Rightarrow> ('w \<Rightarrow> digest \<Rightarrow> directory option) \<Rightarrow> bool"
where
  "stores_directories putProto rd \<longleftrightarrow>
     (\<forall>d w g w'. putProto d w = (Inr g, w') \<longrightarrow> rd w' g = Some d)
   \<and> (\<forall>d w. rd w \<subseteq>\<^sub>m rd (snd (putProto d w)))"

text \<open>The file system a reader of the storage sees below a digest.\<close>

fun cas_lookup :: "(digest \<Rightarrow> directory option) \<Rightarrow> digest \<Rightarrow> fs" where
  "cas_lookup st g [] = (case st g of None \<Rightarrow> None | Some d \<Rightarrow> Some EDir)"
| "cas_lookup st g (n # p) =
     (case st g of
        None \<Rightarrow> None
      | Some d \<Rightarrow>
          (case map_of (map (\<lambda>x. (dir_name x, dir_digest x)) (dir_directories d)) n of
             Some h \<Rightarrow> cas_lookup st h p
           | None \<Rightarrow>
               if p \<noteq> [] then None
               else (case map_of (map (\<lambda>f. (file_name f, f)) (dir_files d)) n of
                       Some f \<Rightarrow> Some (EFile (file_digest f) (isExecutable f))
                     | None \<Rightarrow> map_option (\<lambda>s. ESymlink (link_target s))
                         (map_of (map (\<lambda>s. (link_name s, s)) (dir_symlinks d)) n))))"

lemma map_of_sorted_names:
  assumes "distinct (map key xs)"
  shows "map_of (map (\<lambda>x. (key x, val x)) (sort_key key xs)) = map_of (map (\<lambda>x. (key x, val x)) xs)"
  by (rule map_of_perm[symmetric]) (use assms in \<open>simp_all add: go_map_def comp_def\<close>)

lemma dir_message_lookups:
  assumes "wf_node u" and "map dir_name ns = keys (subDirs u)"
  shows "map_of (map (\<lambda>f. (file_name f, f)) (dir_files (dir_message u ns))) = map_of (files u)"
    and "map_of (map (\<lambda>s. (link_name s, s)) (dir_symlinks (dir_message u ns))) = map_of (symlinks u)"
    and "map_of (map (\<lambda>x. (dir_name x, dir_digest x)) (dir_directories (dir_message u ns))) =
      map_of (map (\<lambda>x. (dir_name x, dir_digest x)) ns)"
proof -
  have "distinct (map file_name (toSlice (files u)))" "distinct (map link_name (toSlice (symlinks u)))"
    "distinct (map dir_name ns)"
    using assms toSlice_names[OF assms(1)] by (simp_all add: wf_node_iff go_map_def)
  note eqs = this[THEN map_of_sorted_names]
  have "map (\<lambda>f. (file_name f, f)) (toSlice (files u)) = files u"
    "map (\<lambda>s. (link_name s, s)) (toSlice (symlinks u)) = symlinks u"
    using assms(1) by (auto simp: toSlice_def wf_node_def intro!: map_idI)
  then show "map_of (map (\<lambda>f. (file_name f, f)) (dir_files (dir_message u ns))) = map_of (files u)"
    and "map_of (map (\<lambda>s. (link_name s, s)) (dir_symlinks (dir_message u ns))) = map_of (symlinks u)"
    using eqs(1)[of "\<lambda>x. x"] eqs(2)[of "\<lambda>x. x"] by (simp_all add: dir_message_def sort_directory_def)
  show "map_of (map (\<lambda>x. (dir_name x, dir_digest x)) (dir_directories (dir_message u ns))) =
      map_of (map (\<lambda>x. (dir_name x, dir_digest x)) ns)"
    using eqs by (simp add: dir_message_def sort_directory_def)
qed

lemma child_lookups:
  assumes "list_all2 (\<lambda>(n, c) x. cas_lookup st (dir_digest x) = lookup c) sd ns"
    and "map dir_name ns = keys sd"
  shows "map_option (cas_lookup st) (map_of (map (\<lambda>x. (dir_name x, dir_digest x)) ns) n) =
    map_option lookup (map_of sd n)"
  using assms by (induction rule: list_all2_induct) auto

lemma cas_lookup_node:
  assumes "wf_node u" "hardLinks u = []" "map dir_name ns = keys (subDirs u)"
    and st: "st g = Some (dir_message u ns)"
    and ch: "list_all2 (\<lambda>(n, c) x. cas_lookup st (dir_digest x) = lookup c) (subDirs u) ns"
  shows "cas_lookup st g = lookup u"
proof
  fix q
  show "cas_lookup st g q = lookup u q"
  proof (cases q)
    case (Cons n p)
    note lookups = dir_message_lookups[OF assms(1,3)]
    show ?thesis
    proof (cases "map_of (subDirs u) n")
      case None
      then have "map_of (map (\<lambda>x. (dir_name x, dir_digest x)) ns) n = None"
        using child_lookups[OF ch assms(3), of n] by simp
      then show ?thesis
        using Cons None st assms(2) by (simp add: lookups leaf_entry_def split: option.split)
    next
      case (Some c)
      then obtain h where "map_of (map (\<lambda>x. (dir_name x, dir_digest x)) ns) n = Some h"
        and "cas_lookup st h = lookup c"
        using child_lookups[OF ch assms(3), of n] by auto
      then show ?thesis using Cons Some st by (simp add: lookups)
    qed
  qed (simp add: st)
qed

lemma stores_keeps: "stores_directories putProto rd \<Longrightarrow> rd w \<subseteq>\<^sub>m rd (snd (putProto d w))"
  by (simp add: stores_directories_def)

lemma upload_grows:
  assumes "stores_directories putProto rd" and "wf_ds u" and "upload putProto u w = (r, w')"
  shows "rd w \<subseteq>\<^sub>m rd w'"
  using upload_keeps[where I = "\<lambda>x. rd w \<subseteq>\<^sub>m rd x", OF _ assms(2), of putProto w] assms(3)
    stores_keeps[OF assms(1)] by (force intro: map_le_trans)

text \<open>What an upload stored can be read in every later state of the storage.\<close>

lemma upload_subDirs_readable:
  assumes st: "stores_directories putProto rd"
    and IH: "\<And>n c w g w' w''. (n, c) \<in> set sd \<Longrightarrow> upload putProto c w = (Inr g, w') \<Longrightarrow>
      rd w' \<subseteq>\<^sub>m rd w'' \<Longrightarrow> cas_lookup (rd w'') g = lookup c"
    and wf: "\<And>n c. (n, c) \<in> set sd \<Longrightarrow> wf_ds c"
    and "upload_subDirs putProto sd w = (Inr ns, w')" and "rd w' \<subseteq>\<^sub>m rd w''"
  shows "list_all2 (\<lambda>(n, c) x. cas_lookup (rd w'') (dir_digest x) = lookup c) sd ns"
  using assms(2-)
proof (induction sd arbitrary: w ns)
  case (Cons x sd)
  obtain n c where x: "x = (n, c)" by (cases x)
  from Cons.prems(3)[unfolded x] show ?case
  proof (cases rule: upload_subDirs_cases)
    case (all g w1 ms)
    have "rd w1 \<subseteq>\<^sub>m rd w'"
      using upload_subDirs_keeps[where I = "\<lambda>v. rd w1 \<subseteq>\<^sub>m rd v", OF _ _ all(2)]
        upload_grows[OF st] Cons.prems(2) by (metis list.set_intros(2) map_le_refl map_le_trans prod.collapse)
    then have "cas_lookup (rd w'') g = lookup c"
      using Cons.prems(1)[of n c w g w1 w''] all(1) x Cons.prems(4) map_le_trans by auto
    moreover have "list_all2 (\<lambda>(n, c) x. cas_lookup (rd w'') (dir_digest x) = lookup c) sd ms"
      by (rule Cons.IH[OF _ _ all(2) Cons.prems(4)])
        (meson Cons.prems(1,2) list.set_intros(2))+
    ultimately show ?thesis using all(3) x by simp
  qed simp_all
qed simp

lemma upload_readable:
  assumes st: "stores_directories putProto rd"
  shows "wf_ds u \<Longrightarrow> no_hard u \<Longrightarrow> upload putProto u w = (Inr g, w') \<Longrightarrow> rd w' \<subseteq>\<^sub>m rd w'' \<Longrightarrow>
    cas_lookup (rd w'') g = lookup u"
proof (induction u arbitrary: w w' w'' g rule: uploadDirState_tree_induct)
  case (Node u)
  have wf: "wf_node u" using Node.prems(1) by blast
  have nh: "hardLinks u = []" "\<And>n c. (n, c) \<in> set (subDirs u) \<Longrightarrow> no_hard c"
    using Node.prems(2) by (cases u; auto simp: list_all_iff)+
  from wf Node.prems(3) show ?case
  proof (cases rule: upload_cases)
    case (put ns w1 r')
    have r': "r' = Inr g" using put(3) by (cases r') auto
    have le: "rd w1 \<subseteq>\<^sub>m rd w''"
      using stores_keeps[OF st, of w1 "dir_message u ns"] put(2) Node.prems(4) map_le_trans by fastforce
    have "rd w' g = Some (dir_message u ns)"
      using st put(2) r' unfolding stores_directories_def by blast
    then have "rd w'' g = Some (dir_message u ns)"
      using Node.prems(4) by (metis domI map_le_def)
    moreover have "list_all2 (\<lambda>(n, c) x. cas_lookup (rd w'') (dir_digest x) = lookup c) (subDirs u) ns"
      by (rule upload_subDirs_readable[OF st _ _ put(1) le])
        (use Node.IH nh(2) wf_ds_in_child[OF Node.prems(1)] in blast)+
    ultimately show ?thesis
      by (rule cas_lookup_node[OF wf nh(1) upload_subDirs_names[OF put(1)]])
  qed simp
qed

text \<open>The message stored for the root has no name twice.\<close>

lemma upload_message:
  assumes "stores_directories putProto rd" and "wf_ds u" and "upload putProto u w = (Inr g, w')"
  shows "\<exists>m. rd w' g = Some m \<and> distinct (entry_names m)"
proof -
  have wf: "wf_node u" using assms(2) by blast
  from wf assms(3) show ?thesis
  proof (cases rule: upload_cases)
    case (put ns w1 r')
    then have "putProto (dir_message u ns) w1 = (Inr g, w')" by (cases r') auto
    then have "rd w' g = Some (dir_message u ns)" using assms(1) unfolding stores_directories_def by blast
    then show ?thesis
      using wf_node_directory(3)[OF wf upload_subDirs_names[OF put(1)]] by (simp add: dir_message_def)
  qed simp
qed

section \<open>Properties\<close>

text \<open>A storage that records, after what it does, every message it was asked to store.\<close>

definition recording :: "(directory \<Rightarrow> ('w, digest) io) \<Rightarrow> directory \<Rightarrow> ('w \<times> directory list, digest) io" where
  "recording putProto d = (\<lambda>(w, log). case putProto d w of (r, w') \<Rightarrow> (r, (w', log @ [d])))"

text \<open>A tree and an append-only storage for the witnesses; the digest is the position.\<close>

definition demo_tree :: uploadDirState where
  "demo_tree = UploadDirState
     [(''usr'', UploadDirState [] [] [] []),
      (''bin'', UploadDirState [] [(''sh'', \<lparr>file_name = ''sh'',
         file_digest = \<lparr>hash = ''x'', size_bytes = 1\<rparr>, isExecutable = True\<rparr>)] [] [])]
     [] [(''lib'', \<lparr>link_name = ''lib'', link_target = ''usr/lib''\<rparr>)] []"

definition log_put :: "directory \<Rightarrow> (directory list, digest) io" where
  "log_put d w = (Inr \<lparr>hash = '''', size_bytes = int (length w)\<rparr>, w @ [d])"

definition log_read :: "directory list \<Rightarrow> digest \<Rightarrow> directory option" where
  "log_read w g = (if hash g = '''' \<and> 0 \<le> size_bytes g \<and> nat (size_bytes g) < length w
     then Some (w ! nat (size_bytes g)) else None)"

lemma demo_tree_wf: "wf_ds demo_tree" "no_hard demo_tree"
  by (simp_all add: demo_tree_def wf_node_def node_names_def)

lemma log_stores: "stores_directories log_put log_read"
  by (auto simp: stores_directories_def log_put_def log_read_def map_le_def nth_append split: if_splits)

text \<open>
  C25: Whatever the storage does and in whatever order Go visits the maps, every \<open>Directory\<close>
  message an upload of a well-formed tree hands to the storage is in the canonical form REv2
  requires: files, subdirectories and symlinks each sorted by name, and no name used twice.
\<close>

theorem upload_stores_canonical:
  assumes "wf_ds u" and "upload (recording putProto) u (w, []) = (r, (w', log))"
  shows "\<forall>d \<in> set log. canonical_directory d \<and> distinct (entry_names d)"
proof -
  let ?I = "\<lambda>s. \<forall>d \<in> set (snd s). canonical_directory d \<and> distinct (entry_names d)"
  have "?I (snd (upload (recording putProto) u (w, [])))"
  proof (rule upload_keeps[where I = ?I, OF _ assms(1)])
    fix d :: directory and s :: "'a \<times> directory list"
    assume "canonical_directory d" "distinct (entry_names d)" "?I s"
    then show "?I (snd (recording putProto d s))"
      by (auto simp: recording_def case_prod_unfold)
  qed simp
  then show ?thesis using assms(2) by simp
qed

theorem upload_stores_canonical_witness:
  "list_all (\<lambda>d. canonical_directory d \<and> distinct (entry_names d))
     (snd (snd (upload (recording log_put) demo_tree ([], []))))"
  unfolding list_all_iff
  using upload_stores_canonical[OF demo_tree_wf(1), of log_put "[]"] by (metis prod.collapse)

text \<open>
  The upload of a well-formed tree fails only where the storage fails: the error is the
  storage's, wrapped. In particular the check for duplicate names never fires.
\<close>

theorem upload_fails_only_in_storage:
  assumes "wf_ds u" and "upload putProto u w = (Inl e, w')"
  shows "\<exists>d w1 e'. putProto d w1 = (Inl e', w') \<and> e = Wrap ''Failed to upload directory'' [] e'"
  using assms by (rule upload_error)

theorem upload_fails_only_in_storage_witness:
  "\<exists>d w1 e'. (\<lambda>d w. (Inl (Errorf Unavailable ''down'' []) :: digest res, w)) (d :: directory) (w1 :: unit)
      = (Inl e', ()) \<and> Wrap ''Failed to upload directory'' [] (Errorf Unavailable ''down'' [])
      = Wrap ''Failed to upload directory'' [] e'"
  by (rule upload_fails_only_in_storage[OF demo_tree_wf(1)]) code_simp

text \<open>
  C26: The digest of an uploaded image depends on its file system only: two well-formed trees
  that look the same along every path get the same root digest, whatever the order of the
  maps they are built of and whatever the state of the storage.
\<close>

theorem upload_digest_of_content:
  assumes "puts_digest putProto dig" and "wf_ds u" and "wf_ds v" and "lookup u = lookup v"
    and "upload putProto u w1 = (Inr g, w1')" and "upload putProto v w2 = (Inr h, w2')"
  shows "g = h"
proof -
  have "g = tree_digest dig u" by (rule upload_digest[OF assms(1,2,5)])
  also have "\<dots> = tree_digest dig v" by (rule tree_digest_lookup[OF assms(2-4)])
  also have "\<dots> = h" by (rule upload_digest[OF assms(1,3,6), symmetric])
  finally show ?thesis .
qed

definition swapped_tree :: uploadDirState where
  "swapped_tree = UploadDirState (rev (subDirs demo_tree)) (files demo_tree) (symlinks demo_tree) []"

definition name_put :: "directory \<Rightarrow> (unit, digest) io" where
  "name_put d w = (Inr \<lparr>hash = concat (entry_names d), size_bytes = 0\<rparr>, w)"

lemma swapped_lookup: "lookup demo_tree = lookup swapped_tree"
proof
  fix q
  show "lookup demo_tree q = lookup swapped_tree q"
    by (cases q) (auto simp: demo_tree_def swapped_tree_def leaf_entry_def)
qed

theorem upload_digest_of_content_witness:
  "demo_tree \<noteq> swapped_tree
   \<and> fst (upload name_put demo_tree ()) = fst (upload name_put swapped_tree ())"
proof -
  have pd: "puts_digest name_put (\<lambda>d. \<lparr>hash = concat (entry_names d), size_bytes = 0\<rparr>)"
    by (simp add: puts_digest_def name_put_def)
  have wf: "wf_ds swapped_tree"
    by (simp add: swapped_tree_def demo_tree_def wf_node_def node_names_def)
  have u: "upload name_put demo_tree () = (Inr \<lparr>hash = ''binusrlib'', size_bytes = 0\<rparr>, ())"
    and v: "upload name_put swapped_tree () = (Inr \<lparr>hash = ''binusrlib'', size_bytes = 0\<rparr>, ())"
    by code_simp+
  have "demo_tree \<noteq> swapped_tree" by (simp add: demo_tree_def swapped_tree_def)
  then show ?thesis
    using upload_digest_of_content[OF pd demo_tree_wf(1) wf swapped_lookup u v] by (simp add: u v)
qed

text \<open>
  C8: Round trip through the storage. After the upload of a well-formed tree without hard links
  has returned a digest, reading the storage from that digest shows, along every path, exactly
  the entries of the tree.
\<close>

theorem upload_round_trip:
  assumes "stores_directories putProto rd" and "wf_ds u" and "no_hard u"
    and "upload putProto u w = (Inr g, w')"
  shows "cas_lookup (rd w') g = lookup u"
  using upload_readable[OF assms] by simp

theorem upload_round_trip_witness:
  "cas_lookup (log_read (snd (upload log_put demo_tree []))) \<lparr>hash = '''', size_bytes = 2\<rparr> = lookup demo_tree
   \<and> lookup demo_tree [''bin'', ''sh''] = Some (EFile \<lparr>hash = ''x'', size_bytes = 1\<rparr> True)"
proof -
  have "fst (upload log_put demo_tree []) = Inr \<lparr>hash = '''', size_bytes = 2\<rparr>" by code_simp
  then have u: "upload log_put demo_tree []
      = (Inr \<lparr>hash = '''', size_bytes = 2\<rparr>, snd (upload log_put demo_tree []))"
    by (metis prod.collapse)
  show ?thesis
    using upload_round_trip[OF log_stores demo_tree_wf u]
    by (simp add: demo_tree_def leaf_entry_def)
qed

end
