(* ===== verification/Docker_Image.thy ===== *)
theory Docker_Image
  imports Layer_Extractor
begin

text \<open>
  \<open>src/pkg/docker/image_ref.go\<close>, \<open>src/pkg/docker/image_puller.go\<close> and
  \<open>src/pkg/fetcher/registry_auth.go\<close>: image references, the credentials of registries, and
  the puller. The parser of references, the registry client and the reader of credential files
  are parameters.
\<close>

section \<open>Definitions: references\<close>

text \<open>What the code uses of a parsed \<open>name.Reference\<close>.\<close>

record reference =
  registryStr :: string
  digestStr :: string

definition is_lower_hex :: "char \<Rightarrow> bool" where
  "is_lower_hex c \<longleftrightarrow> is_digit c \<or> 97 \<le> (of_char c :: nat) \<and> (of_char c :: nat) \<le> 102"

text \<open>
  The regular expression \<open>digestPattern\<close>: it is anchored at the end of the text only, so a
  match is \<open>@sha256:\<close> followed by the last 64 characters.
\<close>

definition digestRegex_match :: "string \<Rightarrow> bool" where
  "digestRegex_match s \<longleftrightarrow>
     (let n = length s - 64
      in length s \<ge> 64 \<and> list_all is_lower_hex (drop n s) \<and> has_suffix (take n s) ''@sha256:'')"

definition ValidateImageReferenceIsShaDigest :: "(string \<Rightarrow> reference res) \<Rightarrow> string \<Rightarrow> unit res" where
  "ValidateImageReferenceIsShaDigest parseReference imageRef =
     (if imageRef = '''' then Inl (Errorf Unknown ''image reference cannot be empty'' [])
      else rbind (wrap_err (Wrap ''invalid image reference'' []) (parseReference imageRef)) (\<lambda>_.
        if \<not> digestRegex_match imageRef
        then Inl (Errorf Unknown ''must use SHA256 digest format (e.g., registry/image@sha256:...), got: %s'' [imageRef])
        else Inr ()))"

definition GetRegistryHostname :: "(string \<Rightarrow> reference res) \<Rightarrow> string \<Rightarrow> string res" where
  "GetRegistryHostname parseReference imageRef =
     rbind (wrap_err (Wrap ''invalid image reference'' []) (parseReference imageRef))
       (\<lambda>ref. Inr (registryStr ref))"

section \<open>Definitions: credentials\<close>

record RegistryAuth =
  Username :: string
  Password :: string
  AnonymousToken :: bool

text \<open>The oneof of \<open>RegistryAuthenticationConfiguration\<close>.\<close>

datatype registry_auth_config =
    AuthAnonymous string
  | AuthInline string string string
  | CredentialsJsonPath string
  | AuthNotSet

text \<open>
  \<open>readCredentials\<close> reads and decodes the \<open>auths\<close> object of a file: registry, user name and
  password.
\<close>

definition loadCredentialsFromFile ::
  "(string \<Rightarrow> (string, string \<times> string) gomap res) \<Rightarrow> string \<Rightarrow> (string, RegistryAuth) gomap res"
where
  "loadCredentialsFromFile readCredentials path =
     rbind (readCredentials path) (\<lambda>auths.
       Inr (map (\<lambda>(registry, user, pass). (registry, \<lparr>Username = user, Password = pass, AnonymousToken = False\<rparr>)) auths))"

definition auth_step ::
  "(string \<Rightarrow> (string, string \<times> string) gomap res) \<Rightarrow> registry_auth_config \<Rightarrow> (string, RegistryAuth) gomap \<Rightarrow>
   (string, RegistryAuth) gomap res"
where
  "auth_step readCredentials c result =
     (case c of
        AuthAnonymous registry \<Rightarrow>
          Inr (if registry \<noteq> '''' then AList.update registry \<lparr>Username = '''', Password = '''', AnonymousToken = True\<rparr> result
               else result)
      | AuthInline registry user pass \<Rightarrow>
          Inr (if registry \<noteq> '''' then AList.update registry \<lparr>Username = user, Password = pass, AnonymousToken = False\<rparr> result
               else result)
      | CredentialsJsonPath path \<Rightarrow>
          rbind (wrap_err (Wrap ''failed to load credentials from %s'' [path]) (loadCredentialsFromFile readCredentials path))
            (\<lambda>fileAuth. Inr (fold (\<lambda>(registry, creds) m. AList.update registry creds m) fileAuth result))
      | AuthNotSet \<Rightarrow> Inr result)"

fun auth_loop ::
  "(string \<Rightarrow> (string, string \<times> string) gomap res) \<Rightarrow> registry_auth_config list \<Rightarrow> (string, RegistryAuth) gomap \<Rightarrow>
   (string, RegistryAuth) gomap res"
where
  "auth_loop readCredentials [] result = Inr result"
| "auth_loop readCredentials (c # cs) result =
     rbind (auth_step readCredentials c result) (auth_loop readCredentials cs)"

definition ParseRegistryAuth ::
  "(string \<Rightarrow> (string, string \<times> string) gomap res) \<Rightarrow> registry_auth_config list \<Rightarrow> (string, RegistryAuth) gomap res"
where
  "ParseRegistryAuth readCredentials configs = auth_loop readCredentials configs []"

section \<open>Definitions: the puller\<close>

record ImagePuller =
  authConfig :: "(string, RegistryAuth) gomap"
  maxImageSizeBytes :: int
  pullTimeout :: int

datatype authenticator = Anonymous | Basic string string

text \<open>
  An image: the layer sizes of its manifest, and its layers, each of them a tarball or the error
  of opening it.
\<close>

record image =
  manifest_sizes :: "int list res"
  image_layers :: "tar_next list res list res"

text \<open>
  The registry client. \<open>remoteGet\<close> fetches the descriptor, with a deadline when the timeout is
  positive, and \<open>descImage\<close> gives its image; \<open>cancelPull\<close> cancels the pull's context.
\<close>

record ('w, 'd) registry =
  parseReference :: "string \<Rightarrow> reference res"
  remoteGet :: "int option \<Rightarrow> reference \<Rightarrow> authenticator \<Rightarrow> ('w, 'd) io"
  descImage :: "'d \<Rightarrow> ('w, image) io"
  cancelPull :: "'w \<Rightarrow> 'w"

definition getAuthForRegistry :: "ImagePuller \<Rightarrow> string \<Rightarrow> authenticator res" where
  "getAuthForRegistry p registryHostname =
     (case map_of (authConfig p) registryHostname of
        None \<Rightarrow> Inr Anonymous
      | Some auth \<Rightarrow> if AnonymousToken auth then Inr Anonymous else Inr (Basic (Username auth) (Password auth)))"

definition total_size :: "int list \<Rightarrow> int" where
  "total_size sizes = foldl add64 0 sizes"

text \<open>The message shows both sizes in megabytes; the model keeps them in bytes.\<close>

definition validateImageSize :: "ImagePuller \<Rightarrow> image \<Rightarrow> unit res" where
  "validateImageSize p img =
     (if maxImageSizeBytes p \<le> 0 then Inr ()
      else rbind (wrap_err (Wrap ''Failed to get image manifest'' []) (manifest_sizes img)) (\<lambda>sizes.
        if total_size sizes > maxImageSizeBytes p
        then Inl (Errorf InvalidArgument ''Image size %.2f MB exceeds maximum allowed size %.2f MB''
               [show_int (total_size sizes), show_int (maxImageSizeBytes p)])
        else Inr ()))"

definition getImageFromRefImpl ::
  "('w, 'd) registry \<Rightarrow> ImagePuller \<Rightarrow> int option \<Rightarrow> string \<Rightarrow> ('w, image) io"
where
  "getImageFromRefImpl reg p deadline imageRef =
     io_bind (io_pure (wrap_err (WrapWithCode InvalidArgument ''Failed to parse image reference'' [])
                         (parseReference reg imageRef))) (\<lambda>ref.
       io_bind (io_pure (wrap_err (Wrap ''Failed to get authentication'' [])
                           (getAuthForRegistry p (registryStr ref)))) (\<lambda>auth.
         io_bind (io_wrap (Wrap ''Failed to fetch image descriptor'' []) (remoteGet reg deadline ref auth)) (\<lambda>desc.
           io_bind (io_wrap (Wrap ''Failed to get image from descriptor'' []) (descImage reg desc)) (\<lambda>img.
             io_bind (io_pure (validateImageSize p img)) (\<lambda>_. io_pure (Inr img))))))"

text \<open>
  On success the caller gets the function that cancels the context, here as a transformation of
  the world; on failure the context is cancelled at once. Without a timeout cancelling does
  nothing.
\<close>

definition GetImageFromRef ::
  "('w, 'd) registry \<Rightarrow> ImagePuller \<Rightarrow> string \<Rightarrow> ('w, image \<times> ('w \<Rightarrow> 'w)) io"
where
  "GetImageFromRef reg p imageRef w =
     (let deadline = (if pullTimeout p > 0 then Some (pullTimeout p) else None);
          cancel = (if pullTimeout p > 0 then cancelPull reg else id)
      in case getImageFromRefImpl reg p deadline imageRef w of
           (Inl e, w') \<Rightarrow> (Inl e, cancel w')
         | (Inr img, w') \<Rightarrow> (Inr (img, cancel), w'))"

section \<open>Properties\<close>

lemma has_suffix_iff: "has_suffix s p \<longleftrightarrow> (\<exists>r. s = r @ p)"
proof
  assume "has_suffix s p"
  then have "s = take (length s - length p) s @ p" unfolding has_suffix_def by (metis append_take_drop_id)
  then show "\<exists>r. s = r @ p" by blast
qed (auto simp: has_suffix_def)

text \<open>
  A reference is accepted exactly when the parser accepts it and it ends with
  \<open>@sha256:\<close> and 64 lower-case hexadecimal digits.
\<close>

theorem sha_reference_format:
  "ValidateImageReferenceIsShaDigest parse ref = Inr () \<longleftrightarrow>
     \<not> isl (parse ref) \<and> (\<exists>p h. ref = p @ ''@sha256:'' @ h \<and> length h = 64 \<and> list_all is_lower_hex h)"
proof -
  have "digestRegex_match ref \<longleftrightarrow> (\<exists>p h. ref = p @ ''@sha256:'' @ h \<and> length h = 64 \<and> list_all is_lower_hex h)"
    (is "?l \<longleftrightarrow> ?r")
  proof
    assume ?l
    then obtain p where "take (length ref - 64) ref = p @ ''@sha256:''"
      and "list_all is_lower_hex (drop (length ref - 64) ref)" and "length ref \<ge> 64"
      by (auto simp: digestRegex_match_def Let_def has_suffix_iff)
    then have "ref = p @ ''@sha256:'' @ drop (length ref - 64) ref" by (metis append.assoc append_take_drop_id)
    then show ?r
      using \<open>list_all is_lower_hex (drop (length ref - 64) ref)\<close> \<open>length ref \<ge> 64\<close>
      by (intro exI[of _ p] exI[of _ "drop (length ref - 64) ref"]) auto
  next
    assume ?r
    then obtain p h where "ref = (p @ ''@sha256:'') @ h" "length h = 64" "list_all is_lower_hex h" by auto
    then show ?l unfolding digestRegex_match_def Let_def has_suffix_iff by auto
  qed
  moreover have "digestRegex_match '''' = False" by (simp add: digestRegex_match_def)
  ultimately show ?thesis
    by (cases "parse ref") (auto simp: ValidateImageReferenceIsShaDigest_def)
qed

text \<open>The credentials a configuration entry has for a registry.\<close>

definition provided ::
  "(string \<Rightarrow> (string, string \<times> string) gomap res) \<Rightarrow> registry_auth_config \<Rightarrow> string \<Rightarrow> RegistryAuth option"
where
  "provided readCredentials c registry =
     (case c of
        AuthAnonymous r \<Rightarrow> if r = registry \<and> r \<noteq> '''' then Some \<lparr>Username = '''', Password = '''', AnonymousToken = True\<rparr> else None
      | AuthInline r u p \<Rightarrow> if r = registry \<and> r \<noteq> '''' then Some \<lparr>Username = u, Password = p, AnonymousToken = False\<rparr> else None
      | CredentialsJsonPath path \<Rightarrow>
          (case readCredentials path of
             Inl e \<Rightarrow> None
           | Inr auths \<Rightarrow> map_option (\<lambda>(u, p). \<lparr>Username = u, Password = p, AnonymousToken = False\<rparr>) (map_of auths registry))
      | AuthNotSet \<Rightarrow> None)"

lemma fold_update_lookup:
  "distinct (map fst xs) \<Longrightarrow>
    map_of (fold (\<lambda>(k, v) m. AList.update k v m) xs m) k =
      (case map_of xs k of Some v \<Rightarrow> Some v | None \<Rightarrow> map_of m k)"
proof (induction xs arbitrary: m)
  case (Cons x xs)
  then show ?case by (cases x) (auto simp: map_of_None_keys[symmetric] split: option.split)
qed simp

lemma auth_step_lookup:
  assumes "\<And>path auths. readCredentials path = Inr auths \<Longrightarrow> go_map auths"
    and "auth_step readCredentials c m = Inr m'"
  shows "map_of m' r = (case provided readCredentials c r of Some a \<Rightarrow> Some a | None \<Rightarrow> map_of m r)"
proof (cases c)
  case (CredentialsJsonPath path)
  then obtain auths where a: "readCredentials path = Inr auths"
    using assms(2) by (auto simp: auth_step_def loadCredentialsFromFile_def)
  let ?f = "\<lambda>(u, p). \<lparr>Username = u, Password = p, AnonymousToken = False\<rparr>"
  let ?xs = "map (\<lambda>(reg, u, p). (reg, \<lparr>Username = u, Password = p, AnonymousToken = False\<rparr>)) auths"
  have "map_of ?xs r = map_option ?f (map_of auths r)" by (induction auths) auto
  moreover have "distinct (map fst ?xs)"
    using assms(1)[OF a] by (simp add: go_map_def comp_def case_prod_unfold)
  moreover have "m' = fold (\<lambda>(registry, creds) m. AList.update registry creds m) ?xs m"
    using assms(2) a CredentialsJsonPath by (simp add: auth_step_def loadCredentialsFromFile_def)
  ultimately show ?thesis
    using a CredentialsJsonPath fold_update_lookup[of ?xs m r] by (simp add: provided_def split: option.split)
qed (use assms(2) in \<open>auto simp: auth_step_def provided_def split: if_splits\<close>)

text \<open>
  The credentials for a registry are those of the last configuration entry that has some for
  it; entries with an empty registry name have none, and a credentials file has those it lists.
\<close>

theorem last_credentials_win:
  assumes "\<And>path auths. readCredentials path = Inr auths \<Longrightarrow> go_map auths"
    and "ParseRegistryAuth readCredentials configs = Inr m"
  shows "map_of m r = (case filter (\<lambda>c. provided readCredentials c r \<noteq> None) configs of
      [] \<Rightarrow> None | cs \<Rightarrow> provided readCredentials (last cs) r)"
proof -
  have "map_of m' r = (case filter (\<lambda>c. provided readCredentials c r \<noteq> None) configs of
      [] \<Rightarrow> map_of m0 r | cs \<Rightarrow> provided readCredentials (last cs) r)"
    if "auth_loop readCredentials configs m0 = Inr m'" for m0 m'
    using that
  proof (induction configs arbitrary: m0)
    case (Cons c configs)
    then obtain m1 where m1: "auth_step readCredentials c m0 = Inr m1"
      and rest: "auth_loop readCredentials configs m1 = Inr m'" by auto
    show ?case
      using Cons.IH[OF rest] auth_step_lookup[OF assms(1) m1, where r = r]
      by (cases "provided readCredentials c r"; cases "filter (\<lambda>c. provided readCredentials c r \<noteq> None) configs")
        auto
  qed simp
  from this[of "[]" m] show ?thesis using assms(2) by (simp add: ParseRegistryAuth_def split: list.split)
qed

theorem last_credentials_win_witness:
  "map_of [(''b'', \<lparr>Username = ''u'', Password = ''p'', AnonymousToken = False\<rparr>)] ''b''
   = (case filter (\<lambda>c. provided (\<lambda>_. Inr []) c ''b'' \<noteq> None) [AuthAnonymous ''b'', AuthInline ''b'' ''u'' ''p''] of
      [] \<Rightarrow> None | cs \<Rightarrow> provided (\<lambda>_. Inr []) (last cs) ''b'')"
proof (rule last_credentials_win)
  show "ParseRegistryAuth (\<lambda>_. Inr []) [AuthAnonymous ''b'', AuthInline ''b'' ''u'' ''p'']
      = Inr [(''b'', \<lparr>Username = ''u'', Password = ''p'', AnonymousToken = False\<rparr>)]"
    by code_simp
qed auto

lemma foldl_add64:
  "0 \<le> a \<Longrightarrow> (\<And>x. x \<in> set xs \<Longrightarrow> 0 \<le> x) \<Longrightarrow> a + sum_list xs < 2 ^ 63 \<Longrightarrow> foldl add64 a xs = a + sum_list xs"
proof (induction xs arbitrary: a)
  case (Cons x xs)
  have "0 \<le> x" "0 \<le> sum_list xs" using Cons.prems(2) by (auto intro: sum_list_nonneg)
  then have "add64 a x = a + x" using Cons.prems(1,3) by (intro add64_exact) auto
  then show ?case using Cons.IH[of "a + x"] Cons.prems \<open>0 \<le> x\<close> by simp
qed simp

text \<open>
  With a positive limit, an image is accepted exactly when the sizes of its layers add up to
  at most the limit, provided the sum fits into 64 bits.
\<close>

theorem image_size_limit:
  assumes "maxImageSizeBytes p > 0" and "manifest_sizes img = Inr sizes"
    and "list_all (\<lambda>x. 0 \<le> x) sizes" and "sum_list sizes < 2 ^ 63"
  shows "validateImageSize p img = Inr () \<longleftrightarrow> sum_list sizes \<le> maxImageSizeBytes p"
  using assms foldl_add64[of 0 sizes] by (auto simp: validateImageSize_def total_size_def list_all_iff)

definition demo_image :: "int list \<Rightarrow> image" where
  "demo_image sizes = \<lparr>manifest_sizes = Inr sizes, image_layers = Inr []\<rparr>"

theorem image_size_limit_witness:
  "validateImageSize \<lparr>authConfig = [], maxImageSizeBytes = 100, pullTimeout = 0\<rparr> (demo_image [60, 40]) = Inr ()
   \<and> validateImageSize \<lparr>authConfig = [], maxImageSizeBytes = 100, pullTimeout = 0\<rparr> (demo_image [60, 41]) \<noteq> Inr ()"
  using image_size_limit[of "\<lparr>authConfig = [], maxImageSizeBytes = 100, pullTimeout = 0\<rparr>" "demo_image [60, 40]" "[60, 40]"]
    image_size_limit[of "\<lparr>authConfig = [], maxImageSizeBytes = 100, pullTimeout = 0\<rparr>" "demo_image [60, 41]" "[60, 41]"]
  by (simp add: demo_image_def)

text \<open>
  The sum of the layer sizes wraps around: a manifest whose sizes add up to \<open>2 ^ 63\<close> bytes
  passes the check against a limit of one byte.
\<close>

theorem image_size_check_overflows:
  "validateImageSize \<lparr>authConfig = [], maxImageSizeBytes = 1, pullTimeout = 0\<rparr>
     (demo_image [2 ^ 62, 2 ^ 62]) = Inr ()"
  by (simp add: validateImageSize_def demo_image_def total_size_def add64_def)

end
