(* ===== verification/Image_Upload.thy ===== *)
theory Image_Upload
  imports Build_User Cas_Upload Docker_Image
begin

text \<open>
  \<open>src/pkg/actionrouter/image_to_cas_uploader.go\<close>: an image is pulled, its layers are fed one
  after the other to the extractor, wrapped in the visitor that injects the build user, and the
  collected tree is uploaded. This theory composes the components before it; its theorem says
  what the storage contains below the digest the upload returns.
\<close>

section \<open>Definitions\<close>

text \<open>
  The uploader with its puller, the extractor's environment, the proto putter, and the function
  that flushes the batched uploads.
\<close>

record ('w, 'd) ImageToCASUploader =
  u_registry :: "('w, 'd) registry"
  u_puller :: ImagePuller
  u_blobs :: "'w upload_env"
  u_putProto :: "directory \<Rightarrow> ('w, digest) io"
  u_flush :: "('w, unit) io"
  u_buildUser :: UnixUser

definition NewImageToCasUploader ::
  "('w, 'd) registry \<Rightarrow> 'w upload_env \<Rightarrow> (directory \<Rightarrow> ('w, digest) io) \<Rightarrow> ('w, unit) io \<Rightarrow>
   ImagePuller \<Rightarrow> UnixUser \<Rightarrow> ('w, 'd) ImageToCASUploader"
where
  "NewImageToCasUploader reg blobs put flush puller buildUser =
     \<lparr>u_registry = reg, u_puller = puller, u_blobs = blobs, u_putProto = put, u_flush = flush,
      u_buildUser = buildUser\<rparr>"

text \<open>The loop over the layers; \<open>ctxErr i\<close> is what the context reports during layer \<open>i\<close>.\<close>

fun extract_layers ::
  "(nat \<Rightarrow> nat \<Rightarrow> go_error option) \<Rightarrow> 's visitor \<Rightarrow> nat \<Rightarrow> tar_next list res list \<Rightarrow> ('s, unit) io"
where
  "extract_layers ctxErr visitor i [] = io_pure (Inr ())"
| "extract_layers ctxErr visitor i (layer # layers) =
     io_bind (io_wrap (Wrap ''Failed to extract layer'' [])
                (ExtractAndVisitLayerContents (ctxErr i) layer visitor))
       (\<lambda>_. extract_layers ctxErr visitor (Suc i) layers)"

definition upload_layers ::
  "('w, 'd) ImageToCASUploader \<Rightarrow> (nat \<Rightarrow> nat \<Rightarrow> go_error option) \<Rightarrow> image \<Rightarrow> ('w, digest) io"
where
  "upload_layers u ctxErr img w =
     (case image_layers img of
        Inl e \<Rightarrow> (Inl (Wrap ''Failed to get image layers'' [] e), w)
      | Inr layers \<Rightarrow>
          (let visitor = BuildUserInjectingVisitor (CASUploadingLayerExtractor (u_blobs u)) (u_buildUser u)
           in case io_bind (extract_layers ctxErr visitor 0 layers)
                     (\<lambda>_. io_wrap (Wrap ''Failed to upload directories'' []) (UploadDirectories (u_putProto u)))
                     (newUploadDirState, w) of
                (r, (root, w')) \<Rightarrow> (r, w')))"

text \<open>
  The deferred calls run in reverse order: the pull's context is cancelled first, then the
  batched uploads are flushed, whatever happened before.
\<close>

definition uploadImageToCASImpl ::
  "('w, 'd) ImageToCASUploader \<Rightarrow> (nat \<Rightarrow> nat \<Rightarrow> go_error option) \<Rightarrow> string \<Rightarrow> ('w, digest) io"
where
  "uploadImageToCASImpl u ctxErr ref w =
     (let (ret, w1) =
        (case GetImageFromRef (u_registry u) (u_puller u) ref w of
           (Inl e, w1) \<Rightarrow> (Inl (Wrap ''Failed to pull image'' [] e), w1)
         | (Inr (img, cancel), w1) \<Rightarrow>
             (case upload_layers u ctxErr img w1 of (r, w2) \<Rightarrow> (r, cancel w2)))
      in case u_flush u w1 of
           (Inl e, w2) \<Rightarrow>
             (case ret of Inr _ \<Rightarrow> Inl (Wrap ''Failed to flush batched uploads to CAS'' [] e) | Inl e' \<Rightarrow> Inl e', w2)
         | (Inr _, w2) \<Rightarrow> (ret, w2))"

text \<open>\<open>UploadImageToCAS\<close> adds the duration metric and a log line.\<close>

definition UploadImageToCAS ::
  "('w, 'd) ImageToCASUploader \<Rightarrow> (nat \<Rightarrow> nat \<Rightarrow> go_error option) \<Rightarrow> string \<Rightarrow> ('w, digest) io"
where
  "UploadImageToCAS u ctxErr ref = uploadImageToCASImpl u ctxErr ref"

section \<open>The injected entries\<close>

text \<open>The tar entries as the wrapped visitor sees them.\<close>

definition inject_reader :: "UnixUser \<Rightarrow> tar_header \<Rightarrow> reader \<Rightarrow> reader res" where
  "inject_reader user h tr =
     (if hdr_typeflag h = TypeReg \<and> hdr_name h = ''etc/passwd''
        then setIDEntry tr (UID user) (Name user) (passwd_line user)
      else if hdr_typeflag h = TypeReg \<and> hdr_name h = ''etc/group''
        then setIDEntry tr (GID user) (Name user) (group_line user)
      else Inr tr)"

fun inject_entries :: "UnixUser \<Rightarrow> (tar_header \<times> reader) list \<Rightarrow> (tar_header \<times> reader) list res" where
  "inject_entries user [] = Inr []"
| "inject_entries user ((h, tr) # es) =
     rbind (inject_reader user h tr) (\<lambda>tr'. rbind (inject_entries user es) (\<lambda>es'. Inr ((h, tr') # es')))"

lemma visit_entry_inject:
  assumes "visit_entry (BuildUserInjectingVisitor v user) h tr s = (Inr (), s')"
  shows "\<exists>tr'. inject_reader user h tr = Inr tr' \<and> visit_entry v h tr' s = (Inr (), s')"
  using assms
  by (cases tr) (auto simp: visit_entry_def inject_reader_def BuildUserInjectingVisitor_def BuildUser_OnFileSeen_def
      split: typeflag.splits if_splits sum.splits)

lemma visit_all_inject:
  assumes "visit_all (BuildUserInjectingVisitor v user) es s = (Inr (), s')"
  shows "\<exists>es'. inject_entries user es = Inr es' \<and> visit_all v es' s = (Inr (), s')"
  using assms
proof (induction es arbitrary: s)
  case (Cons e es)
  obtain h tr where e: "e = (h, tr)" by (cases e)
  from Cons.prems[unfolded e] obtain s1 where
    v: "visit_entry (BuildUserInjectingVisitor v user) h tr s = (Inr (), s1)"
    and rest: "visit_all (BuildUserInjectingVisitor v user) es s1 = (Inr (), s')"
    by (auto elim!: io_bind_InrE)
  obtain tr' where "inject_reader user h tr = Inr tr'" "visit_entry v h tr' s = (Inr (), s1)"
    using visit_entry_inject[OF v] by blast
  moreover obtain es' where "inject_entries user es = Inr es'" "visit_all v es' s1 = (Inr (), s')"
    using Cons.IH[OF rest] by blast
  ultimately show ?case by (intro exI[of _ "(h, tr') # es'"]) (simp add: e io_bind_simps)
qed simp

section \<open>The effect of the layers\<close>

text \<open>The image as a change of the file system, layer by layer.\<close>

fun image_effect ::
  "(string \<Rightarrow> digest) \<Rightarrow> UnixUser \<Rightarrow> (tar_header \<times> reader) list list \<Rightarrow> fs \<Rightarrow> fs \<Rightarrow> bool"
where
  "image_effect dig user [] before after \<longleftrightarrow> after = before"
| "image_effect dig user (es # ess) before after \<longleftrightarrow>
     (\<exists>es' mid. inject_entries user es = Inr es' \<and> layer_effect dig es' before mid
        \<and> image_effect dig user ess mid after)"

abbreviation layer_entries :: "(tar_header \<times> reader) list \<Rightarrow> tar_next list res" where
  "layer_entries es \<equiv> Inr (map (\<lambda>(h, tr). TarEntry h tr) es)"

lemma extract_layer_effect:
  assumes dig: "uploads_digest env dig" and wf: "wf_ds root"
    and run: "ExtractAndVisitLayerContents ctxErr layer
      (BuildUserInjectingVisitor (CASUploadingLayerExtractor env) user) (root, w) = (Inr (), (root', w'))"
  shows "wf_ds root' \<and> no_hard root'
    \<and> (\<exists>es es'. layer = layer_entries es \<and> inject_entries user es = Inr es'
         \<and> layer_effect dig es' (lookup root) (lookup root'))"
proof -
  let ?c = "CASUploadingLayerExtractor env"
  let ?v = "BuildUserInjectingVisitor ?c user"
  from run obtain nexts root1 w1 where layer: "layer = Inr nexts"
    and tar: "processTar ctxErr ?v 0 nexts (root, w) = (Inr (), (root1, w1))"
    and fin: "onLayerComplete ?v (root1, w1) = (Inr (), (root', w'))"
    by (auto simp: ExtractAndVisitLayerContents_def elim!: io_bind_InrE split: sum.splits)
  obtain es where es: "nexts = map (\<lambda>(h, tr). TarEntry h tr) es"
    and seen: "visit_all ?v es (root, w) = (Inr (), (root1, w1))"
    using processTar_visits_all[OF tar] by blast
  obtain es' where inj: "inject_entries user es = Inr es'"
    and vis: "visit_all ?c es' (root, w) = (Inr (), (root1, w1))"
    using visit_all_inject[OF seen] by blast
  have "wf_state (snd (processTar ctxErr ?v 0 nexts (root, w)))"
    using io_keepsD[OF build_user_visitor.processTar_keeps, of "(root, w)" ctxErr env user 0 nexts] wf
    by (simp add: wf_state_def)
  then have wf1: "wf_ds root1" using tar by (simp add: wf_state_def)
  have "OnLayerComplete (root1, w1) = (Inr (), (root', w'))"
    using fin by (simp add: CASUploadingLayerExtractor_def BuildUserInjectingVisitor_def)
  from visited_layer[OF dig wf vis wf1 this] show ?thesis using layer es inj by blast
qed

lemma extract_layers_effect:
  assumes dig: "uploads_digest env dig" and "wf_ds root" and "no_hard root"
    and "extract_layers ctxErr (BuildUserInjectingVisitor (CASUploadingLayerExtractor env) user) i layers
      (root, w) = (Inr (), (root', w'))"
  shows "wf_ds root' \<and> no_hard root'
    \<and> (\<exists>ess. layers = map layer_entries ess \<and> image_effect dig user ess (lookup root) (lookup root'))"
  using assms(2-)
proof (induction layers arbitrary: i root w)
  case (Cons layer layers)
  from Cons.prems(3) obtain root1 w1 where
    l: "ExtractAndVisitLayerContents (ctxErr i) layer
      (BuildUserInjectingVisitor (CASUploadingLayerExtractor env) user) (root, w) = (Inr (), (root1, w1))"
    and rest: "extract_layers ctxErr (BuildUserInjectingVisitor (CASUploadingLayerExtractor env) user)
      (Suc i) layers (root1, w1) = (Inr (), (root', w'))"
    by (auto elim!: io_bind_InrE)
  obtain es es' where first: "wf_ds root1" "no_hard root1" "layer = layer_entries es"
    "inject_entries user es = Inr es'" "layer_effect dig es' (lookup root) (lookup root1)"
    using extract_layer_effect[OF dig Cons.prems(1) l] by blast
  obtain ess where "wf_ds root'" "no_hard root'" "layers = map layer_entries ess"
    "image_effect dig user ess (lookup root1) (lookup root')"
    using Cons.IH[OF first(1,2) rest] by blast
  then show ?case using first by (intro conjI exI[of _ "es # ess"]) auto
qed (auto intro!: exI[of _ "[]"])

section \<open>Properties\<close>

text \<open>Calls that may write to the storage but never lose a directory.\<close>

definition keeps_directories :: "('w \<Rightarrow> digest \<Rightarrow> directory option) \<Rightarrow> ('w \<Rightarrow> 'w) \<Rightarrow> bool" where
  "keeps_directories rd f \<longleftrightarrow> (\<forall>w. rd w \<subseteq>\<^sub>m rd (f w))"

lemma keeps_directories_le: "keeps_directories rd f \<Longrightarrow> rd w \<subseteq>\<^sub>m rd w' \<Longrightarrow> rd w \<subseteq>\<^sub>m rd (f w')"
  unfolding keeps_directories_def by (meson map_le_trans)

text \<open>
  What an upload has stored, for every later state of the storage: the message of the root has no
  name twice, and the tree below it is the image.
\<close>

lemma image_upload_readable:
  assumes "uploads_digest (u_blobs u) dig" and "stores_directories (u_putProto u) rd"
    and "keeps_directories rd (\<lambda>w. snd (u_flush u w))"
    and "keeps_directories rd (cancelPull (u_registry u))"
    and "UploadImageToCAS u ctxErr ref w = (Inr g, w')"
  obtains img cancel w1 ess fs m where "GetImageFromRef (u_registry u) (u_puller u) ref w = (Inr (img, cancel), w1)"
    and "image_layers img = Inr (map layer_entries ess)"
    and "image_effect dig (u_buildUser u) ess (lookup newUploadDirState) fs"
    and "rd w' g = Some m" and "distinct (entry_names m)"
    and "\<And>x. rd w' \<subseteq>\<^sub>m rd x \<Longrightarrow> cas_lookup (rd x) g = fs"
proof -
  let ?v = "BuildUserInjectingVisitor (CASUploadingLayerExtractor (u_blobs u)) (u_buildUser u)"
  obtain img cancel w1 w2 where pull: "GetImageFromRef (u_registry u) (u_puller u) ref w = (Inr (img, cancel), w1)"
    and up: "upload_layers u ctxErr img w1 = (Inr g, w2)" and w': "w' = snd (u_flush u (cancel w2))"
    using assms(5) unfolding UploadImageToCAS_def uploadImageToCASImpl_def Let_def
    by (auto split: prod.splits sum.splits)
  have cancel: "cancel = cancelPull (u_registry u) \<or> cancel = id"
    using pull by (auto simp: GetImageFromRef_def Let_def split: prod.splits sum.splits if_splits)
  obtain layers root w3 root' where layers: "image_layers img = Inr layers"
    and ext: "extract_layers ctxErr ?v 0 layers (newUploadDirState, w1) = (Inr (), (root, w3))"
    and dirs: "UploadDirectories (u_putProto u) (root, w3) = (Inr g, (root', w2))"
    using up unfolding upload_layers_def Let_def
    by (auto elim!: io_bind_InrE split: prod.splits sum.splits)
  have new: "wf_ds newUploadDirState" by (rule wf_new)
  have nh: "no_hard newUploadDirState" by (simp add: newUploadDirState_def)
  obtain ess where root: "wf_ds root" "no_hard root" "layers = map layer_entries ess"
    "image_effect dig (u_buildUser u) ess (lookup newUploadDirState) (lookup root)"
    using extract_layers_effect[OF assms(1) new nh ext] by blast
  have "upload (u_putProto u) root w3 = (Inr g, w2)"
    using dirs by (auto simp: UploadDirectories_def split: prod.splits sum.splits)
  note up = this
  have later: "rd w2 \<subseteq>\<^sub>m rd w'"
    using keeps_directories_le[OF assms(3)] assms(4) cancel unfolding w' keeps_directories_def by auto
  obtain m where "rd w2 g = Some m" "distinct (entry_names m)" using upload_message[OF assms(2) root(1) up] by blast
  moreover have "rd w' g = Some m" using calculation(1) later by (metis domI map_le_def)
  moreover have "cas_lookup (rd x) g = lookup root" if "rd w' \<subseteq>\<^sub>m rd x" for x
    using upload_readable[OF assms(2) root(1,2) up map_le_trans[OF later that]] .
  ultimately show thesis using that pull layers root(3,4) by blast
qed

text \<open>
  C5: After a successful upload the storage contains, below the digest that is returned, exactly
  the file system the image describes: the layers of the image the registry gave were all read
  to their end, and starting from an empty root each of them was applied, with directory
  creation, replacement, whiteouts and resolved hard links, and with the build user injected into
  \<open>etc/passwd\<close> and \<open>etc/group\<close>.
\<close>

theorem image_upload_stores_image:
  assumes "uploads_digest (u_blobs u) dig" and "stores_directories (u_putProto u) rd"
    and "keeps_directories rd (\<lambda>w. snd (u_flush u w))"
    and "keeps_directories rd (cancelPull (u_registry u))"
    and "UploadImageToCAS u ctxErr ref w = (Inr g, w')"
  shows "\<exists>img cancel w1 ess. GetImageFromRef (u_registry u) (u_puller u) ref w = (Inr (img, cancel), w1)
    \<and> image_layers img = Inr (map layer_entries ess)
    \<and> image_effect dig (u_buildUser u) ess (lookup newUploadDirState) (cas_lookup (rd w') g)"
  by (rule image_upload_readable[OF assms]) (metis map_le_refl)

text \<open>An image with two layers; the second one deletes a file of the first.\<close>

definition demo_two_layers :: image where
  "demo_two_layers = \<lparr>manifest_sizes = Inr [10, 5], image_layers = Inr
     [Inr [demo_entry TypeReg ''etc/passwd'' '''' ''root:x:0:0'', demo_entry TypeReg ''bin/sh'' '''' ''x''],
      Inr [demo_entry TypeReg ''bin/.wh.sh'' '''' '''']]\<rparr>"

definition demo_uploader :: "(directory list, unit) ImageToCASUploader" where
  "demo_uploader = NewImageToCasUploader
     \<lparr>parseReference = (\<lambda>s. Inr \<lparr>registryStr = ''r'', digestStr = s\<rparr>), remoteGet = (\<lambda>_ _ _. Pair (Inr ())),
      descImage = (\<lambda>_. Pair (Inr demo_two_layers)), cancelPull = id\<rparr>
     \<lparr>createTemp = Pair (Inr ''/tmp/casUpload1''), writeTemp = (\<lambda>_ _. Pair (Inr ())),
      removeTemp = (\<lambda>_. Pair (Inr ())), uploadBlob = (\<lambda>tf. Pair (Inr (demo_digest (tmp_data tf))))\<rparr>
     log_put (Pair (Inr ())) \<lparr>authConfig = [], maxImageSizeBytes = 100, pullTimeout = 60\<rparr> demo_user"

abbreviation demo_upload :: "digest res \<times> directory list" where
  "demo_upload \<equiv> UploadImageToCAS demo_uploader (\<lambda>_ _. None) ''img'' []"

theorem image_upload_stores_image_witness:
  "\<exists>g ess. fst demo_upload = Inr g \<and> image_layers demo_two_layers = Inr (map layer_entries ess)
     \<and> image_effect demo_digest demo_user ess (lookup newUploadDirState) (cas_lookup (log_read (snd demo_upload)) g)
     \<and> cas_lookup (log_read (snd demo_upload)) g [''bin'', ''sh''] = None"
proof -
  have g: "fst demo_upload = Inr \<lparr>hash = '''', size_bytes = 2\<rparr>" by code_simp
  then have run: "demo_upload = (Inr \<lparr>hash = '''', size_bytes = 2\<rparr>, snd demo_upload)" by (metis prod.collapse)
  have gone: "cas_lookup (log_read (snd demo_upload)) \<lparr>hash = '''', size_bytes = 2\<rparr> [''bin'', ''sh''] = None"
    by code_simp
  have laws: "uploads_digest (u_blobs demo_uploader) demo_digest" "stores_directories (u_putProto demo_uploader) log_read"
    "keeps_directories log_read (\<lambda>w. snd (u_flush demo_uploader w))"
    "keeps_directories log_read (cancelPull (u_registry demo_uploader))"
    using log_stores by (simp_all add: demo_uploader_def NewImageToCasUploader_def uploads_digest_def keeps_directories_def)
  have img: "GetImageFromRef (u_registry demo_uploader) (u_puller demo_uploader) ''img'' []
      = (Inr (demo_two_layers, id), [])"
    by (simp add: demo_uploader_def NewImageToCasUploader_def GetImageFromRef_def getImageFromRefImpl_def
        getAuthForRegistry_def validateImageSize_def total_size_def add64_def demo_two_layers_def io_bind_def io_wrap_def)
  have user: "u_buildUser demo_uploader = demo_user" by (simp add: demo_uploader_def NewImageToCasUploader_def)
  from image_upload_stores_image[OF laws run] show ?thesis
    unfolding img user using g gone by auto
qed

end
