(* ===== verification/Pipeline_State.thy ===== *)
theory Pipeline_State
  imports Rev2 "HOL-Library.Product_Lexorder"
begin

text \<open>
  The shared state of \<open>src/pkg/actionrouter/pipeline.go\<close>: the working state of one action, the
  lazily loaded command, and the templates of the configuration. The storage is the parameter
  \<open>storage\<close>. A parsed \<open>text/template\<close> is what it does when it is executed: it writes
  text, asks its data object for values and continues with the answers, or fails; every parsed
  template is such a tree, whatever control structures it uses.
\<close>

section \<open>Definitions\<close>

definition BazelInputRootDirectoryName :: string where
  "BazelInputRootDirectoryName = ''bazel_exec_root''"

record digest_function =
  instanceName :: string
  enumValue :: int

text \<open>
  The calls to other packages: parsing of a digest message, the two message readers, and the
  proto putter for the two kinds of messages the pipeline stores.
\<close>

record 'w storage =
  newDigestFromProto :: "digest_function \<Rightarrow> digest \<Rightarrow> digest res"
  readCommand :: "digest_function \<Rightarrow> digest \<Rightarrow> ('w, command) io"
  readDirectory :: "digest_function \<Rightarrow> digest \<Rightarrow> ('w, directory) io"
  putCommandProto :: "digest_function \<Rightarrow> command \<Rightarrow> ('w, digest) io"
  putDirectoryProto :: "digest_function \<Rightarrow> directory \<Rightarrow> ('w, digest) io"

text \<open>
  \<open>ps_command\<close> stands for the fields \<open>command\<close>, \<open>commandErr\<close> and \<open>commandLoaded\<close>: it is
  \<open>None\<close> until the command is loaded, then the command or the error.
\<close>

record 'w pipelineState =
  digestFunction :: digest_function
  ps_action :: action
  ps_command :: "command res option"
  ps_metadata :: "request_metadata option"
  commandChanged :: bool
  platformChanged :: bool
  world :: 'w

text \<open>A call to the storage, in the working state.\<close>

definition in_world :: "('w, 'a) io \<Rightarrow> ('w pipelineState, 'a) io" where
  "in_world m s = (case m (world s) of (r, w') \<Rightarrow> (r, s\<lparr>world := w'\<rparr>))"

definition loadCommand :: "'w storage \<Rightarrow> digest_function \<Rightarrow> action \<Rightarrow> ('w, command) io" where
  "loadCommand st df action w =
     (case newDigestFromProto st df (commandDigest action) of
        Inl e \<Rightarrow> (Inl (WrapWithCode InvalidArgument ''Failed to load Command digest: %v'' [] e), w)
      | Inr d \<Rightarrow>
          (case readCommand st df d w of
             (Inl e, w') \<Rightarrow> (Inl (WrapWithCode Internal ''Failed to fetch Command: %v'' [] e), w')
           | (Inr m, w') \<Rightarrow> (Inr m, w')))"

definition getCommand :: "'w storage \<Rightarrow> ('w pipelineState, command) io" where
  "getCommand st s =
     (case ps_command s of
        Some r \<Rightarrow> (r, s)
      | None \<Rightarrow>
          (case loadCommand st (digestFunction s) (ps_action s) (world s) of
             (r, w') \<Rightarrow> (r, s\<lparr>ps_command := Some r, world := w'\<rparr>)))"

text \<open>\<open>platformView.Get\<close>: the value of the first property with the name, or the empty string.\<close>

fun property_value :: "platform_property list \<Rightarrow> string \<Rightarrow> string" where
  "property_value [] name = ''''"
| "property_value (p # ps) name = (if prop_name p = name then prop_value p else property_value ps name)"

definition get_properties :: "platform option \<Rightarrow> platform_property list" where
  "get_properties p = (case p of None \<Rightarrow> [] | Some ps \<Rightarrow> ps)"

definition platform_get :: "action \<Rightarrow> string \<Rightarrow> string" where
  "platform_get action name = property_value (get_properties (action_platform action)) name"

datatype metadata_field =
  InvocationID | TargetLabel | ActionMnemonic | ConfigurationID | CorrelatedInvocationsID

definition metadata_value :: "metadata_field \<Rightarrow> request_metadata option \<Rightarrow> string" where
  "metadata_value f m =
     (case m of
        None \<Rightarrow> ''''
      | Some m \<Rightarrow>
          (case f of
             InvocationID \<Rightarrow> toolInvocationId m
           | TargetLabel \<Rightarrow> targetId m
           | ActionMnemonic \<Rightarrow> actionMnemonic m
           | ConfigurationID \<Rightarrow> configurationId m
           | CorrelatedInvocationsID \<Rightarrow> correlatedInvocationsId m))"

text \<open>The functions \<open>templateFuncs\<close> exposes, with the affix first.\<close>

definition template_trimPrefix :: "string \<Rightarrow> string \<Rightarrow> string" where
  "template_trimPrefix pre s = trim_prefix s pre"

definition template_trimSuffix :: "string \<Rightarrow> string \<Rightarrow> string" where
  "template_trimSuffix suf s = trim_suffix s suf"

datatype tmpl =
    Done
  | Emit string tmpl
  | AskPlatform string "string \<Rightarrow> tmpl"
  | AskWorkingDirectory "string \<Rightarrow> tmpl"
  | AskMetadata metadata_field "string \<Rightarrow> tmpl"
  | ExecFail go_error

text \<open>\<open>t.Execute\<close>; an error of a method of the data object aborts the execution.\<close>

primrec render :: "tmpl \<Rightarrow> 'w storage \<Rightarrow> ('w pipelineState, string) io" where
  "render Done st = (\<lambda>s. (Inr '''', s))"
| "render (Emit text k) st = (\<lambda>s. case render k st s of
     (Inl e, s') \<Rightarrow> (Inl e, s') | (Inr out, s') \<Rightarrow> (Inr (text @ out), s'))"
| "render (AskPlatform name k) st = (\<lambda>s. render (k (platform_get (ps_action s) name)) st s)"
| "render (AskWorkingDirectory k) st = (\<lambda>s. case getCommand st s of
     (Inl e, s') \<Rightarrow> (Inl (Wrap ''template'' [] e), s')
   | (Inr command, s') \<Rightarrow> render (k (workingDirectory command)) st s')"
| "render (AskMetadata f k) st = (\<lambda>s. render (k (metadata_value f (ps_metadata s))) st s)"
| "render (ExecFail e) st = (\<lambda>s. (Inl e, s))"

definition truthy :: "string \<Rightarrow> bool" where
  "truthy s = (to_lower (trim_space s) \<notin> {'''', ''false'', ''0''})"

text \<open>\<open>parse\<close> is the template parser.\<close>

definition parseTemplate :: "(string \<Rightarrow> tmpl res) \<Rightarrow> string \<Rightarrow> string \<Rightarrow> tmpl res" where
  "parseTemplate parse name text =
     (case parse text of
        Inl e \<Rightarrow> Inl (WrapWithCode InvalidArgument ''Invalid %s template %q: %v'' [name, text] e)
      | Inr t \<Rightarrow> Inr t)"

definition sortPlatform :: "platform option \<Rightarrow> platform option" where
  "sortPlatform p = map_option (sort_key (\<lambda>x. (prop_name x, prop_value x))) p"

definition sortEnvironment :: "command \<Rightarrow> command" where
  "sortEnvironment c = c\<lparr>environmentVariables := sort_key var_name (environmentVariables c)\<rparr>"

definition putCommand :: "'w storage \<Rightarrow> digest_function \<Rightarrow> command \<Rightarrow> ('w, digest) io" where
  "putCommand st df command =
     io_wrap (WrapWithCode Internal ''Failed to store Command to CAS: %v'' []) (putCommandProto st df command)"

section \<open>What rendering does to the state\<close>

text \<open>Rendering loads the command or leaves the state alone; it changes nothing else.\<close>

definition command_loaded :: "'w storage \<Rightarrow> 'w pipelineState \<Rightarrow> 'w pipelineState" where
  "command_loaded st s = snd (getCommand st s)"

lemma getCommand_result: "getCommand st s = (r, s') \<Longrightarrow> ps_command s' = Some r"
  by (auto simp: getCommand_def split: option.splits prod.splits)

lemma command_loaded_simps [simp]:
  "ps_action (command_loaded st s) = ps_action s" "ps_metadata (command_loaded st s) = ps_metadata s"
  "commandChanged (command_loaded st s) = commandChanged s"
  "platformChanged (command_loaded st s) = platformChanged s"
  "digestFunction (command_loaded st s) = digestFunction s"
  "command_loaded st (command_loaded st s) = command_loaded st s"
  by (auto simp: command_loaded_def getCommand_def split: option.splits prod.splits)

lemma getCommand_loaded: "getCommand st s = (r, s') \<Longrightarrow> s' = command_loaded st s"
  by (simp add: command_loaded_def)

lemma command_loaded_id: "ps_command s = Some r \<Longrightarrow> command_loaded st s = s \<and> getCommand st s = (r, s)"
  by (simp add: command_loaded_def getCommand_def)

lemma render_state:
  "snd (render t st s) = s \<or> snd (render t st s) = command_loaded st s"
proof (induction t arbitrary: s)
  case (AskWorkingDirectory k)
  show ?case
  proof (cases "getCommand st s")
    case (Pair r s')
    then have s': "s' = command_loaded st s" by (rule getCommand_loaded)
    show ?thesis
    proof (cases r)
      case (Inr c)
      then show ?thesis using Pair AskWorkingDirectory.IH[OF rangeI, of "workingDirectory c" s'] s' by auto
    qed (use Pair s' in simp)
  qed
next
  case (Emit x k)
  then show ?case using Emit[of s] by (cases "render k st s") (auto split: sum.splits)
qed auto

lemma render_frame [simp]:
  "ps_action (snd (render t st s)) = ps_action s" "ps_metadata (snd (render t st s)) = ps_metadata s"
  "commandChanged (snd (render t st s)) = commandChanged s"
  "platformChanged (snd (render t st s)) = platformChanged s"
  "digestFunction (snd (render t st s)) = digestFunction s"
  using render_state[of t st s] by auto

text \<open>With a loaded command rendering is a pure function of the data object.\<close>

primrec tmpl_value :: "tmpl \<Rightarrow> action \<Rightarrow> request_metadata option \<Rightarrow> command res \<Rightarrow> string res" where
  "tmpl_value Done a m c = Inr ''''"
| "tmpl_value (Emit text k) a m c = rbind (tmpl_value k a m c) (\<lambda>out. Inr (text @ out))"
| "tmpl_value (AskPlatform name k) a m c = tmpl_value (k (platform_get a name)) a m c"
| "tmpl_value (AskWorkingDirectory k) a m c =
     (case c of Inl e \<Rightarrow> Inl (Wrap ''template'' [] e)
      | Inr command \<Rightarrow> tmpl_value (k (workingDirectory command)) a m c)"
| "tmpl_value (AskMetadata f k) a m c = tmpl_value (k (metadata_value f m)) a m c"
| "tmpl_value (ExecFail e) a m c = Inl e"

lemma render_loaded:
  "ps_command s = Some c \<Longrightarrow> render t st s = (tmpl_value t (ps_action s) (ps_metadata s) c, s)"
proof (induction t arbitrary: s)
  case (Emit x k)
  then show ?case by (auto split: sum.splits)
next
  case (AskWorkingDirectory k)
  then show ?case by (auto simp: command_loaded_id split: sum.splits)
qed auto

lemma render_value:
  assumes "getCommand st s = (c, s')"
  shows "fst (render t st s) = tmpl_value t (ps_action s) (ps_metadata s) c"
  using assms
proof (induction t arbitrary: s)
  case (Emit x k)
  then have "fst (render k st s) = tmpl_value k (ps_action s) (ps_metadata s) c" by blast
  then show ?case by (cases "render k st s") (auto split: sum.splits)
next
  case (AskWorkingDirectory k)
  have "ps_command s' = Some c" "ps_action s' = ps_action s" "ps_metadata s' = ps_metadata s"
    using AskWorkingDirectory.prems getCommand_result getCommand_loaded by fastforce+
  then show ?case
    using AskWorkingDirectory.prems render_loaded[of s' c] by (auto split: sum.splits)
qed auto

end
