(* ===== verification/Ref_Store.thy ===== *)
theory Ref_Store
  imports Build_User Pipeline_State
begin

text \<open>
  \<open>src/pkg/blobstore/action_cache_ref_store.go\<close>: the mapping from image references to root
  directory digests, kept in the action cache. The key is the digest of an \<open>Action\<close> message
  that is made up for the purpose. The action cache, the serialisation of messages and the digest
  function are parameters.
\<close>

section \<open>Definitions\<close>

text \<open>The fields of the made-up \<open>Action\<close> that are set.\<close>

record cache_key =
  key_commandDigest :: digest
  key_platform :: platform

record action_result =
  stderrDigest :: "digest option"

text \<open>
  \<open>marshal\<close> is \<open>proto.Marshal\<close>, \<open>sumDigest\<close> the digest generator of the digest function
  (its \<open>Write\<close> may fail), \<open>acGet\<close> and \<open>acPut\<close> the action cache.
\<close>

record 'w ref_env =
  marshal :: "cache_key \<Rightarrow> string res"
  sumDigest :: "digest_function \<Rightarrow> string \<Rightarrow> digest res"
  acGet :: "digest \<Rightarrow> ('w, action_result) io"
  acPut :: "digest \<Rightarrow> action_result \<Rightarrow> ('w, unit) io"

definition cacheKey :: "UnixUser \<Rightarrow> string \<Rightarrow> cache_key" where
  "cacheKey buildUser ref =
     \<lparr>key_commandDigest =
        \<lparr>hash = ''d0c4e70ac0000000000000000000000000000000000000000000000000000000'', size_bytes = 0\<rparr>,
      key_platform = [\<lparr>prop_name = ''container-image'', prop_value = ref\<rparr>,
                      \<lparr>prop_name = ''build-user'', prop_value = UnixUser_String buildUser\<rparr>]\<rparr>"

definition computeCacheKeyDigest ::
  "'w ref_env \<Rightarrow> UnixUser \<Rightarrow> string \<Rightarrow> digest_function \<Rightarrow> digest res"
where
  "computeCacheKeyDigest env buildUser ref df =
     rbind (wrap_err (Wrap ''Failed to marshal cache key'' []) (marshal env (cacheKey buildUser ref)))
       (\<lambda>cacheKeyData.
          wrap_err (Wrap ''Failed to generate cache key digest'' []) (sumDigest env df cacheKeyData))"

definition RefStore_Put ::
  "'w ref_env \<Rightarrow> UnixUser \<Rightarrow> string \<Rightarrow> digest \<Rightarrow> digest_function \<Rightarrow> ('w, unit) io"
where
  "RefStore_Put env buildUser ref rootDir df =
     io_bind (io_pure (computeCacheKeyDigest env buildUser ref df)) (\<lambda>cacheKeyDigest.
       io_wrap (Wrap ''Failed to store action result'' [])
         (acPut env cacheKeyDigest \<lparr>stderrDigest = Some rootDir\<rparr>))"

definition RefStore_Get ::
  "'w ref_env \<Rightarrow> UnixUser \<Rightarrow> string \<Rightarrow> digest_function \<Rightarrow> ('w, digest) io"
where
  "RefStore_Get env buildUser ref df =
     io_bind (io_pure (computeCacheKeyDigest env buildUser ref df)) (\<lambda>cacheKeyDigest.
       io_bind (io_wrap (\<lambda>e. if status_code e = NotFound
                   then Errorf NotFound ''Cache entry not found for ref %s'' [ref]
                   else Wrap ''Failed to get action result'' [] e)
                 (acGet env cacheKeyDigest)) (\<lambda>actionResult.
         io_pure (case stderrDigest actionResult of
            None \<Rightarrow> Inl (Errorf Internal ''Cache entry for ref %s has no output directory'' [ref])
          | Some d \<Rightarrow> Inr d)))"

section \<open>Keys\<close>

text \<open>A number is determined by its decimal form, and a user by its string.\<close>

lemma show_nat_inject: "show_nat m = show_nat n \<Longrightarrow> m = n"
  by (metis digits_val_show_nat)

lemma show_int_inject: "show_int i = show_int j \<Longrightarrow> i = j"
proof -
  have "show_nat m \<noteq> CHR ''-'' # s" for m s
    using show_nat_hd[of m] by (metis is_digit_chars(1) list.sel(1))
  then show "show_int i = show_int j \<Longrightarrow> i = j"
    by (auto simp: show_int_def dest!: show_nat_inject split: if_splits) metis
qed

lemma split_last_char:
  assumes "a @ c # b = a' @ c # b'" and "c \<notin> set b" and "c \<notin> set b'"
  shows "a = a' \<and> b = b'"
proof -
  have "rev b @ c # rev a = rev b' @ c # rev a'" using arg_cong[OF assms(1), of rev] by simp
  then have "rev b = rev b'" and "c # rev a = c # rev a'"
    using takeWhile_sep[of c "rev b" "rev a"] takeWhile_sep[of c "rev b'" "rev a'"]
      dropWhile_sep[of c "rev b" "rev a"] dropWhile_sep[of c "rev b'" "rev a'"] assms(2,3)
    by (metis set_rev)+
  then show ?thesis by simp
qed

lemma UnixUser_String_inject: "UnixUser_String u = UnixUser_String v \<Longrightarrow> u = v"
proof -
  assume eq: "UnixUser_String u = UnixUser_String v"
  have no: "CHR '':'' \<notin> set (show_int i)" for i by (rule show_int_no_char) simp_all
  have "(Name u @ '':x:'' @ show_int (UID u)) @ CHR '':'' # show_int (GID u)
      = (Name v @ '':x:'' @ show_int (UID v)) @ CHR '':'' # show_int (GID v)"
    using eq by (simp add: UnixUser_String_def)
  from split_last_char[OF this no no] have "show_int (GID u) = show_int (GID v)"
    and "Name u @ '':x:'' @ show_int (UID u) = Name v @ '':x:'' @ show_int (UID v)" by blast+
  then have g: "GID u = GID v" and
    e: "(Name u @ '':x'') @ CHR '':'' # show_int (UID u) = (Name v @ '':x'') @ CHR '':'' # show_int (UID v)"
    by (simp_all add: show_int_inject)
  then have "UID u = UID v" and "Name u @ '':x'' = Name v @ '':x''"
    using split_last_char[OF e no no] show_int_inject by blast+
  then show "u = v" using g by (cases u; cases v) simp
qed

section \<open>Properties\<close>

text \<open>
  C34: Two image references or two build users never share a cache key: the message whose digest
  is the key determines the reference and all fields of the user.
\<close>

theorem cache_key_injective:
  "cacheKey u ref = cacheKey v ref' \<longleftrightarrow> u = v \<and> ref = ref'"
  using UnixUser_String_inject[of u v] by (auto simp: cacheKey_def)

text \<open>
  What the store relies on of the action cache: a result that was put can be read back under its
  key.
\<close>

definition reads_back :: "'w ref_env \<Rightarrow> bool" where
  "reads_back env \<longleftrightarrow>
     (\<forall>d r w w'. acPut env d r w = (Inr (), w') \<longrightarrow> (\<exists>w''. acGet env d w' = (Inr r, w'')))"

text \<open>
  C33: Reading the store after a root digest was stored under an image reference, with the same
  build user and digest function, gives that root digest.
\<close>

theorem ref_store_round_trip:
  assumes "reads_back env" and "RefStore_Put env u ref rootDir df w = (Inr (), w')"
  shows "\<exists>w''. RefStore_Get env u ref df w' = (Inr rootDir, w'')"
proof -
  from assms(2) obtain k where k: "computeCacheKeyDigest env u ref df = Inr k"
    and p: "acPut env k \<lparr>stderrDigest = Some rootDir\<rparr> w = (Inr (), w')"
    by (auto simp: RefStore_Put_def elim!: io_bind_InrE)
  obtain w'' where "acGet env k w' = (Inr \<lparr>stderrDigest = Some rootDir\<rparr>, w'')"
    using assms(1) p unfolding reads_back_def by blast
  then show ?thesis
    using k by (auto simp: RefStore_Get_def io_bind_def io_wrap_def)
qed

text \<open>An action cache for the witness: a list of entries, the latest first.\<close>

definition demo_ref_env :: "(digest \<times> action_result) list ref_env" where
  "demo_ref_env = \<lparr>marshal = (\<lambda>k. Inr (concat (map prop_value (key_platform k)))),
     sumDigest = (\<lambda>df s. Inr (demo_digest s)),
     acGet = (\<lambda>d w. (case map_of w d of Some r \<Rightarrow> Inr r | None \<Rightarrow> Inl (Errorf NotFound ''no'' []), w)),
     acPut = (\<lambda>d r w. (Inr (), (d, r) # w))\<rparr>"

theorem ref_store_round_trip_witness:
  "\<exists>w''. RefStore_Get demo_ref_env demo_user ''img'' \<lparr>instanceName = '''', enumValue = 1\<rparr>
     (snd (RefStore_Put demo_ref_env demo_user ''img'' (demo_digest ''root'')
        \<lparr>instanceName = '''', enumValue = 1\<rparr> [])) = (Inr (demo_digest ''root''), w'')"
proof (rule ref_store_round_trip)
  show "reads_back demo_ref_env" by (simp add: reads_back_def demo_ref_env_def)
  show "RefStore_Put demo_ref_env demo_user ''img'' (demo_digest ''root'')
      \<lparr>instanceName = '''', enumValue = 1\<rparr> [] = (Inr (), snd (RefStore_Put demo_ref_env demo_user
        ''img'' (demo_digest ''root'') \<lparr>instanceName = '''', enumValue = 1\<rparr> []))"
    by (simp add: RefStore_Put_def computeCacheKeyDigest_def demo_ref_env_def io_wrap_def)
qed

end
