(* ===== verification/Dir_Verifier.thy ===== *)
theory Dir_Verifier
  imports Cas_Upload Pipeline_State
begin

text \<open>
  \<open>src/pkg/blobstore/dir_tree_verifier.go\<close>: the check that a directory tree is complete in the
  storage. The recursion follows the digests of the directories; it ends because a directory
  message cannot contain the digest of a message that contains it. In the model the recursion
  has a depth bound, the result at depth 0 is \<open>None\<close>, and the termination theorem says
  which depth is enough.
\<close>

section \<open>Definitions\<close>

text \<open>
  \<open>fetchCDC\<close> is the fetcher of the chunking parameters, \<open>findMissing\<close> the function
  \<open>cas.FindMissing\<close> on the digests of a set.
\<close>

record 'w verify_env =
  v_newDigest :: "digest_function \<Rightarrow> digest \<Rightarrow> digest res"
  v_readDirectory :: "digest \<Rightarrow> ('w, directory) io"
  fetchCDC :: "string \<Rightarrow> ('w, unit) io"
  findMissing :: "digest list \<Rightarrow> ('w, digest list) io"

text \<open>The loop that parses the digests of the files; the set builder keeps every digest once.\<close>

fun file_digests :: "'w verify_env \<Rightarrow> digest_function \<Rightarrow> file_node list \<Rightarrow> digest list \<Rightarrow> digest list res" where
  "file_digests env df [] acc = Inr acc"
| "file_digests env df (f # fs) acc =
     (case v_newDigest env df (file_digest f) of
        Inl e \<Rightarrow> Inl (Wrap ''Failed to extract digest for file'' [] e)
      | Inr d \<Rightarrow> file_digests env df fs (List.insert d acc))"

definition verifyFiles :: "'w verify_env \<Rightarrow> digest_function \<Rightarrow> file_node list \<Rightarrow> ('w, unit) io" where
  "verifyFiles env df fs =
     (if fs = [] then io_pure (Inr ())
      else io_bind (io_pure (file_digests env df fs [])) (\<lambda>digests.
        io_bind (io_wrap (Wrap ''Failed to fetch CDC parameters'' []) (fetchCDC env (instanceName df))) (\<lambda>_.
          io_bind (io_wrap (Wrap ''Failed to check for missing files'' []) (findMissing env digests)) (\<lambda>missing.
            io_pure (if missing \<noteq> [] then Inl (Errorf NotFound ''Missing child digests in directory'' [])
                     else Inr ())))))"

text \<open>The loop over the subdirectories, for the verifier of one of them.\<close>

fun verify_subDirs ::
  "(digest \<Rightarrow> 'w \<Rightarrow> (unit res \<times> 'w) option) \<Rightarrow> directory_node list \<Rightarrow> 'w \<Rightarrow> (unit res \<times> 'w) option"
where
  "verify_subDirs verify [] w = Some (Inr (), w)"
| "verify_subDirs verify (n # ns) w =
     (case verify (dir_digest n) w of
        None \<Rightarrow> None
      | Some (Inl e, w') \<Rightarrow> Some (Inl e, w')
      | Some (Inr _, w') \<Rightarrow> verify_subDirs verify ns w')"

fun verifyDirectory ::
  "nat \<Rightarrow> 'w verify_env \<Rightarrow> digest_function \<Rightarrow> digest \<Rightarrow> 'w \<Rightarrow> (unit res \<times> 'w) option"
where
  "verifyDirectory 0 env df raw w = None"
| "verifyDirectory (Suc depth) env df raw w =
     (case v_newDigest env df raw of
        Inl e \<Rightarrow> Some (Inl (Wrap ''Failed to load directory digest'' [] e), w)
      | Inr d \<Rightarrow>
          (case v_readDirectory env d w of
             (Inl e, w1) \<Rightarrow> Some (Inl (Wrap ''Failed to get directory with digest %s'' [hash d] e), w1)
           | (Inr directory, w1) \<Rightarrow>
               (case (if dir_files directory \<noteq> [] then verifyFiles env df (dir_files directory) w1
                      else (Inr (), w1)) of
                  (Inl e, w2) \<Rightarrow> Some (Inl e, w2)
                | (Inr _, w2) \<Rightarrow>
                    verify_subDirs (verifyDirectory depth env df) (dir_directories directory) w2)))"

text \<open>
  \<open>Verify\<close> also observes the duration. \<open>depth\<close> is the number of frames the goroutine's stack
  has room for; a deeper recursion is a fatal error of the Go runtime.
\<close>

definition stack_overflow :: go_error where
  "stack_overflow = Errorf Internal ''stack overflow'' []"

definition Verify :: "nat \<Rightarrow> 'w verify_env \<Rightarrow> digest_function \<Rightarrow> digest \<Rightarrow> ('w, unit) io" where
  "Verify depth env df raw w =
     (case verifyDirectory depth env df raw w of Some r \<Rightarrow> r | None \<Rightarrow> (Inl stack_overflow, w))"

section \<open>A complete tree\<close>

text \<open>
  The storage as the verifier sees it does not change while it reads; \<open>dirs\<close> and \<open>blobs\<close>
  are what it contains. A digest message parses to itself.
\<close>

definition static_storage ::
  "'w verify_env \<Rightarrow> (digest \<Rightarrow> directory option) \<Rightarrow> (digest \<Rightarrow> bool) \<Rightarrow> bool"
where
  "static_storage env dirs blobs \<longleftrightarrow>
     (\<forall>df d. v_newDigest env df d = Inr d)
   \<and> (\<forall>d w. snd (v_readDirectory env d w) = w
        \<and> (case dirs d of Some m \<Rightarrow> fst (v_readDirectory env d w) = Inr m
           | None \<Rightarrow> \<exists>e. fst (v_readDirectory env d w) = Inl e \<and> status_code e = NotFound))
   \<and> (\<forall>i w. fetchCDC env i w = (Inr (), w))
   \<and> (\<forall>ds w. findMissing env ds w = (Inr (filter (\<lambda>d. \<not> blobs d) ds), w))"

text \<open>
  Everything below a digest is in the storage: all directories, and all blobs of their files.
\<close>

inductive complete :: "(digest \<Rightarrow> directory option) \<Rightarrow> (digest \<Rightarrow> bool) \<Rightarrow> digest \<Rightarrow> bool"
  for dirs :: "digest \<Rightarrow> directory option" and blobs :: "digest \<Rightarrow> bool"
where
  "dirs d = Some m \<Longrightarrow> list_all (\<lambda>f. blobs (file_digest f)) (dir_files m) \<Longrightarrow>
   (\<And>n. n \<in> set (dir_directories m) \<Longrightarrow> complete dirs blobs (dir_digest n)) \<Longrightarrow> complete dirs blobs d"

inductive_cases completeE: "complete dirs blobs d"

text \<open>\<open>height\<close> bounds the depth of the tree: it decreases from a directory to its subdirectories.\<close>

definition ranked :: "(digest \<Rightarrow> directory option) \<Rightarrow> (digest \<Rightarrow> nat) \<Rightarrow> bool" where
  "ranked dirs height \<longleftrightarrow>
     (\<forall>d m n. dirs d = Some m \<longrightarrow> n \<in> set (dir_directories m) \<longrightarrow> height (dir_digest n) < height d)"

lemma file_digests_set:
  assumes "\<And>df d. v_newDigest env df d = Inr d"
  shows "\<exists>ds. file_digests env df fs acc = Inr ds \<and> set ds = set acc \<union> file_digest ` set fs"
proof (induction fs arbitrary: acc)
  case (Cons f fs)
  show ?case using Cons[of "List.insert (file_digest f) acc"] by (auto simp: assms)
qed simp

lemma static_read:
  assumes "static_storage env dirs blobs"
  shows "case dirs d of Some m \<Rightarrow> v_readDirectory env d w = (Inr m, w)
    | None \<Rightarrow> \<exists>e. v_readDirectory env d w = (Inl e, w) \<and> status_code e = NotFound"
proof -
  have "snd (v_readDirectory env d w) = w \<and> (case dirs d of Some m \<Rightarrow> fst (v_readDirectory env d w) = Inr m
      | None \<Rightarrow> \<exists>e. fst (v_readDirectory env d w) = Inl e \<and> status_code e = NotFound)"
    using assms unfolding static_storage_def by blast
  then show ?thesis by (cases "v_readDirectory env d w") (auto split: option.splits)
qed

lemma verifyFiles_static:
  assumes "static_storage env dirs blobs"
  shows "verifyFiles env df fs w =
    (if list_all (\<lambda>f. blobs (file_digest f)) fs then Inr ()
     else Inl (Errorf NotFound ''Missing child digests in directory'' []), w)"
proof -
  obtain ds where ds: "file_digests env df fs [] = Inr ds" "set ds = file_digest ` set fs"
    using file_digests_set[of env df fs "[]"] assms by (auto simp: static_storage_def)
  have "filter (\<lambda>d. \<not> blobs d) ds = [] \<longleftrightarrow> list_all (\<lambda>f. blobs (file_digest f)) fs"
    by (auto simp: filter_empty_conv list_all_iff ds(2))
  then show ?thesis
    using assms ds(1) by (auto simp: verifyFiles_def static_storage_def io_bind_def io_wrap_def)
qed

text \<open>The outcome of the recursion, given enough depth.\<close>

definition verdict :: "bool \<Rightarrow> unit res \<Rightarrow> bool" where
  "verdict ok r \<longleftrightarrow> (case r of Inr _ \<Rightarrow> ok | Inl e \<Rightarrow> \<not> ok \<and> status_code e = NotFound)"

lemma verify_subDirs_verdict:
  assumes "\<And>n. n \<in> set ns \<Longrightarrow> \<exists>r. verify (dir_digest n) w = Some (r, w) \<and> verdict (P (dir_digest n)) r"
  shows "\<exists>r. verify_subDirs verify ns w = Some (r, w) \<and> verdict (\<forall>n\<in>set ns. P (dir_digest n)) r"
  using assms
proof (induction ns)
  case (Cons n ns)
  obtain r where "verify (dir_digest n) w = Some (r, w)" "verdict (P (dir_digest n)) r"
    using Cons.prems[of n] by auto
  with Cons show ?case by (cases r) (auto simp: verdict_def)
qed (simp add: verdict_def)

lemma verifyDirectory_verdict:
  assumes st: "static_storage env dirs blobs" and rk: "ranked dirs height"
  shows "height d < depth \<Longrightarrow>
    \<exists>r. verifyDirectory depth env df d w = Some (r, w) \<and> verdict (complete dirs blobs d) r"
proof (induction depth arbitrary: d)
  case (Suc depth)
  show ?case
  proof (cases "dirs d")
    case None
    then obtain e where "v_readDirectory env d w = (Inl e, w)" "status_code e = NotFound"
      using static_read[OF st, of d w] by auto
    moreover have "\<not> complete dirs blobs d" using None by (auto elim: completeE)
    ultimately show ?thesis using st by (simp add: static_storage_def verdict_def)
  next
    case (Some m)
    then have rd: "v_readDirectory env d w = (Inr m, w)"
      using static_read[OF st, of d w] by simp
    have nd: "v_newDigest env df d = Inr d" using st by (simp add: static_storage_def)
    have comp: "complete dirs blobs d \<longleftrightarrow> list_all (\<lambda>f. blobs (file_digest f)) (dir_files m)
        \<and> (\<forall>n\<in>set (dir_directories m). complete dirs blobs (dir_digest n))"
      using Some by (auto elim: completeE intro: complete.intros)
    have "\<exists>r. verify_subDirs (verifyDirectory depth env df) (dir_directories m) w = Some (r, w)
        \<and> verdict (\<forall>n\<in>set (dir_directories m). complete dirs blobs (dir_digest n)) r"
    proof (rule verify_subDirs_verdict)
      fix n assume "n \<in> set (dir_directories m)"
      then have "height (dir_digest n) < depth"
        using rk Some Suc.prems unfolding ranked_def by (meson less_Suc_eq_le less_le_trans)
      then show "\<exists>r. verifyDirectory depth env df (dir_digest n) w = Some (r, w)
          \<and> verdict (complete dirs blobs (dir_digest n)) r" by (rule Suc.IH)
    qed
    then obtain r where r: "verify_subDirs (verifyDirectory depth env df) (dir_directories m) w = Some (r, w)"
      "verdict (\<forall>n\<in>set (dir_directories m). complete dirs blobs (dir_digest n)) r" by blast
    have files: "(if dir_files m \<noteq> [] then verifyFiles env df (dir_files m) w else (Inr (), w)) =
        (if list_all (\<lambda>f. blobs (file_digest f)) (dir_files m) then Inr ()
         else Inl (Errorf NotFound ''Missing child digests in directory'' []), w)"
      by (simp add: verifyFiles_static[OF st])
    show ?thesis
    proof (cases "list_all (\<lambda>f. blobs (file_digest f)) (dir_files m)")
      case True
      then have "verifyDirectory (Suc depth) env df d w = Some (r, w)"
        using r(1) rd nd files by (simp)
      then show ?thesis using r(2) True unfolding comp by (intro exI[of _ r]) simp
    next
      case False
      then show ?thesis using rd nd files comp by (simp add: verdict_def)
    qed
  qed
qed simp

section \<open>Properties\<close>


definition demo_key :: "int \<Rightarrow> digest" where
  "demo_key i = \<lparr>hash = '''', size_bytes = i\<rparr>"

text \<open>A storage with a root, one subdirectory and one file, and the same without the file.\<close>

definition demo_dirs :: "digest \<Rightarrow> directory option" where
  "demo_dirs d =
     (if d = demo_key 0 then Some \<lparr>dir_files = [], dir_directories = [\<lparr>dir_name = ''bin'', dir_digest = demo_key 1\<rparr>],
        dir_symlinks = []\<rparr>
      else if d = demo_key 1 then Some \<lparr>dir_files = [\<lparr>file_name = ''sh'', file_digest = demo_key 2,
        isExecutable = True\<rparr>], dir_directories = [], dir_symlinks = []\<rparr>
      else None)"

definition demo_verify :: "(digest \<Rightarrow> bool) \<Rightarrow> unit verify_env" where
  "demo_verify blobs = \<lparr>v_newDigest = (\<lambda>_. Inr),
     v_readDirectory = (\<lambda>d w. (case demo_dirs d of Some m \<Rightarrow> Inr m | None \<Rightarrow> Inl (Errorf NotFound ''no'' []), w)),
     fetchCDC = (\<lambda>_. Pair (Inr ())), findMissing = (\<lambda>ds. Pair (Inr (filter (\<lambda>d. \<not> blobs d) ds)))\<rparr>"


end
