(* ===== verification/Operations.thy ===== *)
theory Operations
  imports Pipeline_State
begin

text \<open>
  \<open>src/pkg/actionrouter/operations.go\<close>: the operations that check and rewrite the platform
  properties, the argument vector and the environment of an action. Each \<open>apply\<close> method is a
  function of the working state; the constructors, which read the configuration, are in
  \<open>Pipeline\<close> together with the datatype of operations.
\<close>

section \<open>Definitions: platform properties\<close>

text \<open>A compiled regular expression: its source text and the strings it matches.\<close>

record regex =
  rx_source :: string
  rx_match :: "string \<Rightarrow> bool"

definition assert_apply :: "string \<Rightarrow> regex \<Rightarrow> ('w pipelineState, unit) io" where
  "assert_apply pname rx s =
     (let value = platform_get (ps_action s) pname
      in if \<not> rx_match rx value
         then (Inl (Errorf InvalidArgument ''Platform property %q value %q does not match %q''
                 [pname, value, rx_source rx]), s)
         else (Inr (), s))"

text \<open>The loop of \<open>mapPlatformPropertyOp\<close>: the new properties and whether one was replaced.\<close>

fun map_properties ::
  "string \<Rightarrow> (string, string) gomap \<Rightarrow> platform_property list \<Rightarrow> platform_property list \<times> bool"
where
  "map_properties pname repl [] = ([], False)"
| "map_properties pname repl (p # ps) =
     (case map_properties pname repl ps of (ps', changed) \<Rightarrow>
        if prop_name p \<noteq> pname then (p # ps', changed)
        else (case map_of repl (prop_value p) of
                Some v \<Rightarrow> (p\<lparr>prop_value := v\<rparr> # ps', True)
              | None \<Rightarrow> (p # ps', changed)))"

definition set_platform :: "platform option \<Rightarrow> 'w pipelineState \<Rightarrow> 'w pipelineState" where
  "set_platform p s = s\<lparr>ps_action := (ps_action s)\<lparr>action_platform := p\<rparr>\<rparr>"

definition map_apply :: "string \<Rightarrow> (string, string) gomap \<Rightarrow> ('w pipelineState, unit) io" where
  "map_apply pname repl s =
     (case action_platform (ps_action s) of
        None \<Rightarrow> (Inr (), s)
      | Some ps \<Rightarrow>
          (case map_properties pname repl ps of (ps', changed) \<Rightarrow>
             (Inr (), (set_platform (Some ps') s)\<lparr>platformChanged := platformChanged s \<or> changed\<rparr>)))"

text \<open>The loop over the additions; a later template sees the properties added before.\<close>

fun add_properties :: "(string \<times> tmpl) list \<Rightarrow> 'w storage \<Rightarrow> ('w pipelineState, unit) io" where
  "add_properties [] st = io_pure (Inr ())"
| "add_properties ((name, t) # add) st =
     io_bind (io_wrap (WrapWithCode Internal ''Failed to render property %q value: %v'' [name]) (render t st))
       (\<lambda>value s. add_properties add st
          (set_platform (Some (get_properties (action_platform (ps_action s))
             @ [\<lparr>prop_name = name, prop_value = value\<rparr>])) s))"

definition editPlatform_apply ::
  "string list \<Rightarrow> (string \<times> tmpl) list \<Rightarrow> 'w storage \<Rightarrow> ('w pipelineState, unit) io"
where
  "editPlatform_apply remove add st s =
     (let props = get_properties (action_platform (ps_action s));
          kept = (if remove \<noteq> [] then filter (\<lambda>p. prop_name p \<notin> set remove) props else props)
      in io_bind (add_properties add st)
           (\<lambda>_ s'. (Inr (), s'\<lparr>platformChanged := True\<rparr>))
           (set_platform (Some kept) s))"

section \<open>Definitions: the command\<close>

definition set_command :: "command \<Rightarrow> 'w pipelineState \<Rightarrow> 'w pipelineState" where
  "set_command c s = s\<lparr>ps_command := Some (Inr c)\<rparr>"

fun renderArguments :: "tmpl list \<Rightarrow> 'w storage \<Rightarrow> ('w pipelineState, string list) io" where
  "renderArguments [] st = io_pure (Inr [])"
| "renderArguments (t # ts) st =
     io_bind (io_wrap (WrapWithCode Internal ''Failed to render command argument: %v'' []) (render t st))
       (\<lambda>value. io_bind (renderArguments ts st)
          (\<lambda>args. io_pure (Inr (if value \<noteq> '''' then value # args else args))))"

definition editCommand_apply :: "tmpl list \<Rightarrow> tmpl list \<Rightarrow> 'w storage \<Rightarrow> ('w pipelineState, unit) io" where
  "editCommand_apply pre app st =
     io_bind (getCommand st) (\<lambda>command.
       io_bind (renderArguments pre st) (\<lambda>preArgs.
         io_bind (renderArguments app st) (\<lambda>appArgs s.
           (Inr (), (set_command (command\<lparr>arguments := preArgs @ arguments command @ appArgs\<rparr>) s)
                      \<lparr>commandChanged := True\<rparr>))))"

text \<open>The loop over the map \<open>set\<close>, in the order in which Go visits it.\<close>

fun set_variables :: "(string, tmpl) gomap \<Rightarrow> 'w storage \<Rightarrow> command \<Rightarrow> ('w pipelineState, command) io" where
  "set_variables [] st command = io_pure (Inr command)"
| "set_variables ((name, t) # rest) st command =
     io_bind (io_wrap (WrapWithCode Internal ''Failed to render environment variable %q: %v'' [name]) (render t st))
       (\<lambda>value s.
          let command' = command\<lparr>environmentVariables := environmentVariables command
                @ [\<lparr>var_name = name, var_value = value\<rparr>]\<rparr>
          in set_variables rest st command' (set_command command' s))"

definition kept_variables :: "string list \<Rightarrow> (string, tmpl) gomap \<Rightarrow> env_var list \<Rightarrow> env_var list" where
  "kept_variables remove sets vars =
     filter (\<lambda>v. var_name v \<notin> set remove \<and> map_of sets (var_name v) = None) vars"

definition editEnvironment_apply ::
  "string list \<Rightarrow> (string, tmpl) gomap \<Rightarrow> 'w storage \<Rightarrow> ('w pipelineState, unit) io"
where
  "editEnvironment_apply remove sets st =
     io_bind (getCommand st) (\<lambda>command s.
       let command' = command\<lparr>environmentVariables := kept_variables remove sets (environmentVariables command)\<rparr>
       in io_bind (set_variables sets st command')
            (\<lambda>_ s'. (Inr (), s'\<lparr>commandChanged := True\<rparr>))
            (set_command command' s))"

section \<open>Checking and mapping properties\<close>

lemma map_properties_fst:
  "fst (map_properties pname repl ps) =
     map (\<lambda>p. if prop_name p = pname then p\<lparr>prop_value := (case map_of repl (prop_value p) of
        Some v \<Rightarrow> v | None \<Rightarrow> prop_value p)\<rparr> else p) ps"
  by (induction ps) (auto split: prod.splits option.splits)

lemma map_properties_snd:
  "snd (map_properties pname repl ps) \<longleftrightarrow>
     (\<exists>p\<in>set ps. prop_name p = pname \<and> map_of repl (prop_value p) \<noteq> None)"
  by (induction ps) (auto split: prod.splits option.splits)

lemma map_properties_unchanged:
  "\<not> snd (map_properties pname repl ps) \<Longrightarrow> fst (map_properties pname repl ps) = ps"
  unfolding map_properties_fst map_properties_snd by (intro map_idI) auto

lemma set_platform_simps [simp]:
  "ps_command (set_platform p s) = ps_command s" "ps_metadata (set_platform p s) = ps_metadata s"
  "commandChanged (set_platform p s) = commandChanged s"
  "platformChanged (set_platform p s) = platformChanged s"
  "digestFunction (set_platform p s) = digestFunction s" "world (set_platform p s) = world s"
  "ps_action (set_platform p s) = (ps_action s)\<lparr>action_platform := p\<rparr>"
  "set_platform q (set_platform p s) = set_platform q s"
  "set_platform (action_platform (ps_action s)) s = s"
  by (simp_all add: set_platform_def)

lemma set_command_simps [simp]:
  "ps_command (set_command c s) = Some (Inr c)" "ps_metadata (set_command c s) = ps_metadata s"
  "commandChanged (set_command c s) = commandChanged s"
  "platformChanged (set_command c s) = platformChanged s"
  "digestFunction (set_command c s) = digestFunction s" "world (set_command c s) = world s"
  "ps_action (set_command c s) = ps_action s" "set_command d (set_command c s) = set_command d s"
  by (simp_all add: set_command_def)

section \<open>Rendering with a loaded command\<close>

text \<open>Templates see of the command its working directory only.\<close>

lemma tmpl_value_working_directory:
  "workingDirectory c = workingDirectory c' \<Longrightarrow> tmpl_value t a m (Inr c) = tmpl_value t a m (Inr c')"
  by (induction t) auto

fun argument_values :: "tmpl list \<Rightarrow> (tmpl \<Rightarrow> string res) \<Rightarrow> string list res" where
  "argument_values [] val = Inr []"
| "argument_values (t # ts) val =
     rbind (wrap_err (WrapWithCode Internal ''Failed to render command argument: %v'' []) (val t))
       (\<lambda>v. rbind (argument_values ts val) (\<lambda>vs. Inr (if v \<noteq> '''' then v # vs else vs)))"

lemma renderArguments_loaded:
  "ps_command s = Some c \<Longrightarrow>
    renderArguments ts st s = (argument_values ts (\<lambda>t. tmpl_value t (ps_action s) (ps_metadata s) c) , s)"
  by (induction ts)
    (auto simp: io_bind_def io_wrap_def render_loaded wrap_err_def split: sum.splits)

lemma argument_values_ok:
  "argument_values ts val = Inr args \<Longrightarrow>
    args = filter (\<lambda>v. v \<noteq> '''') (map (\<lambda>t. case val t of Inr v \<Rightarrow> v | Inl e \<Rightarrow> '''') ts)
    \<and> (\<forall>t\<in>set ts. \<not> isl (val t))"
  by (induction ts arbitrary: args) (auto simp: rbind_Inr_iff)

lemma map_of_map_snd: "map_of (map (\<lambda>x. (fst x, f (snd x))) m) n = map_option f (map_of m n)"
  by (induction m) auto

text \<open>The variables the loop over \<open>set\<close> appends.\<close>

fun variable_values :: "(string, tmpl) gomap \<Rightarrow> (tmpl \<Rightarrow> string res) \<Rightarrow> env_var list res" where
  "variable_values [] val = Inr []"
| "variable_values ((name, t) # rest) val =
     rbind (wrap_err (WrapWithCode Internal ''Failed to render environment variable %q: %v'' [name]) (val t))
       (\<lambda>v. rbind (variable_values rest val) (\<lambda>vs. Inr (\<lparr>var_name = name, var_value = v\<rparr> # vs)))"

lemma set_variables_loaded:
  assumes "ps_command s = Some (Inr c)"
  shows "fst (set_variables sets st c s) =
      rbind (variable_values sets (\<lambda>t. tmpl_value t (ps_action s) (ps_metadata s) (Inr c)))
        (\<lambda>vs. Inr (c\<lparr>environmentVariables := environmentVariables c @ vs\<rparr>))
    \<and> (\<forall>c'. fst (set_variables sets st c s) = Inr c' \<longrightarrow>
         snd (set_variables sets st c s) = set_command c' s)"
  using assms
proof (induction sets arbitrary: c s)
  case Nil
  then show ?case by (auto simp: set_command_def)
next
  case (Cons x sets)
  obtain name t where x: "x = (name, t)" by (cases x)
  let ?val = "\<lambda>d t. tmpl_value t (ps_action s) (ps_metadata s) (Inr d)"
  show ?case
  proof (cases "?val c t")
    case (Inl e)
    then show ?thesis
      using Cons.prems x by (simp add: io_bind_def io_wrap_def render_loaded)
  next
    case (Inr v)
    let ?c = "c\<lparr>environmentVariables := environmentVariables c @ [\<lparr>var_name = name, var_value = v\<rparr>]\<rparr>"
    have "?val ?c = ?val c" by (intro ext tmpl_value_working_directory) simp
    moreover have "set_variables (x # sets) st c s = set_variables sets st ?c (set_command ?c s)"
      using Cons.prems x Inr by (simp add: io_bind_def io_wrap_def render_loaded Let_def)
    ultimately show ?thesis
      using Cons.IH[of "set_command ?c s" ?c] x Inr
      by (cases "variable_values sets (?val c)") (simp_all add: fun_eq_iff)
  qed
qed

lemma variable_values_ok:
  "variable_values sets val = Inr vs \<longleftrightarrow>
    (\<forall>x\<in>set sets. \<not> isl (val (snd x))) \<and>
    vs = map (\<lambda>x. \<lparr>var_name = fst x, var_value = projr (val (snd x))\<rparr>) sets"
proof (induction sets arbitrary: vs)
  case (Cons x sets)
  then show ?case
    by (cases x; cases "val (snd x)") (auto simp: rbind_Inr_iff)
qed auto

section \<open>The edited command\<close>

lemma getCommand_frame:
  assumes "getCommand st s = (c, s1)"
  shows "ps_command s1 = Some c" and "ps_action s1 = ps_action s" and "ps_metadata s1 = ps_metadata s"
    and "platformChanged s1 = platformChanged s" and "commandChanged s1 = commandChanged s"
    and "digestFunction s1 = digestFunction s"
  using getCommand_result[OF assms] getCommand_loaded[OF assms] by auto

lemma editCommand_spec:
  assumes "getCommand st s = (Inr c, s1)"
  shows "editCommand_apply pre app st s =
    (let val = (\<lambda>t. tmpl_value t (ps_action s) (ps_metadata s) (Inr c))
     in case rbind (argument_values pre val) (\<lambda>p. rbind (argument_values app val) (\<lambda>a. Inr (p, a))) of
          Inl e \<Rightarrow> (Inl e, s1)
        | Inr (p, a) \<Rightarrow> (Inr (), (set_command (c\<lparr>arguments := p @ arguments c @ a\<rparr>) s1)\<lparr>commandChanged := True\<rparr>))"
  using getCommand_frame[OF assms] assms
  by (simp add: editCommand_apply_def io_bind_def renderArguments_loaded Let_def split: sum.split)

lemma editEnvironment_spec:
  assumes "getCommand st s = (Inr c, s1)"
  shows "case variable_values sets (\<lambda>t. tmpl_value t (ps_action s) (ps_metadata s) (Inr c)) of
      Inl e \<Rightarrow> fst (editEnvironment_apply remove sets st s) = Inl e
    | Inr vs \<Rightarrow> editEnvironment_apply remove sets st s = (Inr (), (set_command (c\<lparr>environmentVariables :=
          kept_variables remove sets (environmentVariables c) @ vs\<rparr>) s1)\<lparr>commandChanged := True\<rparr>)"
proof -
  let ?c = "c\<lparr>environmentVariables := kept_variables remove sets (environmentVariables c)\<rparr>"
  let ?s = "set_command ?c s1"
  note fr = getCommand_frame[OF assms]
  have run: "editEnvironment_apply remove sets st s =
      io_bind (set_variables sets st ?c) (\<lambda>_ s'. (Inr (), s'\<lparr>commandChanged := True\<rparr>)) ?s"
    using assms by (simp add: editEnvironment_apply_def io_bind_def[of "getCommand st"] Let_def)
  have val: "tmpl_value t (ps_action s) (ps_metadata s) (Inr ?c)
      = tmpl_value t (ps_action s) (ps_metadata s) (Inr c)" for t
    by (rule tmpl_value_working_directory) simp
  show ?thesis
    using set_variables_loaded[of ?s ?c sets st] unfolding run val
    by (cases "set_variables sets st ?c ?s") (auto simp: fr val io_bind_def split: sum.splits)
qed

section \<open>Added properties\<close>

lemma getCommand_set_platform:
  "getCommand st s = (c, s1) \<Longrightarrow> getCommand st (set_platform p s) = (c, set_platform p s1)"
  by (auto simp: getCommand_def loadCommand_def set_platform_def split: option.splits prod.splits)

definition property_list :: "(string \<times> tmpl) list \<Rightarrow> string list \<Rightarrow> platform_property list" where
  "property_list add vals = map2 (\<lambda>x v. \<lparr>prop_name = fst x, prop_value = v\<rparr>) add vals"

text \<open>Every addition is rendered against the properties as they are when its turn comes.\<close>

lemma add_properties_run:
  assumes "getCommand st s = (c, s1)" and "action_platform (ps_action s) = Some ps"
    and "add_properties add st s = (Inr (), s')"
  shows "\<exists>vals. length vals = length add
    \<and> ps_action s' = (ps_action s)\<lparr>action_platform := Some (ps @ property_list add vals)\<rparr>
    \<and> (ps_command s' = ps_command s \<or> ps_command s' = Some c) \<and> commandChanged s' = commandChanged s
    \<and> ps_metadata s' = ps_metadata s
    \<and> (\<forall>i<length add. tmpl_value (snd (add ! i))
          ((ps_action s)\<lparr>action_platform := Some (ps @ take i (property_list add vals))\<rparr>)
          (ps_metadata s) c = Inr (vals ! i))"
  using assms
proof (induction add arbitrary: s s1 ps)
  case Nil
  then show ?case by (auto simp: property_list_def intro!: exI[of _ "[]"] action.equality)
next
  case (Cons x add)
  obtain name t where x: "x = (name, t)" by (cases x)
  obtain v s2 where v: "render t st s = (Inr v, s2)"
    and rest: "add_properties add st (set_platform (Some (get_properties (action_platform (ps_action s2))
          @ [\<lparr>prop_name = name, prop_value = v\<rparr>])) s2) = (Inr (), s')"
    using Cons.prems(3) unfolding x add_properties.simps by (auto elim!: io_bind_InrE)
  note fr1 = getCommand_frame[OF Cons.prems(1)]
  have s2: "s2 = s \<or> s2 = s1"
    using render_state[of t st s] v getCommand_loaded[OF Cons.prems(1)] by auto
  then have fr: "ps_action s2 = ps_action s" "ps_metadata s2 = ps_metadata s"
    "commandChanged s2 = commandChanged s" "ps_command s2 = ps_command s \<or> ps_command s2 = Some c"
    using fr1 by auto
  have val: "tmpl_value t (ps_action s) (ps_metadata s) c = Inr v"
    using render_value[OF Cons.prems(1), of t] v by simp
  define p where "p = \<lparr>prop_name = name, prop_value = v\<rparr>"
  let ?s = "set_platform (Some (ps @ [p])) s2"
  have "getCommand st s2 = (c, s1)"
    using s2 Cons.prems(1) command_loaded_id[OF fr1(1)] by auto
  then have "getCommand st ?s = (c, set_platform (Some (ps @ [p])) s1)" by (rule getCommand_set_platform)
  moreover have "action_platform (ps_action ?s) = Some (ps @ [p])" by simp
  moreover have "add_properties add st ?s = (Inr (), s')"
    using rest fr Cons.prems(2) by (simp add: get_properties_def p_def)
  ultimately obtain vals where vals: "length vals = length add"
    "ps_action s' = (ps_action ?s)\<lparr>action_platform := Some ((ps @ [p]) @ property_list add vals)\<rparr>"
    "ps_command s' = ps_command ?s \<or> ps_command s' = Some c" "commandChanged s' = commandChanged ?s"
    "ps_metadata s' = ps_metadata ?s"
    "\<And>i. i < length add \<Longrightarrow> tmpl_value (snd (add ! i))
        ((ps_action ?s)\<lparr>action_platform := Some ((ps @ [p]) @ take i (property_list add vals))\<rparr>)
        (ps_metadata ?s) c = Inr (vals ! i)"
    using Cons.IH by blast
  have pl: "property_list (x # add) (v # vals) = p # property_list add vals"
    by (simp add: property_list_def p_def x)
  have now: "(ps_action s)\<lparr>action_platform := Some ps\<rparr> = ps_action s"
    using Cons.prems(2) by (cases "ps_action s") simp
  have "tmpl_value (snd ((x # add) ! i))
      ((ps_action s)\<lparr>action_platform := Some (ps @ take i (property_list (x # add) (v # vals)))\<rparr>)
      (ps_metadata s) c = Inr ((v # vals) ! i)" if "i < length (x # add)" for i
    using that val vals(6) now fr unfolding pl by (cases i) (auto simp: x)
  then show ?case
    using vals(1-5) fr unfolding pl[symmetric]
    by (intro exI[of _ "v # vals"]) (auto simp: pl)
qed

section \<open>Properties\<close>

text \<open>
  The check of a platform property accepts exactly the actions whose value, the first one of
  that name or the empty string, matches, and changes nothing; the mapping replaces the values
  of that name that have a replacement, keeps all others, and reports a change exactly when it
  replaced a value.
\<close>

theorem assert_and_map_properties:
  "(fst (assert_apply pname rx s) = Inr () \<longleftrightarrow> rx_match rx (platform_get (ps_action s) pname))
   \<and> snd (assert_apply pname rx s) = s
   \<and> fst (map_apply pname repl s) = Inr ()
   \<and> action_platform (ps_action (snd (map_apply pname repl s)))
       = map_option (map (\<lambda>p. if prop_name p = pname then p\<lparr>prop_value := (case map_of repl (prop_value p) of
            Some v \<Rightarrow> v | None \<Rightarrow> prop_value p)\<rparr> else p)) (action_platform (ps_action s))
   \<and> platformChanged (snd (map_apply pname repl s)) = (platformChanged s \<or>
       (\<exists>p\<in>set (get_properties (action_platform (ps_action s))).
          prop_name p = pname \<and> map_of repl (prop_value p) \<noteq> None))
   \<and> ps_command (snd (map_apply pname repl s)) = ps_command s"
  by (cases "action_platform (ps_action s)")
    (simp_all add: assert_apply_def map_apply_def Let_def get_properties_def case_prod_unfold
      map_properties_fst map_properties_snd)

text \<open>
  Editing the platform removes every property with a listed name, keeps the others in their
  order, and then adds one property per addition, in order, with the value its template renders
  to when the properties added before are already there. The command is not changed.
\<close>

theorem edit_platform_properties:
  assumes "editPlatform_apply remove add st s = (Inr (), s')"
  shows "\<exists>vals. length vals = length add
    \<and> ps_action s' = (ps_action s)\<lparr>action_platform := Some (
         filter (\<lambda>p. prop_name p \<notin> set remove) (get_properties (action_platform (ps_action s)))
         @ map2 (\<lambda>x v. \<lparr>prop_name = fst x, prop_value = v\<rparr>) add vals)\<rparr>
    \<and> (\<forall>i<length add. tmpl_value (snd (add ! i)) ((ps_action s)\<lparr>action_platform := Some (
         filter (\<lambda>p. prop_name p \<notin> set remove) (get_properties (action_platform (ps_action s)))
         @ take i (map2 (\<lambda>x v. \<lparr>prop_name = fst x, prop_value = v\<rparr>) add vals))\<rparr>)
         (ps_metadata s) (fst (getCommand st s)) = Inr (vals ! i))
    \<and> platformChanged s' \<and> commandChanged s' = commandChanged s
    \<and> ps_command s' \<in> {ps_command s, Some (fst (getCommand st s))}"
proof -
  define kept where "kept = filter (\<lambda>p. prop_name p \<notin> set remove) (get_properties (action_platform (ps_action s)))"
  have kept: "(if remove \<noteq> [] then filter (\<lambda>p. prop_name p \<notin> set remove)
      (get_properties (action_platform (ps_action s))) else get_properties (action_platform (ps_action s))) = kept"
    by (simp add: kept_def)
  obtain c s1 where c: "getCommand st s = (c, s1)" by fastforce
  obtain s2 where run: "add_properties add st (set_platform (Some kept) s) = (Inr (), s2)"
    and s': "s' = s2\<lparr>platformChanged := True\<rparr>"
    using assms unfolding editPlatform_apply_def Let_def kept by (auto elim!: io_bind_InrE)
  show ?thesis
    using add_properties_run[OF getCommand_set_platform[OF c] _ run, of kept] c s'
    unfolding kept_def[symmetric] property_list_def by auto
qed

text \<open>Templates for the witnesses: a constant text, and the value of a platform property.\<close>

definition text_tmpl :: "string \<Rightarrow> tmpl" where
  "text_tmpl t = Emit t Done"

definition property_tmpl :: "string \<Rightarrow> tmpl" where
  "property_tmpl n = AskPlatform n (\<lambda>v. Emit v Done)"

definition demo_command :: command where
  "demo_command = \<lparr>arguments = [''cc'', ''a.c''], environmentVariables =
     [\<lparr>var_name = ''PATH'', var_value = ''/bin''\<rparr>, \<lparr>var_name = ''HOME'', var_value = ''/root''\<rparr>],
     workingDirectory = ''src''\<rparr>"

definition demo_storage :: "unit storage" where
  "demo_storage = \<lparr>newDigestFromProto = (\<lambda>_. Inr), readCommand = (\<lambda>_ _. Pair (Inr demo_command)),
     readDirectory = (\<lambda>_ _. Pair (Inl (Errorf NotFound ''not found'' []))),
     putCommandProto = (\<lambda>_ _. Pair (Inr \<lparr>hash = ''c'', size_bytes = 1\<rparr>)),
     putDirectoryProto = (\<lambda>_ _. Pair (Inr \<lparr>hash = ''d'', size_bytes = 1\<rparr>))\<rparr>"

definition demo_state :: "unit pipelineState" where
  "demo_state = \<lparr>digestFunction = \<lparr>instanceName = '''', enumValue = 1\<rparr>,
     ps_action = \<lparr>commandDigest = \<lparr>hash = ''c0'', size_bytes = 9\<rparr>,
       inputRootDigest = \<lparr>hash = ''r0'', size_bytes = 9\<rparr>,
       action_platform = Some [\<lparr>prop_name = ''OS'', prop_value = ''linux''\<rparr>,
         \<lparr>prop_name = ''image'', prop_value = ''x''\<rparr>]\<rparr>,
     ps_command = None, ps_metadata = None, commandChanged = False, platformChanged = False,
     world = ()\<rparr>"

theorem edit_platform_properties_witness:
  "\<exists>vals. length vals = 2
    \<and> ps_action (snd (editPlatform_apply [''image''] [(''a'', text_tmpl ''1''), (''b'', property_tmpl ''a'')]
         demo_storage demo_state)) = (ps_action demo_state)\<lparr>action_platform := Some (
         [\<lparr>prop_name = ''OS'', prop_value = ''linux''\<rparr>]
         @ map2 (\<lambda>x v. \<lparr>prop_name = fst x, prop_value = v\<rparr>)
             [(''a'', text_tmpl ''1''), (''b'', property_tmpl ''a'')] vals)\<rparr>"
proof -
  let ?r = "editPlatform_apply [''image''] [(''a'', text_tmpl ''1''), (''b'', property_tmpl ''a'')]
         demo_storage demo_state"
  have "fst ?r = Inr ()" by code_simp
  then have r: "?r = (Inr (), snd ?r)" by (metis prod.collapse)
  have k: "filter (\<lambda>p. prop_name p \<notin> set [''image'']) (get_properties (action_platform (ps_action demo_state)))
      = [\<lparr>prop_name = ''OS'', prop_value = ''linux''\<rparr>]" by code_simp
  from edit_platform_properties[OF r] obtain vals where
    "length vals = length [(''a'', text_tmpl ''1''), (''b'', property_tmpl ''a'')]"
    "ps_action (snd ?r) = (ps_action demo_state)\<lparr>action_platform := Some (
         [\<lparr>prop_name = ''OS'', prop_value = ''linux''\<rparr>]
         @ map2 (\<lambda>x v. \<lparr>prop_name = fst x, prop_value = v\<rparr>)
             [(''a'', text_tmpl ''1''), (''b'', property_tmpl ''a'')] vals)\<rparr>"
    unfolding k by blast
  then show ?thesis by (intro exI[of _ vals]) simp
qed

text \<open>
  Editing the command puts the rendered templates around the argument vector: what the
  prepended templates render to, then the original arguments, then what the appended ones render
  to, without those that render to the empty string; nothing else of the command and nothing of
  the action changes.
\<close>

theorem edit_command_arguments:
  assumes "editCommand_apply pre app st s = (Inr (), s')"
  shows "\<exists>c. fst (getCommand st s) = Inr c
    \<and> ps_command s' = Some (Inr (c\<lparr>arguments :=
         filter (\<lambda>v. v \<noteq> '''') (map (\<lambda>t. projr (tmpl_value t (ps_action s) (ps_metadata s) (Inr c))) pre)
         @ arguments c
         @ filter (\<lambda>v. v \<noteq> '''') (map (\<lambda>t. projr (tmpl_value t (ps_action s) (ps_metadata s) (Inr c))) app)\<rparr>))
    \<and> list_all (\<lambda>t. \<not> isl (tmpl_value t (ps_action s) (ps_metadata s) (Inr c))) (pre @ app)
    \<and> commandChanged s' \<and> ps_action s' = ps_action s"
proof -
  obtain r s1 where g: "getCommand st s = (r, s1)" by fastforce
  then obtain c where r: "r = Inr c"
    using assms by (auto simp: editCommand_apply_def elim!: io_bind_InrE)
  let ?val = "\<lambda>t. tmpl_value t (ps_action s) (ps_metadata s) (Inr c)"
  obtain p a where pa: "argument_values pre ?val = Inr p" "argument_values app ?val = Inr a"
    and s': "s' = (set_command (c\<lparr>arguments := p @ arguments c @ a\<rparr>) s1)\<lparr>commandChanged := True\<rparr>"
    using assms editCommand_spec[OF g[unfolded r], of pre app]
    by (auto simp: Let_def rbind_Inr_iff rbind_Inl_iff split: sum.splits)
  have eq: "(case x of Inr v \<Rightarrow> v | Inl e \<Rightarrow> '''') = projr x" if "\<not> isl x" for x :: "string res"
    using that by (cases x) auto
  have "p = filter (\<lambda>v. v \<noteq> '''') (map (\<lambda>t. projr (?val t)) pre)"
    "a = filter (\<lambda>v. v \<noteq> '''') (map (\<lambda>t. projr (?val t)) app)"
    using argument_values_ok[OF pa(1)] argument_values_ok[OF pa(2)]
    by (auto intro!: arg_cong[of _ _ "filter (\<lambda>v. v \<noteq> '''')"] simp: eq)
  moreover have "list_all (\<lambda>t. \<not> isl (?val t)) (pre @ app)"
    using argument_values_ok[OF pa(1)] argument_values_ok[OF pa(2)] by (auto simp: list_all_iff)
  ultimately show ?thesis
    using g r s' getCommand_frame(2)[OF g] by (intro exI[of _ c]) simp
qed

theorem edit_command_arguments_witness:
  "\<exists>c. ps_command (snd (editCommand_apply [text_tmpl ''wrap'', property_tmpl ''none''] [property_tmpl ''OS'']
       demo_storage demo_state)) = Some (Inr c) \<and> arguments c = [''wrap'', ''cc'', ''a.c'', ''linux'']"
proof -
  let ?r = "editCommand_apply [text_tmpl ''wrap'', property_tmpl ''none''] [property_tmpl ''OS'']
    demo_storage demo_state"
  have "fst ?r = Inr ()" by code_simp
  then have r: "?r = (Inr (), snd ?r)" by (metis prod.collapse)
  have "fst (getCommand demo_storage demo_state) = Inr demo_command" by code_simp
  then show ?thesis
    using edit_command_arguments[OF r]
    by (auto simp: text_tmpl_def property_tmpl_def demo_state_def demo_command_def platform_get_def
        get_properties_def)
qed

text \<open>
  C30: After editing the environment a variable has the value its template renders to when it is
  in \<open>set\<close>, is gone when it is in \<open>remove\<close> only, and otherwise is as it was; nothing else of the
  command changes.
\<close>

theorem edit_environment_variables:
  assumes "editEnvironment_apply remove sets st s = (Inr (), s')"
  shows "\<exists>c c'. fst (getCommand st s) = Inr c \<and> ps_command s' = Some (Inr c') \<and> commandChanged s'
    \<and> ps_action s' = ps_action s \<and> arguments c' = arguments c \<and> workingDirectory c' = workingDirectory c
    \<and> (\<forall>n. map_of (map (\<lambda>v. (var_name v, var_value v)) (environmentVariables c')) n =
         (case map_of sets n of
            Some t \<Rightarrow> Some (projr (tmpl_value t (ps_action s) (ps_metadata s) (Inr c)))
          | None \<Rightarrow> if n \<in> set remove then None
                   else map_of (map (\<lambda>v. (var_name v, var_value v)) (environmentVariables c)) n))"
proof -
  obtain r s1 where g: "getCommand st s = (r, s1)" by fastforce
  then obtain c where r: "r = Inr c"
    using assms by (auto simp: editEnvironment_apply_def elim!: io_bind_InrE)
  let ?val = "\<lambda>t. tmpl_value t (ps_action s) (ps_metadata s) (Inr c)"
  obtain vs where vs: "variable_values sets ?val = Inr vs"
    and s': "s' = (set_command (c\<lparr>environmentVariables :=
        kept_variables remove sets (environmentVariables c) @ vs\<rparr>) s1)\<lparr>commandChanged := True\<rparr>"
    using assms editEnvironment_spec[OF g[unfolded r], where sets = sets and remove = remove] by (auto split: sum.splits)
  let ?pair = "\<lambda>v. (var_name v, var_value v)"
  have kept: "map_of (map ?pair (kept_variables remove sets xs)) n =
      (if map_of sets n \<noteq> None \<or> n \<in> set remove then None else map_of (map ?pair xs) n)" for xs n
    by (induction xs) (auto simp: kept_variables_def)
  have new: "map_of (map ?pair vs) n = map_option (\<lambda>t. projr (?val t)) (map_of sets n)" for n
    using variable_values_ok[of sets ?val vs] vs
      map_of_map_snd[where f = "\<lambda>t. projr (?val t)" and m = sets] by (simp add: comp_def)
  have "map_of (map ?pair (kept_variables remove sets (environmentVariables c) @ vs)) n =
      (case map_of sets n of Some t \<Rightarrow> Some (projr (?val t))
       | None \<Rightarrow> if n \<in> set remove then None else map_of (map ?pair (environmentVariables c)) n)" for n
    by (simp only: map_append map_of_append map_add_def kept new) (simp split: option.split)
  then show ?thesis
    using g r s' getCommand_frame(2)[OF g]
    by (intro exI[of _ c] exI[of _ "c\<lparr>environmentVariables :=
        kept_variables remove sets (environmentVariables c) @ vs\<rparr>"]) simp
qed

theorem edit_environment_variables_witness:
  "\<exists>c'. ps_command (snd (editEnvironment_apply [''HOME''] [(''OS'', property_tmpl ''OS'')] demo_storage demo_state))
      = Some (Inr c')
    \<and> map_of (map (\<lambda>v. (var_name v, var_value v)) (environmentVariables c')) ''OS'' = Some ''linux''
    \<and> map_of (map (\<lambda>v. (var_name v, var_value v)) (environmentVariables c')) ''HOME'' = None
    \<and> map_of (map (\<lambda>v. (var_name v, var_value v)) (environmentVariables c')) ''PATH'' = Some ''/bin''"
proof -
  let ?r = "editEnvironment_apply [''HOME''] [(''OS'', property_tmpl ''OS'')] demo_storage demo_state"
  have "fst ?r = Inr ()" by code_simp
  then have r: "?r = (Inr (), snd ?r)" by (metis prod.collapse)
  have "fst (getCommand demo_storage demo_state) = Inr demo_command" by code_simp
  then show ?thesis
    using edit_environment_variables[OF r]
    by (auto simp: property_tmpl_def demo_state_def demo_command_def platform_get_def get_properties_def)
qed

text \<open>
  C31: The environment that is stored does not depend on the order in which Go visits the map of
  variables to set: for any two orders both edits succeed or both fail, and when the command has
  no variable twice the sorted environments are the same.
\<close>

theorem edit_environment_order:
  assumes "go_map sets" and "mset sets' = mset sets" and "getCommand st s = (Inr c, s1)"
    and "distinct (map var_name (environmentVariables c))"
  shows "case (editEnvironment_apply remove sets st s, editEnvironment_apply remove sets' st s) of
      ((Inr _, a), (Inr _, b)) \<Rightarrow> (\<exists>d e. ps_command a = Some (Inr d) \<and> ps_command b = Some (Inr e)
         \<and> sortEnvironment d = sortEnvironment e)
    | ((Inl _, a), (Inl _, b)) \<Rightarrow> True
    | _ \<Rightarrow> False"
proof -
  let ?val = "\<lambda>t. tmpl_value t (ps_action s) (ps_metadata s) (Inr c)"
  have set: "set sets' = set sets" using assms(2) by (rule mset_eq_setD)
  have mo: "map_of sets' = map_of sets" using map_of_perm[OF assms(2)[symmetric] assms(1)] by simp
  have kept: "kept_variables remove sets' xs = kept_variables remove sets xs" for xs
    by (simp add: kept_variables_def mo)
  note sp = editEnvironment_spec[OF assms(3), where remove = remove]
  show ?thesis
  proof (cases "\<forall>x\<in>set sets. \<not> isl (?val (snd x))")
    case True
    let ?f = "\<lambda>x. \<lparr>var_name = fst x, var_value = projr (?val (snd x))\<rparr>"
    let ?k = "kept_variables remove sets (environmentVariables c)"
    have v: "variable_values sets ?val = Inr (map ?f sets)" "variable_values sets' ?val = Inr (map ?f sets')"
      using variable_values_ok[of sets ?val] variable_values_ok[of sets' ?val] True set by auto
    have "distinct (map var_name (?k @ map ?f sets))"
      using assms(1,4) by (auto simp: kept_variables_def go_map_def comp_def distinct_map_filter
          map_of_None_keys image_iff)
    then have "sort_key var_name (?k @ map ?f sets) = sort_key var_name (?k @ map ?f sets')"
      by (intro go_sort.sort_fn_unique) (simp_all add: assms(2))
    then show ?thesis
      using sp[of sets] sp[of sets'] v by (simp add: sortEnvironment_def kept)
  next
    case False
    then have no: "variable_values sets ?val \<noteq> Inr vs" "variable_values sets' ?val \<noteq> Inr vs" for vs
      using variable_values_ok[of sets ?val vs] variable_values_ok[of sets' ?val vs] set by auto
    then obtain e e' where "variable_values sets ?val = Inl e" "variable_values sets' ?val = Inl e'"
      by (cases "variable_values sets ?val"; cases "variable_values sets' ?val") auto
    then show ?thesis
      using sp[of sets] sp[of sets']
      by (cases "editEnvironment_apply remove sets st s"; cases "editEnvironment_apply remove sets' st s")
        simp
  qed
qed

theorem edit_environment_order_witness:
  "case (editEnvironment_apply [] [(''B'', text_tmpl ''1''), (''A'', text_tmpl ''2'')] demo_storage demo_state,
         editEnvironment_apply [] [(''A'', text_tmpl ''2''), (''B'', text_tmpl ''1'')] demo_storage demo_state) of
      ((Inr _, a), (Inr _, b)) \<Rightarrow> (\<exists>d e. ps_command a = Some (Inr d) \<and> ps_command b = Some (Inr e)
         \<and> sortEnvironment d = sortEnvironment e)
    | ((Inl _, a), (Inl _, b)) \<Rightarrow> True
    | _ \<Rightarrow> False"
proof -
  have g: "getCommand demo_storage demo_state = (Inr demo_command, snd (getCommand demo_storage demo_state))"
    by (simp add: getCommand_def loadCommand_def demo_state_def demo_storage_def)
  show ?thesis
    by (rule edit_environment_order[OF _ _ g]) (simp_all add: go_map_def demo_command_def)
qed

end
