(* ===== verification/Merge_Op.thy ===== *)
theory Merge_Op
  imports Image_Upload Ref_Store Dir_Verifier Operations
begin

text \<open>
  \<open>src/pkg/actionrouter/op_merge.go\<close>: the operation that merges a Docker image into the input
  root of an action. It finds the digest of the image's root directory in its cache, in the
  reference store, or by uploading the image, and stores a directory that has the entries of
  that root and the original input root under one more name.
\<close>

section \<open>Definitions\<close>

definition defaultMaximumImageSizeBytes :: int where
  "defaultMaximumImageSizeBytes = 10 * 1024 * 1024 * 1024"

definition defaultImagePullTimeout :: int where
  "defaultImagePullTimeout = 5 * 60 * 10 ^ 9"

text \<open>
  \<open>mo_cacheGet\<close> and \<open>mo_cacheSet\<close> are the expiring cache, \<open>mo_depth\<close> the depth the verifier's
  recursion has room for, \<open>mo_ctxErr\<close> what the context reports while an image is uploaded.
\<close>

record ('w, 'd) mergeDockerRootOp =
  mo_imageRef :: tmpl
  mo_uploader :: "digest_function \<Rightarrow> ('w, 'd) ImageToCASUploader"
  mo_ctxErr :: "nat \<Rightarrow> nat \<Rightarrow> go_error option"
  mo_refStore :: "'w ref_env"
  mo_buildUser :: UnixUser
  mo_verifier :: "'w verify_env"
  mo_depth :: nat
  mo_cacheGet :: "string \<Rightarrow> 'w \<Rightarrow> digest option \<times> 'w"
  mo_cacheSet :: "string \<Rightarrow> digest \<Rightarrow> 'w \<Rightarrow> 'w"

definition getVerifiedFromRefStore ::
  "('w, 'd) mergeDockerRootOp \<Rightarrow> string \<Rightarrow> digest_function \<Rightarrow> ('w, digest) io"
where
  "getVerifiedFromRefStore mo ref df =
     io_bind (RefStore_Get (mo_refStore mo) (mo_buildUser mo) ref df) (\<lambda>imgRootDigest.
       io_bind (Verify (mo_depth mo) (mo_verifier mo) df imgRootDigest) (\<lambda>_.
         io_pure (Inr imgRootDigest)))"

definition cache_string :: "digest_function \<Rightarrow> string \<Rightarrow> string" where
  "cache_string df ref = instanceName df @ '':'' @ show_int (enumValue df) @ '':'' @ ref"

text \<open>The function that the \<open>singleflight\<close> group runs for a key.\<close>

definition fetch_digest ::
  "('w, 'd) mergeDockerRootOp \<Rightarrow> string \<Rightarrow> digest_function \<Rightarrow> ('w, digest) io"
where
  "fetch_digest mo ref df w =
     (case getVerifiedFromRefStore mo ref df w of
        (Inl e, w1) \<Rightarrow>
          if status_code e = NotFound
          then (case UploadImageToCAS (mo_uploader mo df) (mo_ctxErr mo) ref w1 of
                  (Inl e', w2) \<Rightarrow> (Inl e', w2)
                | (Inr d, w2) \<Rightarrow>
                    (case RefStore_Put (mo_refStore mo) (mo_buildUser mo) ref d df w2 of
                       (Inl e', w3) \<Rightarrow> (Inl (Wrap ''Error associating digest with ref'' [] e'), w3)
                     | (Inr _, w3) \<Rightarrow> (Inr d, mo_cacheSet mo (cache_string df ref) d w3)))
          else (Inl (Wrap ''Error reading from action cache docker ref store'' [] e), w1)
      | (Inr d, w1) \<Rightarrow> (Inr d, mo_cacheSet mo (cache_string df ref) d w1))"

definition getDirDigest ::
  "('w, 'd) mergeDockerRootOp \<Rightarrow> string \<Rightarrow> digest_function \<Rightarrow> ('w, digest) io"
where
  "getDirDigest mo ref df w =
     (case mo_cacheGet mo (cache_string df ref) w of
        (Some d, w1) \<Rightarrow> (Inr d, w1)
      | (None, w1) \<Rightarrow> fetch_digest mo ref df w1)"

definition assertDirectoryDoesntContainName :: "directory \<Rightarrow> string \<Rightarrow> unit res" where
  "assertDirectoryDoesntContainName dir name =
     (if name \<in> dir_name ` set (dir_directories dir)
        then Inl (Errorf InvalidArgument ''%s directory must not be present on filesystem overlay'' [name])
      else if name \<in> file_name ` set (dir_files dir)
        then Inl (Errorf InvalidArgument ''%s file must not be present on filesystem overlay'' [name])
      else if name \<in> link_name ` set (dir_symlinks dir)
        then Inl (Errorf InvalidArgument ''%s symlink must not be present on filesystem overlay'' [name])
      else Inr ())"

definition loadDirectory :: "'w storage \<Rightarrow> digest_function \<Rightarrow> digest \<Rightarrow> ('w, directory) io" where
  "loadDirectory st df d =
     io_bind (io_pure (wrap_err (Wrap ''Failed to parse directory digest'' []) (newDigestFromProto st df d)))
       (\<lambda>parsed. io_wrap (WrapWithCode Internal ''Failed to fetch directory %s from CAS: %v'' [hash d])
          (readDirectory st df parsed))"

definition putDirectory :: "'w storage \<Rightarrow> digest_function \<Rightarrow> directory \<Rightarrow> ('w, digest) io" where
  "putDirectory st df dir =
     io_wrap (WrapWithCode Internal ''Failed to store directory to CAS: %v'' [])
       (putDirectoryProto st df (sort_directory dir))"

definition merged_directory :: "directory \<Rightarrow> digest \<Rightarrow> directory" where
  "merged_directory dockerImageDir inputRoot =
     dockerImageDir\<lparr>dir_directories := dir_directories dockerImageDir @
       [\<lparr>dir_name = BazelInputRootDirectoryName, dir_digest = inputRoot\<rparr>]\<rparr>"

definition merge_apply :: "('w, 'd) mergeDockerRootOp \<Rightarrow> 'w storage \<Rightarrow> ('w pipelineState, unit) io" where
  "merge_apply mo st s0 =
     io_bind (io_wrap (WrapWithCode Internal ''Failed to render image ref: %v'' []) (render (mo_imageRef mo) st))
       (\<lambda>ref.
          if ref = '''' then io_pure (Inl (Errorf InvalidArgument ''merge_docker_root.image_ref rendered empty'' []))
          else io_bind (getCommand st) (\<lambda>command.
            io_bind (in_world (getDirDigest mo ref (digestFunction s0))) (\<lambda>dockerRootDigest.
              io_bind (in_world (loadDirectory st (digestFunction s0) dockerRootDigest)) (\<lambda>dockerImageDir.
                io_bind (io_pure (assertDirectoryDoesntContainName dockerImageDir BazelInputRootDirectoryName)) (\<lambda>_ s.
                  io_bind (in_world (putDirectory st (digestFunction s0)
                      (merged_directory dockerImageDir (inputRootDigest (ps_action s))))) (\<lambda>mergedDirDigest s'.
                    (Inr (), (set_command (command\<lparr>workingDirectory :=
                          BazelInputRootDirectoryName @ ''/'' @ workingDirectory command\<rparr>) s')
                        \<lparr>ps_action := (ps_action s')\<lparr>inputRootDigest := mergedDirDigest\<rparr>,
                         commandChanged := True\<rparr>)) s))))) s0"

section \<open>The merged root\<close>

lemma assert_name_ok:
  "assertDirectoryDoesntContainName dir name = Inr () \<longleftrightarrow> name \<notin> set (entry_names dir)"
  by (auto simp: assertDirectoryDoesntContainName_def entry_names_def)

lemma merged_names: "set (entry_names (merged_directory d r)) = insert BazelInputRootDirectoryName (set (entry_names d))"
  by (auto simp: entry_names_def merged_directory_def)

lemma merged_distinct:
  "distinct (entry_names d) \<Longrightarrow> BazelInputRootDirectoryName \<notin> set (entry_names d) \<Longrightarrow>
    distinct (entry_names (merged_directory d r))"
  by (auto simp: entry_names_def merged_directory_def)

lemma sort_directory_canonical:
  assumes "distinct (entry_names d)"
  shows "canonical_directory (sort_directory d)"
  using assms canonical_sort_key[of file_name "dir_files d"] canonical_sort_key[of dir_name "dir_directories d"]
    canonical_sort_key[of link_name "dir_symlinks d"]
  by (simp add: canonical_directory_def sort_directory_def entry_names_def)

text \<open>The merged root is the image's root with the input root as one more directory.\<close>

lemma cas_lookup_merged:
  assumes "distinct (entry_names d)" and "BazelInputRootDirectoryName \<notin> set (entry_names d)"
    and g: "st g = Some (sort_directory (merged_directory d r))" and h: "st h = Some d"
  shows "cas_lookup st g (n # q) =
    (if n = BazelInputRootDirectoryName then cas_lookup st r q else cas_lookup st h (n # q))"
proof -
  let ?m = "merged_directory d r"
  have dist: "distinct (entry_names ?m)" by (rule merged_distinct[OF assms(1,2)])
  then have "distinct (map dir_name (dir_directories ?m))" "distinct (map file_name (dir_files ?m))"
    "distinct (map link_name (dir_symlinks ?m))"
    by (auto simp: entry_names_def)
  note s = this[THEN map_of_sorted_names]
  have eqs: "map_of (map (\<lambda>x. (dir_name x, dir_digest x)) (dir_directories (sort_directory ?m))) =
      map_of (map (\<lambda>x. (dir_name x, dir_digest x)) (dir_directories ?m))"
    "map_of (map (\<lambda>f. (file_name f, f)) (dir_files (sort_directory ?m))) = map_of (map (\<lambda>f. (file_name f, f)) (dir_files d))"
    "map_of (map (\<lambda>s. (link_name s, s)) (dir_symlinks (sort_directory ?m))) = map_of (map (\<lambda>s. (link_name s, s)) (dir_symlinks d))"
    using s(1)[of dir_digest] s(2)[of "\<lambda>x. x"] s(3)[of "\<lambda>x. x"]
    by (simp_all add: sort_directory_def merged_directory_def)
  have merged: "map_of (map (\<lambda>x. (dir_name x, dir_digest x)) (dir_directories ?m)) k =
      (if k = BazelInputRootDirectoryName then Some r
       else map_of (map (\<lambda>x. (dir_name x, dir_digest x)) (dir_directories d)) k)" for k
    using assms(2) map_of_None_keys[of "map (\<lambda>x. (dir_name x, dir_digest x)) (dir_directories d)" BazelInputRootDirectoryName]
    by (simp add: merged_directory_def map_add_def entry_names_def image_image split: option.split)
  show ?thesis by (cases "n = BazelInputRootDirectoryName") (simp_all add: g h eqs merged cong: option.case_cong)
qed

section \<open>Properties\<close>

text \<open>
  What the operation relies on of the storage: a digest message parses to itself, reading a
  directory gives what is stored and loses nothing, and so does writing one; neither do loading a
  command and finding the image lose a directory.
\<close>

definition directory_storage ::
  "'w storage \<Rightarrow> digest_function \<Rightarrow> ('w \<Rightarrow> digest \<Rightarrow> directory option) \<Rightarrow> bool"
where
  "directory_storage st df rd \<longleftrightarrow>
     stores_directories (putDirectoryProto st df) rd
   \<and> (\<forall>d d'. newDigestFromProto st df d = Inr d' \<longrightarrow> d' = d)
   \<and> (\<forall>d w m w'. readDirectory st df d w = (Inr m, w') \<longrightarrow> rd w' d = Some m)"

lemma loadDirectory_stored:
  assumes "directory_storage st df rd" and "loadDirectory st df d w = (Inr m, w')"
  shows "rd w' d = Some m"
proof -
  from assms(2) obtain d' where "newDigestFromProto st df d = Inr d'" "readDirectory st df d' w = (Inr m, w')"
    by (auto simp: loadDirectory_def elim!: io_bind_InrE)
  then show ?thesis using assms(1) unfolding directory_storage_def by blast
qed

lemma putDirectory_stored:
  assumes "directory_storage st df rd" and "putDirectory st df m w = (Inr d, w')"
  shows "rd w' d = Some (sort_directory m)" and "rd w \<subseteq>\<^sub>m rd w'"
  using assms stores_keeps[of "putDirectoryProto st df" rd w "sort_directory m"]
  by (auto simp: putDirectory_def directory_storage_def stores_directories_def)

lemma in_world_InrE:
  assumes "in_world m s = (Inr x, s')"
  obtains w' where "m (world s) = (Inr x, w')" and "s' = s\<lparr>world := w'\<rparr>"
  using assms by (auto simp: in_world_def split: prod.splits)

lemma merge_apply_InrE:
  assumes "merge_apply mo st s = (Inr (), s')"
  obtains ref s1 command s2 root w3 image w4 merged w5 where
    "render (mo_imageRef mo) st s = (Inr ref, s1)" "ref \<noteq> ''''" "getCommand st s1 = (Inr command, s2)"
    "getDirDigest mo ref (digestFunction s) (world s2) = (Inr root, w3)"
    "loadDirectory st (digestFunction s) root w3 = (Inr image, w4)"
    "BazelInputRootDirectoryName \<notin> set (entry_names image)"
    "putDirectory st (digestFunction s) (merged_directory image (inputRootDigest (ps_action s2))) w4 = (Inr merged, w5)"
    "s' = (set_command (command\<lparr>workingDirectory := BazelInputRootDirectoryName @ ''/'' @ workingDirectory command\<rparr>)
             (s2\<lparr>world := w5\<rparr>))\<lparr>ps_action := (ps_action s2)\<lparr>inputRootDigest := merged\<rparr>, commandChanged := True\<rparr>"
  using assms
  by (auto simp: merge_apply_def assert_name_ok elim!: io_bind_InrE in_world_InrE split: if_splits)

text \<open>
  C4: When the merge succeeds, the new input root shows the image's root, with the original
  input root below \<open>bazel_exec_root\<close>: a path below that name leads to what it led to in the original
  input root, every other path to what it leads to in the image. The working directory of the
  command moves below \<open>bazel_exec_root\<close>, the command is marked as changed, and nothing else in the
  action changes.
\<close>

theorem merge_input_root:
  assumes "directory_storage st (digestFunction s) rd" and "merge_apply mo st s = (Inr (), s')"
  shows "\<exists>ref root image command w3.
      fst (render (mo_imageRef mo) st s) = Inr ref \<and> ref \<noteq> ''''
    \<and> fst (getDirDigest mo ref (digestFunction s) w3) = Inr root
    \<and> rd (world s') root = Some image
    \<and> (distinct (entry_names image) \<longrightarrow>
        (\<forall>n q. cas_lookup (rd (world s')) (inputRootDigest (ps_action s')) (n # q) =
          (if n = BazelInputRootDirectoryName
           then cas_lookup (rd (world s')) (inputRootDigest (ps_action s)) q
           else cas_lookup (rd (world s')) root (n # q))))
    \<and> ps_action s' = (ps_action s)\<lparr>inputRootDigest := inputRootDigest (ps_action s')\<rparr>
    \<and> fst (getCommand st s) = Inr command \<and> commandChanged s'
    \<and> ps_command s' = Some (Inr (command\<lparr>workingDirectory := ''bazel_exec_root/'' @ workingDirectory command\<rparr>))"
proof -
  from assms(2) obtain ref s1 command s2 root w3 image w4 merged w5 where
    ren: "render (mo_imageRef mo) st s = (Inr ref, s1)" "ref \<noteq> ''''" and cmd: "getCommand st s1 = (Inr command, s2)"
    and root: "getDirDigest mo ref (digestFunction s) (world s2) = (Inr root, w3)"
    and load: "loadDirectory st (digestFunction s) root w3 = (Inr image, w4)"
    and no: "BazelInputRootDirectoryName \<notin> set (entry_names image)"
    and put: "putDirectory st (digestFunction s) (merged_directory image (inputRootDigest (ps_action s2))) w4 = (Inr merged, w5)"
    and s': "s' = (set_command (command\<lparr>workingDirectory := BazelInputRootDirectoryName @ ''/'' @ workingDirectory command\<rparr>)
             (s2\<lparr>world := w5\<rparr>))\<lparr>ps_action := (ps_action s2)\<lparr>inputRootDigest := merged\<rparr>, commandChanged := True\<rparr>"
    by (rule merge_apply_InrE)
  have s1: "s1 = s \<or> s1 = command_loaded st s" using render_state[of "mo_imageRef mo" st s] ren by simp
  have act: "ps_action s2 = ps_action s"
    using getCommand_frame[OF cmd] render_frame(1)[of "mo_imageRef mo" st s] ren by simp
  have cmd0: "fst (getCommand st s) = Inr command"
  proof (cases "getCommand st s")
    case (Pair r t)
    then have "getCommand st t = (r, t)" using command_loaded_id[of t r st] getCommand_result by blast
    then show ?thesis using cmd s1 Pair getCommand_loaded[OF Pair] by auto
  qed
  note stored = putDirectory_stored[OF assms(1) put]
  have image: "rd w5 root = Some image"
    using loadDirectory_stored[OF assms(1) load] stored(2) by (force simp: map_le_def)
  have "\<forall>n q. cas_lookup (rd w5) merged (n # q) = (if n = BazelInputRootDirectoryName
      then cas_lookup (rd w5) (inputRootDigest (ps_action s)) q else cas_lookup (rd w5) root (n # q))"
    if "distinct (entry_names image)"
    using cas_lookup_merged[where st = "rd w5", OF that no _ image] stored(1) act by metis
  then show ?thesis
    using ren root image act cmd0 s'
    by (intro exI[of _ ref] exI[of _ root] exI[of _ image] exI[of _ command] exI[of _ "world s2"])
      (simp add: BazelInputRootDirectoryName_def)
qed

text \<open>An operation on an empty cache and an empty reference store: it uploads the image.\<close>

definition compile_command :: command where
  "compile_command = \<lparr>arguments = [''cc''], environmentVariables = [], workingDirectory = ''src''\<rparr>"

definition merge_storage :: "directory list storage" where
  "merge_storage = \<lparr>newDigestFromProto = (\<lambda>_. Inr), readCommand = (\<lambda>_ _. Pair (Inr compile_command)),
     readDirectory = (\<lambda>_ d w. (case log_read w d of Some m \<Rightarrow> Inr m | None \<Rightarrow> Inl (Errorf NotFound ''no'' []), w)),
     putCommandProto = (\<lambda>_ _. Pair (Inr (demo_key 7))), putDirectoryProto = (\<lambda>_. log_put)\<rparr>"

definition demo_merge :: "(directory list, unit) mergeDockerRootOp" where
  "demo_merge = \<lparr>mo_imageRef = Emit ''img'' Done, mo_uploader = (\<lambda>_. demo_uploader), mo_ctxErr = (\<lambda>_ _. None),
     mo_refStore = \<lparr>marshal = (\<lambda>k. Inr ''''), sumDigest = (\<lambda>_ s. Inr (demo_digest s)),
       acGet = (\<lambda>_. Pair (Inl (Errorf NotFound ''no'' []))), acPut = (\<lambda>_ _. Pair (Inr ()))\<rparr>,
     mo_buildUser = demo_user,
     mo_verifier = \<lparr>v_newDigest = (\<lambda>_. Inr), v_readDirectory = (\<lambda>_. Pair (Inl (Errorf NotFound ''no'' []))),
       fetchCDC = (\<lambda>_. Pair (Inr ())), findMissing = (\<lambda>_. Pair (Inr []))\<rparr>,
     mo_depth = 9, mo_cacheGet = (\<lambda>_. Pair None), mo_cacheSet = (\<lambda>_ _ w. w)\<rparr>"

definition merge_state :: "directory list \<Rightarrow> directory list pipelineState" where
  "merge_state w = \<lparr>digestFunction = \<lparr>instanceName = '''', enumValue = 1\<rparr>,
     ps_action = \<lparr>commandDigest = demo_key 9, inputRootDigest = demo_key 0, action_platform = None\<rparr>,
     ps_command = None, ps_metadata = None, commandChanged = False, platformChanged = False, world = w\<rparr>"

text \<open>The input root of the action holds one file.\<close>

definition demo_input :: "directory list" where
  "demo_input = [\<lparr>dir_files = [\<lparr>file_name = ''a.c'', file_digest = demo_key 5, isExecutable = False\<rparr>],
     dir_directories = [], dir_symlinks = []\<rparr>]"

theorem merge_input_root_witness:
  "let s' = snd (merge_apply demo_merge merge_storage (merge_state demo_input))
   in ps_command s' = Some (Inr (compile_command\<lparr>workingDirectory := ''bazel_exec_root/src''\<rparr>))
    \<and> cas_lookup (log_read (world s')) (inputRootDigest (ps_action s')) [''bazel_exec_root'', ''a.c''] =
        Some (EFile (demo_key 5) False)
    \<and> cas_lookup (log_read (world s')) (inputRootDigest (ps_action s')) [''etc'', ''passwd''] \<noteq> None"
proof -
  let ?s = "merge_state demo_input" let ?r = "merge_apply demo_merge merge_storage ?s"
  have laws: "directory_storage merge_storage (digestFunction ?s) log_read"
    using log_stores by (auto simp: directory_storage_def merge_storage_def split: option.splits)
  have ok: "fst ?r = Inr ()" by code_simp
  have cmd: "fst (getCommand merge_storage ?s) = Inr compile_command" by code_simp
  have etc: "cas_lookup (log_read (world (snd ?r))) (inputRootDigest (ps_action (snd ?r))) [''etc'', ''passwd''] \<noteq> None"
    and src: "cas_lookup (log_read (world (snd ?r))) (inputRootDigest (ps_action (snd ?r)))
      [''bazel_exec_root'', ''a.c''] = Some (EFile (demo_key 5) False)"
    by code_simp+
  show ?thesis
    using merge_input_root[OF laws, of demo_merge "snd ?r"] ok cmd etc src
    by (auto simp: Let_def prod_eq_iff compile_command_def)
qed

text \<open>What the operation relies on of its cache: an entry that was set, or found, is found again.\<close>

definition caches :: "('w, 'd) mergeDockerRootOp \<Rightarrow> bool" where
  "caches mo \<longleftrightarrow>
     (\<forall>k d w. fst (mo_cacheGet mo k (mo_cacheSet mo k d w)) = Some d)
   \<and> (\<forall>k d w w'. mo_cacheGet mo k w = (Some d, w') \<longrightarrow> fst (mo_cacheGet mo k w') = Some d)"

text \<open>
  While cache entries do not expire, a reference whose digest was found is not looked up,
  verified or pulled a second time: the next request for the same reference, instance and
  digest function gives the same digest and touches nothing but the cache.
\<close>

theorem image_digest_cached:
  assumes "caches mo" and "getDirDigest mo ref df w = (Inr d, w')"
  shows "getDirDigest mo ref df w' = (Inr d, snd (mo_cacheGet mo (cache_string df ref) w'))"
proof -
  have "fst (mo_cacheGet mo (cache_string df ref) w') = Some d"
    using assms
    by (auto simp: getDirDigest_def fetch_digest_def caches_def split: prod.splits option.splits sum.splits if_splits)
  then show ?thesis by (auto simp: getDirDigest_def split: prod.splits)
qed

definition demo_caching :: "((string \<times> digest) list, unit) mergeDockerRootOp" where
  "demo_caching = \<lparr>mo_imageRef = Emit ''img'' Done, mo_uploader = undefined, mo_ctxErr = (\<lambda>_ _. None),
     mo_refStore = \<lparr>marshal = (\<lambda>k. Inr ''''), sumDigest = (\<lambda>_ s. Inr (demo_digest s)),
       acGet = (\<lambda>_. Pair (Inr \<lparr>stderrDigest = Some (demo_key 1)\<rparr>)), acPut = (\<lambda>_ _. Pair (Inr ()))\<rparr>,
     mo_buildUser = demo_user,
     mo_verifier = \<lparr>v_newDigest = (\<lambda>_. Inr), v_readDirectory = (\<lambda>_. Pair (Inr
         \<lparr>dir_files = [], dir_directories = [], dir_symlinks = []\<rparr>)),
       fetchCDC = (\<lambda>_. Pair (Inr ())), findMissing = (\<lambda>_. Pair (Inr []))\<rparr>,
     mo_depth = 9, mo_cacheGet = (\<lambda>k w. (map_of w k, w)), mo_cacheSet = (\<lambda>k d w. (k, d) # w)\<rparr>"

theorem image_digest_cached_witness:
  "getDirDigest demo_caching ''img'' \<lparr>instanceName = ''i'', enumValue = 1\<rparr> [(''i:1:img'', demo_key 1)]
     = (Inr (demo_key 1), [(''i:1:img'', demo_key 1)])"
proof -
  have "caches demo_caching" by (simp add: caches_def demo_caching_def)
  moreover have "getDirDigest demo_caching ''img'' \<lparr>instanceName = ''i'', enumValue = 1\<rparr> []
      = (Inr (demo_key 1), [(''i:1:img'', demo_key 1)])"
    by code_simp
  ultimately show ?thesis
    using image_digest_cached by (fastforce simp: demo_caching_def)
qed

end
