(* ===== verification/Pipeline.thy ===== *)
theory Pipeline
  imports Merge_Op
begin

text \<open>
  The pipeline of \<open>src/pkg/actionrouter/pipeline.go\<close>: the datatype of operations with their
  \<open>apply\<close> methods, the conditional operation, \<open>HandleAction\<close>, and the constructors of
  \<open>operations.go\<close>, \<open>op_merge.go\<close> and \<open>pipeline.go\<close> that compile the configuration. The
  template parser, the regular expression compiler, the registry and the storage are fields of
  \<open>pipeline_env\<close>.
\<close>

section \<open>Definitions: operations\<close>

datatype ('w, 'd) operation =
    AssertPlatformPropertyOp string regex
  | MapPlatformPropertyOp string "(string, string) gomap"
  | EditPlatformPropertyOp "string list" "(string \<times> tmpl) list"
  | EditCommandOp "tmpl list" "tmpl list"
  | EditEnvironmentOp "string list" "(string, tmpl) gomap"
  | MergeDockerRootOp "('w, 'd) mergeDockerRootOp"
  | ConditionalOp tmpl "('w, 'd) operation"

definition conditional_apply ::
  "tmpl \<Rightarrow> ('w pipelineState, unit) io \<Rightarrow> 'w storage \<Rightarrow> ('w pipelineState, unit) io"
where
  "conditional_apply condition apply_op st =
     io_bind (io_wrap (Wrap ''Failed to evaluate operation condition'' []) (render condition st))
       (\<lambda>out. if \<not> truthy out then io_pure (Inr ()) else apply_op)"

primrec op_apply :: "('w, 'd) operation \<Rightarrow> 'w storage \<Rightarrow> ('w pipelineState, unit) io" where
  "op_apply (AssertPlatformPropertyOp pname rx) st = assert_apply pname rx"
| "op_apply (MapPlatformPropertyOp pname repl) st = map_apply pname repl"
| "op_apply (EditPlatformPropertyOp remove add) st = editPlatform_apply remove add st"
| "op_apply (EditCommandOp pre app) st = editCommand_apply pre app st"
| "op_apply (EditEnvironmentOp remove sets) st = editEnvironment_apply remove sets st"
| "op_apply (MergeDockerRootOp mo) st = merge_apply mo st"
| "op_apply (ConditionalOp condition op) st = conditional_apply condition (op_apply op st) st"

section \<open>Definitions: the pipeline\<close>

record ('w, 'd) Pipeline =
  p_storage :: "'w storage"
  p_condition :: "tmpl option"
  p_operations :: "('w, 'd) operation list"

text \<open>The loop over the operations.\<close>

fun run_operations :: "('w, 'd) operation list \<Rightarrow> 'w storage \<Rightarrow> ('w pipelineState, unit) io" where
  "run_operations [] st = io_pure (Inr ())"
| "run_operations (op # ops) st = io_bind (op_apply op st) (\<lambda>_. run_operations ops st)"

definition check_condition :: "tmpl option \<Rightarrow> 'w storage \<Rightarrow> ('w pipelineState, bool) io" where
  "check_condition condition st =
     (case condition of
        None \<Rightarrow> io_pure (Inr True)
      | Some c \<Rightarrow>
          io_bind (io_wrap (Wrap ''Failed to evaluate pipeline condition'' []) (render c st))
            (\<lambda>out. io_pure (Inr (truthy out))))"

text \<open>The part of \<open>HandleAction\<close> after the loop.\<close>

definition sorted_platform :: "'w pipelineState \<Rightarrow> 'w pipelineState" where
  "sorted_platform s =
     (if platformChanged s then set_platform (sortPlatform (action_platform (ps_action s))) s else s)"

definition finish_action :: "'w storage \<Rightarrow> digest_function \<Rightarrow> ('w pipelineState, action) io" where
  "finish_action st df s =
     (if commandChanged s
      then io_bind (getCommand st) (\<lambda>command.
             io_bind (in_world (putCommand st df (sortEnvironment command)))
               (\<lambda>d s'. (Inr ((ps_action s')\<lparr>commandDigest := d\<rparr>), s')))
             (sorted_platform s)
      else (Inr (ps_action (sorted_platform s)), s))"

definition new_state ::
  "action \<Rightarrow> request_metadata option \<Rightarrow> digest_function \<Rightarrow> 'w \<Rightarrow> 'w pipelineState"
where
  "new_state action metadata df w =
     \<lparr>digestFunction = df, ps_action = action, ps_command = None, ps_metadata = metadata,
      commandChanged = False, platformChanged = False, world = w\<rparr>"

text \<open>The action is changed in place; the model gives the changed action as the result.\<close>

definition HandleAction ::
  "('w, 'd) Pipeline \<Rightarrow> action \<Rightarrow> request_metadata option \<Rightarrow> digest_function \<Rightarrow> ('w, action) io"
where
  "HandleAction p action metadata df w =
     (case io_bind (check_condition (p_condition p) (p_storage p))
             (\<lambda>run. if \<not> run then (\<lambda>s. (Inr (ps_action s), s))
                else io_bind (run_operations (p_operations p) (p_storage p)) (\<lambda>_. finish_action (p_storage p) df))
             (new_state action metadata df w) of
        (r, s') \<Rightarrow> (r, world s'))"

section \<open>Definitions: configuration\<close>

record merge_config =
  mc_imageRef :: string
  mc_maximumImageSizeBytes :: int
  mc_imagePullTimeout :: "int option"
  mc_registryAuthentication :: "registry_auth_config list"
  mc_buildUser :: "BuildUser option"

text \<open>The oneof \<open>Operation.kind\<close>; \<open>KindUnknown\<close> stands for a type the switch does not know.\<close>

datatype operation_kind =
    KindAssertPlatformProperty string string
  | KindMapPlatformProperty string "(string, string) gomap"
  | KindEditPlatformProperty "string list" "(string \<times> string) list"
  | KindEditCommand "string list" "string list"
  | KindEditEnvironment "string list" "(string, string) gomap"
  | KindMergeDockerRoot merge_config
  | KindNotSet
  | KindUnknown string

record operation_config =
  oc_kind :: operation_kind
  oc_condition :: string

record pipeline_config =
  pc_condition :: string
  pc_operations :: "operation_config list"

record application_config =
  ac_pipeline :: "pipeline_config option"
  ac_maximumMessageSizeBytes :: int

text \<open>
  The other packages. The readers of messages depend on the maximum message size; every merge
  operation has an expiring cache of its own, here the one with the index of the operation.
\<close>

record ('w, 'd) pipeline_env =
  pe_parse :: "string \<Rightarrow> tmpl res"
  pe_compile :: "string \<Rightarrow> regex res"
  pe_readCredentials :: "string \<Rightarrow> (string, string \<times> string) gomap res"
  pe_storage :: "int \<Rightarrow> 'w storage"
  pe_registry :: "('w, 'd) registry"
  pe_blobs :: "digest_function \<Rightarrow> 'w upload_env"
  pe_flush :: "('w, unit) io"
  pe_ctxErr :: "nat \<Rightarrow> nat \<Rightarrow> go_error option"
  pe_refStore :: "'w ref_env"
  pe_verifier :: "int \<Rightarrow> 'w verify_env"
  pe_depth :: nat
  pe_cacheGet :: "nat \<Rightarrow> string \<Rightarrow> 'w \<Rightarrow> digest option \<times> 'w"
  pe_cacheSet :: "nat \<Rightarrow> string \<Rightarrow> digest \<Rightarrow> 'w \<Rightarrow> 'w"

definition newAssertPlatformPropertyOp ::
  "(string \<Rightarrow> regex res) \<Rightarrow> string \<Rightarrow> string \<Rightarrow> ('w, 'd) operation res"
where
  "newAssertPlatformPropertyOp compile pname rx =
     (if pname = '''' then Inl (Errorf InvalidArgument ''assert_platform_property.property must be set'' [])
      else if rx = '''' then Inl (Errorf InvalidArgument ''assert_platform_property.regex must be set'' [])
      else rbind (wrap_err (WrapWithCode InvalidArgument ''Invalid assert_platform_property.regex %q: %v'' [rx]) (compile rx))
        (\<lambda>compiled. Inr (AssertPlatformPropertyOp pname compiled)))"

definition newMapPlatformPropertyOp :: "string \<Rightarrow> (string, string) gomap \<Rightarrow> ('w, 'd) operation res" where
  "newMapPlatformPropertyOp pname repl =
     (if pname = '''' then Inl (Errorf InvalidArgument ''map_platform_property.property must be set'' [])
      else Inr (MapPlatformPropertyOp pname repl))"

fun parse_additions :: "(string \<Rightarrow> tmpl res) \<Rightarrow> (string \<times> string) list \<Rightarrow> (string \<times> tmpl) list res" where
  "parse_additions parse [] = Inr []"
| "parse_additions parse ((name, value) # add) =
     (if name = '''' then Inl (Errorf InvalidArgument ''edit_platform_property.add.name must be set'' [])
      else rbind (parseTemplate parse ''edit_platform_property.add.value'' value)
        (\<lambda>t. rbind (parse_additions parse add) (\<lambda>ts. Inr ((name, t) # ts))))"

definition newEditPlatformPropertyOp ::
  "(string \<Rightarrow> tmpl res) \<Rightarrow> string list \<Rightarrow> (string \<times> string) list \<Rightarrow> ('w, 'd) operation res"
where
  "newEditPlatformPropertyOp parse remove add =
     rbind (parse_additions parse add) (\<lambda>ts. Inr (EditPlatformPropertyOp remove ts))"

fun parseArgumentTemplates :: "(string \<Rightarrow> tmpl res) \<Rightarrow> string \<Rightarrow> string list \<Rightarrow> tmpl list res" where
  "parseArgumentTemplates parse name [] = Inr []"
| "parseArgumentTemplates parse name (x # xs) =
     rbind (parseTemplate parse name x) (\<lambda>t. rbind (parseArgumentTemplates parse name xs) (\<lambda>ts. Inr (t # ts)))"

definition newEditCommandOp ::
  "(string \<Rightarrow> tmpl res) \<Rightarrow> string list \<Rightarrow> string list \<Rightarrow> ('w, 'd) operation res"
where
  "newEditCommandOp parse pre app =
     (if pre = [] \<and> app = []
      then Inl (Errorf InvalidArgument ''edit_command must set prepend_arguments and/or append_arguments'' [])
      else rbind (parseArgumentTemplates parse ''edit_command.prepend_arguments'' pre) (\<lambda>p.
        rbind (parseArgumentTemplates parse ''edit_command.append_arguments'' app) (\<lambda>a.
          Inr (EditCommandOp p a))))"

text \<open>The loop over the map \<open>set\<close> of the configuration, whose keys are distinct.\<close>

fun parse_variables :: "(string \<Rightarrow> tmpl res) \<Rightarrow> (string, string) gomap \<Rightarrow> (string, tmpl) gomap res" where
  "parse_variables parse [] = Inr []"
| "parse_variables parse ((name, value) # sets) =
     (if name = '''' then Inl (Errorf InvalidArgument ''edit_environment.set keys must not be empty'' [])
      else rbind (parseTemplate parse (''edit_environment.set['' @ name @ '']'') value)
        (\<lambda>t. rbind (parse_variables parse sets) (\<lambda>ts. Inr ((name, t) # ts))))"

definition newEditEnvironmentOp ::
  "(string \<Rightarrow> tmpl res) \<Rightarrow> string list \<Rightarrow> (string, string) gomap \<Rightarrow> ('w, 'd) operation res"
where
  "newEditEnvironmentOp parse remove sets =
     rbind (parse_variables parse sets) (\<lambda>ts. Inr (EditEnvironmentOp remove ts))"

definition newMergeDockerRootOp ::
  "('w, 'd) pipeline_env \<Rightarrow> nat \<Rightarrow> int \<Rightarrow> merge_config \<Rightarrow> ('w, 'd) operation res"
where
  "newMergeDockerRootOp env i maxMessageSize config =
     (if mc_imageRef config = '''' then Inl (Errorf InvalidArgument ''merge_docker_root.image_ref must be set'' [])
      else rbind (parseTemplate (pe_parse env) ''merge_docker_root.image_ref'' (mc_imageRef config)) (\<lambda>imageRef.
        rbind (wrap_err (Wrap ''Failed to parse registry authentication'' [])
                 (ParseRegistryAuth (pe_readCredentials env) (mc_registryAuthentication config))) (\<lambda>auth.
          rbind (wrap_err (Wrap ''Invalid merge_docker_root.build_user'' [])
                   (BuildUserFromProto (mc_buildUser config))) (\<lambda>buildUser.
            let maxImageSize = (if mc_maximumImageSizeBytes config = 0 then defaultMaximumImageSizeBytes
                                else mc_maximumImageSizeBytes config);
                timeout = (case mc_imagePullTimeout config of None \<Rightarrow> defaultImagePullTimeout | Some t \<Rightarrow> t);
                puller = \<lparr>authConfig = auth, maxImageSizeBytes = maxImageSize, pullTimeout = timeout\<rparr>
            in Inr (MergeDockerRootOp
                 \<lparr>mo_imageRef = imageRef,
                  mo_uploader = (\<lambda>df. NewImageToCasUploader (pe_registry env) (pe_blobs env df)
                     (putDirectoryProto (pe_storage env maxMessageSize) df) (pe_flush env) puller buildUser),
                  mo_ctxErr = pe_ctxErr env, mo_refStore = pe_refStore env, mo_buildUser = buildUser,
                  mo_verifier = pe_verifier env maxMessageSize, mo_depth = pe_depth env,
                  mo_cacheGet = pe_cacheGet env i, mo_cacheSet = pe_cacheSet env i\<rparr>)))))"

definition buildOperation ::
  "('w, 'd) pipeline_env \<Rightarrow> nat \<Rightarrow> int \<Rightarrow> operation_kind \<Rightarrow> ('w, 'd) operation res"
where
  "buildOperation env i maxMessageSize kind =
     (case kind of
        KindAssertPlatformProperty pname rx \<Rightarrow> newAssertPlatformPropertyOp (pe_compile env) pname rx
      | KindMapPlatformProperty pname repl \<Rightarrow> newMapPlatformPropertyOp pname repl
      | KindEditPlatformProperty remove add \<Rightarrow> newEditPlatformPropertyOp (pe_parse env) remove add
      | KindEditCommand pre app \<Rightarrow> newEditCommandOp (pe_parse env) pre app
      | KindEditEnvironment remove sets \<Rightarrow> newEditEnvironmentOp (pe_parse env) remove sets
      | KindMergeDockerRoot config \<Rightarrow> newMergeDockerRootOp env i maxMessageSize config
      | KindNotSet \<Rightarrow> Inl (Errorf InvalidArgument ''operation kind must be set'' [])
      | KindUnknown t \<Rightarrow> Inl (Errorf InvalidArgument ''unknown operation kind %T'' [t]))"

text \<open>One iteration of the loop of \<open>NewPipeline\<close>, and the loop.\<close>

definition build_conditional ::
  "('w, 'd) pipeline_env \<Rightarrow> nat \<Rightarrow> int \<Rightarrow> operation_config \<Rightarrow> ('w, 'd) operation res"
where
  "build_conditional env i maxMessageSize c =
     rbind (buildOperation env i maxMessageSize (oc_kind c)) (\<lambda>op.
       if oc_condition c \<noteq> ''''
       then rbind (parseTemplate (pe_parse env) ''operation.condition'' (oc_condition c))
              (\<lambda>condition. Inr (ConditionalOp condition op))
       else Inr op)"

fun build_operations ::
  "('w, 'd) pipeline_env \<Rightarrow> nat \<Rightarrow> int \<Rightarrow> operation_config list \<Rightarrow> ('w, 'd) operation list res"
where
  "build_operations env i maxMessageSize [] = Inr []"
| "build_operations env i maxMessageSize (c # cs) =
     rbind (wrap_err (Wrap ''Operation %d'' [show_nat i]) (build_conditional env i maxMessageSize c))
       (\<lambda>op. rbind (build_operations env (Suc i) maxMessageSize cs) (\<lambda>ops. Inr (op # ops)))"

definition NewPipeline :: "('w, 'd) pipeline_env \<Rightarrow> application_config \<Rightarrow> ('w, 'd) Pipeline res" where
  "NewPipeline env config =
     (case ac_pipeline config of
        None \<Rightarrow> Inl (Errorf InvalidArgument ''pipeline must be set'' [])
      | Some pc \<Rightarrow>
          rbind (if pc_condition pc \<noteq> ''''
                 then rbind (parseTemplate (pe_parse env) ''condition'' (pc_condition pc)) (\<lambda>c. Inr (Some c))
                 else Inr None) (\<lambda>condition.
            rbind (build_operations env 0 (ac_maximumMessageSizeBytes config) (pc_operations pc)) (\<lambda>ops.
              Inr \<lparr>p_storage = pe_storage env (ac_maximumMessageSizeBytes config),
                   p_condition = condition, p_operations = ops\<rparr>)))"

section \<open>What the operations keep\<close>

text \<open>
  The relation between the action the pipeline was given and the working state: the command
  digest is still the original one, a changed command is loaded, and what is not marked as
  changed has not changed.
\<close>

definition tracks :: "action \<Rightarrow> 'w pipelineState \<Rightarrow> bool" where
  "tracks action s \<longleftrightarrow>
     commandDigest (ps_action s) = commandDigest action
   \<and> (commandChanged s \<longrightarrow> (\<exists>c. ps_command s = Some (Inr c)))
   \<and> (\<not> platformChanged s \<longrightarrow> action_platform (ps_action s) = action_platform action)
   \<and> (\<not> commandChanged s \<longrightarrow> inputRootDigest (ps_action s) = inputRootDigest action)"

text \<open>
  The interface \<open>operation\<close>: an operation that succeeds keeps the relation. A conditional
  operation and a sequence of operations then keep it too.
\<close>

locale pipeline_operation =
  fixes app :: "'o \<Rightarrow> 'w storage \<Rightarrow> ('w pipelineState, unit) io"
  assumes keeps: "tracks action s \<Longrightarrow> app op st s = (Inr (), s') \<Longrightarrow> tracks action s'"
begin

primrec sequence :: "'o list \<Rightarrow> 'w storage \<Rightarrow> ('w pipelineState, unit) io" where
  "sequence [] st = io_pure (Inr ())"
| "sequence (op # ops) st = io_bind (app op st) (\<lambda>_. sequence ops st)"

lemma sequence_keeps: "tracks action s \<Longrightarrow> sequence ops st s = (Inr (), s') \<Longrightarrow> tracks action s'"
proof (induction ops arbitrary: s)
  case (Cons op ops)
  then obtain s1 where "app op st s = (Inr (), s1)" and "sequence ops st s1 = (Inr (), s')"
    by (auto elim!: io_bind_InrE)
  then show ?case using Cons.IH Cons.prems(1) keeps by blast
qed simp

lemma sequence_append: "sequence (ops @ ops') st s =
    io_bind (sequence ops st) (\<lambda>_. sequence ops' st) s"
  by (induction ops arbitrary: s) (auto simp: io_bind_def split: prod.splits sum.splits)

end

lemma tracks_loaded: "tracks action s \<Longrightarrow> tracks action (command_loaded st s)"
  using command_loaded_id[of s _ st] by (auto simp: tracks_def) 

lemma tracks_render: "tracks action s \<Longrightarrow> render t st s = (r, s') \<Longrightarrow> tracks action s'"
  using render_state[of t st s] tracks_loaded[of action s st] by auto

lemma tracks_getCommand: "tracks action s \<Longrightarrow> getCommand st s = (r, s') \<Longrightarrow> tracks action s'"
  using tracks_loaded getCommand_loaded by blast

lemma assert_tracks: "tracks action s \<Longrightarrow> assert_apply pname rx s = (Inr (), s') \<Longrightarrow> tracks action s'"
  by (auto simp: assert_apply_def Let_def split: if_splits)

lemma map_tracks:
  assumes "tracks action s" and "map_apply pname repl s = (Inr (), s')"
  shows "tracks action s'"
proof (cases "action_platform (ps_action s)")
  case (Some ps)
  then show ?thesis
    using assms map_properties_unchanged[of pname repl ps]
    by (cases "map_properties pname repl ps") (auto simp: map_apply_def tracks_def)
qed (use assms in \<open>simp add: map_apply_def\<close>)

lemma editPlatform_tracks:
  assumes "tracks action s" and "editPlatform_apply remove add st s = (Inr (), s')"
  shows "tracks action s'"
proof -
  define kept where "kept = (if remove \<noteq> [] then filter (\<lambda>p. prop_name p \<notin> set remove)
      (get_properties (action_platform (ps_action s))) else get_properties (action_platform (ps_action s)))"
  obtain s2 where run: "add_properties add st (set_platform (Some kept) s) = (Inr (), s2)"
    and s': "s' = s2\<lparr>platformChanged := True\<rparr>"
    using assms(2) unfolding editPlatform_apply_def Let_def kept_def[symmetric] by (auto elim!: io_bind_InrE)
  obtain c s1 where c: "getCommand st s = (c, s1)" by fastforce
  have "ps_command s = Some r \<Longrightarrow> c = r" for r using c by (simp add: getCommand_def)
  then show ?thesis
    using add_properties_run[OF getCommand_set_platform[OF c] _ run, of kept] assms(1) s'
    by (auto simp: tracks_def)
qed

lemma editCommand_tracks:
  assumes "tracks action s" and "editCommand_apply pre app st s = (Inr (), s')"
  shows "tracks action s'"
proof -
  obtain r s1 where g: "getCommand st s = (r, s1)" by fastforce
  then obtain c where r: "r = Inr c" using assms(2) by (auto simp: editCommand_apply_def elim!: io_bind_InrE)
  show ?thesis
    using assms editCommand_spec[OF g[unfolded r], of pre app] getCommand_frame[OF g]
    by (auto simp: Let_def tracks_def split: sum.splits)
qed

lemma editEnvironment_tracks:
  assumes "tracks action s" and "editEnvironment_apply remove sets st s = (Inr (), s')"
  shows "tracks action s'"
proof -
  obtain r s1 where g: "getCommand st s = (r, s1)" by fastforce
  then obtain c where r: "r = Inr c" using assms(2) by (auto simp: editEnvironment_apply_def elim!: io_bind_InrE)
  show ?thesis
    using assms editEnvironment_spec[OF g[unfolded r], where remove = remove and sets = sets] getCommand_frame[OF g]
    by (auto simp: tracks_def split: sum.splits)
qed

lemma merge_tracks:
  assumes "tracks action s" and "merge_apply mo st s = (Inr (), s')"
  shows "tracks action s'"
  using assms(2)
proof (rule merge_apply_InrE)
  fix ref s1 command s2 merged w5
  assume ren: "render (mo_imageRef mo) st s = (Inr ref, s1)" and cmd: "getCommand st s1 = (Inr command, s2)"
    and s': "s' = (set_command (command\<lparr>workingDirectory := BazelInputRootDirectoryName @ ''/'' @ workingDirectory command\<rparr>)
             (s2\<lparr>world := w5\<rparr>))\<lparr>ps_action := (ps_action s2)\<lparr>inputRootDigest := merged\<rparr>, commandChanged := True\<rparr>"
  have "tracks action s2" using tracks_getCommand[OF tracks_render[OF assms(1) ren] cmd] .
  then show ?thesis by (auto simp: s' tracks_def)
qed

lemma op_apply_tracks:
  "tracks action s \<Longrightarrow> op_apply op st s = (Inr (), s') \<Longrightarrow> tracks action s'"
proof (induction op arbitrary: s)
  case (ConditionalOp c op)
  then obtain out s1 where r: "render c st s = (Inr out, s1)"
    and k: "(if \<not> truthy out then io_pure (Inr ()) else op_apply op st) s1 = (Inr (), s')"
    by (auto simp: conditional_apply_def elim!: io_bind_InrE)
  have "tracks action s1" by (rule tracks_render[OF ConditionalOp.prems(1) r])
  then show ?case using k ConditionalOp.IH[of s1] by (auto split: if_splits)
qed (auto intro: assert_tracks map_tracks editPlatform_tracks editCommand_tracks editEnvironment_tracks merge_tracks)

interpretation pipeline_ops: pipeline_operation op_apply
  by unfold_locales (rule op_apply_tracks)

lemma run_operations_sequence: "run_operations ops st = pipeline_ops.sequence ops st"
  by (induction ops) auto

lemma run_operations_tracks:
  "tracks action s \<Longrightarrow> run_operations ops st s = (Inr (), s') \<Longrightarrow> tracks action s'"
  unfolding run_operations_sequence by (rule pipeline_ops.sequence_keeps)

lemma new_state_tracks: "tracks action (new_state action metadata df w)"
  by (simp add: tracks_def new_state_def)

section \<open>Properties\<close>

text \<open>Whether executing a template asks for the working directory, and so loads the command.\<close>

primrec needs_command :: "tmpl \<Rightarrow> action \<Rightarrow> request_metadata option \<Rightarrow> bool" where
  "needs_command Done a m = False"
| "needs_command (Emit x k) a m = needs_command k a m"
| "needs_command (AskPlatform name k) a m = needs_command (k (platform_get a name)) a m"
| "needs_command (AskWorkingDirectory k) a m = True"
| "needs_command (AskMetadata f k) a m = needs_command (k (metadata_value f m)) a m"
| "needs_command (ExecFail e) a m = False"

lemma render_without_command:
  "\<not> needs_command t (ps_action s) (ps_metadata s) \<Longrightarrow>
    render t st s = (tmpl_value t (ps_action s) (ps_metadata s) c, s)"
  by (induction t) (auto split: sum.splits)


text \<open>A pipeline that handles actions with a \<open>container-image\<close> property only.\<close>

definition demo_pipeline :: "(unit, unit) Pipeline" where
  "demo_pipeline = \<lparr>p_storage = demo_storage, p_condition = Some (property_tmpl ''image''),
     p_operations = [EditPlatformPropertyOp [''image''] [(''b'', text_tmpl ''1''), (''a'', text_tmpl ''2'')],
       ConditionalOp (text_tmpl ''FALSE '') (EditCommandOp [text_tmpl ''never''] []),
       EditEnvironmentOp [] [(''TMP'', text_tmpl ''/tmp'')]]\<rparr>"


lemma check_condition_state:
  "check_condition c st s = (r, s') \<Longrightarrow> s' = s \<or> s' = command_loaded st s"
proof (cases c)
  case (Some t)
  assume "check_condition c st s = (r, s')"
  then have "snd (render t st s) = s'"
    using Some by (auto simp: check_condition_def io_bind_def io_wrap_def split: prod.splits sum.splits)
  then show ?thesis using render_state[of t st s] by auto
qed (simp add: check_condition_def)

lemma HandleAction_InrE:
  assumes "HandleAction p action metadata df w = (Inr action', w')"
  obtains (skipped) "action' = action"
  | (handled) s where "tracks action s"
      and "\<exists>s'. finish_action (p_storage p) df s = (Inr action', s') \<and> world s' = w'"
proof -
  let ?s = "new_state action metadata df w"
  obtain run s1 s2 where run: "check_condition (p_condition p) (p_storage p) ?s = (Inr run, s1)"
    and rest: "(if \<not> run then (\<lambda>s. (Inr (ps_action s), s))
        else io_bind (run_operations (p_operations p) (p_storage p)) (\<lambda>_. finish_action (p_storage p) df)) s1
      = (Inr action', s2)" and w': "w' = world s2"
    using assms unfolding HandleAction_def by (auto elim!: io_bind_InrE split: prod.splits)
  have s1: "tracks action s1" "ps_action s1 = action"
    using check_condition_state[OF run] new_state_tracks[of action metadata df w] tracks_loaded[of action ?s "p_storage p"]
    by (auto simp: new_state_def)
  show ?thesis
  proof (cases run)
    case True
    then obtain s where "run_operations (p_operations p) (p_storage p) s1 = (Inr (), s)"
      and "finish_action (p_storage p) df s = (Inr action', s2)"
      using rest by (auto elim!: io_bind_InrE)
    then show ?thesis using handled run_operations_tracks[OF s1(1)] w' by blast
  next
    case False
    then show ?thesis using rest s1(2) skipped by simp
  qed
qed

lemma sorted_platform_simps:
  "ps_command (sorted_platform s) = ps_command s" "world (sorted_platform s) = world s"
  "commandDigest (ps_action (sorted_platform s)) = commandDigest (ps_action s)"
  "inputRootDigest (ps_action (sorted_platform s)) = inputRootDigest (ps_action s)"
  "action_platform (ps_action (sorted_platform s)) =
     (if platformChanged s then sortPlatform (action_platform (ps_action s)) else action_platform (ps_action s))"
  by (simp_all add: sorted_platform_def)

lemma finish_action_InrE:
  assumes "tracks action s" and "finish_action st df s = (Inr action', s')"
  shows "action_platform action' = (if platformChanged s then sortPlatform (action_platform (ps_action s))
        else action_platform action)"
    and "\<not> commandChanged s \<Longrightarrow> commandDigest action' = commandDigest action \<and> inputRootDigest action' = inputRootDigest action"
    and "commandChanged s \<Longrightarrow> \<exists>c. ps_command s = Some (Inr c)
        \<and> putCommandProto st df (sortEnvironment c) (world s) = (Inr (commandDigest action'), world s')"
proof -
  show "action_platform action' = (if platformChanged s then sortPlatform (action_platform (ps_action s))
        else action_platform action)"
  proof (cases "commandChanged s")
    case True
    then obtain c where "ps_command s = Some (Inr c)" using assms(1) by (auto simp: tracks_def)
    then have "getCommand st (sorted_platform s) = (Inr c, sorted_platform s)" by (simp add: command_loaded_id sorted_platform_simps)
    then show ?thesis
      using assms True by (auto simp: finish_action_def tracks_def sorted_platform_simps io_bind_simps elim!: io_bind_InrE in_world_InrE)
  qed (use assms in \<open>auto simp: finish_action_def tracks_def sorted_platform_simps\<close>)
  show "commandDigest action' = commandDigest action \<and> inputRootDigest action' = inputRootDigest action"
    if "\<not> commandChanged s"
    using assms that by (auto simp: finish_action_def tracks_def sorted_platform_simps)
  show "\<exists>c. ps_command s = Some (Inr c)
        \<and> putCommandProto st df (sortEnvironment c) (world s) = (Inr (commandDigest action'), world s')"
    if ch: "commandChanged s"
  proof -
    obtain c where c: "ps_command s = Some (Inr c)" using assms(1) ch by (auto simp: tracks_def)
    then have "getCommand st (sorted_platform s) = (Inr c, sorted_platform s)" by (simp add: command_loaded_id sorted_platform_simps)
    then show ?thesis
      using assms(2) ch c
      by (auto simp: finish_action_def putCommand_def sorted_platform_simps io_bind_simps elim!: io_bind_InrE in_world_InrE)
  qed
qed

text \<open>
  C6: What the pipeline returns is well formed whatever its operations are: the platform
  properties are the original ones or sorted by name and value, as REv2 requires; and either the
  command digest and the input root are the original ones, or the command digest is the one
  under which the storage keeps the final command, whose environment variables are sorted by name.
\<close>

theorem handled_action_canonical:
  assumes "HandleAction p action metadata df w = (Inr action', w')"
  shows "(action_platform action' = action_platform action
       \<or> sorted (map (\<lambda>x. (prop_name x, prop_value x)) (get_properties (action_platform action'))))
    \<and> (commandDigest action' = commandDigest action \<and> inputRootDigest action' = inputRootDigest action
       \<or> (\<exists>c w1. putCommandProto (p_storage p) df c w1 = (Inr (commandDigest action'), w')
            \<and> sorted (map var_name (environmentVariables c))))"
  using assms
proof (cases rule: HandleAction_InrE)
  case (handled s)
  then obtain s' where fin: "finish_action (p_storage p) df s = (Inr action', s')" "world s' = w'" by blast
  have sorted: "sorted (map (\<lambda>x. (prop_name x, prop_value x)) (get_properties (sortPlatform pl)))" for pl
    by (simp add: get_properties_def sortPlatform_def split: option.split)
  have env: "sorted (map var_name (environmentVariables (sortEnvironment c)))" for c
    by (simp add: sortEnvironment_def)
  note result = finish_action_InrE[OF handled(1) fin(1)]
  have "action_platform action' = action_platform action
      \<or> sorted (map (\<lambda>x. (prop_name x, prop_value x)) (get_properties (action_platform action')))"
    using result(1) sorted by simp
  moreover have "commandDigest action' = commandDigest action \<and> inputRootDigest action' = inputRootDigest action
      \<or> (\<exists>c w1. putCommandProto (p_storage p) df c w1 = (Inr (commandDigest action'), w')
            \<and> sorted (map var_name (environmentVariables c)))"
    using result(2,3) env fin(2) by blast
  ultimately show ?thesis by blast
qed simp

theorem handled_action_canonical_witness:
  "\<exists>action'. HandleAction demo_pipeline (ps_action demo_state) None (digestFunction demo_state) () = (Inr action', ())
     \<and> get_properties (action_platform action') = [\<lparr>prop_name = ''OS'', prop_value = ''linux''\<rparr>,
         \<lparr>prop_name = ''a'', prop_value = ''2''\<rparr>, \<lparr>prop_name = ''b'', prop_value = ''1''\<rparr>]
     \<and> (\<exists>c. putCommandProto demo_storage (digestFunction demo_state) c () = (Inr (commandDigest action'), ())
          \<and> sorted (map var_name (environmentVariables c)))"
proof -
  let ?r = "HandleAction demo_pipeline (ps_action demo_state) None (digestFunction demo_state) ()"
  let ?a = "(ps_action demo_state)\<lparr>commandDigest := \<lparr>hash = ''c'', size_bytes = 1\<rparr>,
    action_platform := Some [\<lparr>prop_name = ''OS'', prop_value = ''linux''\<rparr>,
      \<lparr>prop_name = ''a'', prop_value = ''2''\<rparr>, \<lparr>prop_name = ''b'', prop_value = ''1''\<rparr>]\<rparr>"
  have r: "?r = (Inr ?a, ())" by code_simp
  have "p_storage demo_pipeline = demo_storage" by (simp add: demo_pipeline_def)
  then show ?thesis
    using handled_action_canonical[OF r] r by (intro exI[of _ ?a]) (simp add: get_properties_def demo_state_def)
qed

lemma build_operations_result:
  "case build_operations env i m cs of
     Inr ops \<Rightarrow> length ops = length cs \<and> (\<forall>k<length cs. build_conditional env (i + k) m (cs ! k) = Inr (ops ! k))
   | Inl e \<Rightarrow> \<exists>k<length cs. \<exists>e'. e = Wrap ''Operation %d'' [show_nat (i + k)] e'
       \<and> build_conditional env (i + k) m (cs ! k) = Inl e'
       \<and> (\<forall>j<k. \<not> isl (build_conditional env (i + j) m (cs ! j)))"
proof (induction cs arbitrary: i)
  case (Cons c cs)
  show ?case
  proof (cases "build_conditional env i m c")
    case (Inl e)
    then show ?thesis by (auto intro!: exI[of _ 0])
  next
    case (Inr op)
    note first = Inr
    show ?thesis
    proof (cases "build_operations env (Suc i) m cs")
      case (Inl e)
      then obtain k e' where "k < length cs" "e = Wrap ''Operation %d'' [show_nat (Suc i + k)] e'"
        "build_conditional env (Suc i + k) m (cs ! k) = Inl e'"
        "\<forall>j<k. \<not> isl (build_conditional env (Suc i + j) m (cs ! j))"
        using Cons[of "Suc i"] by auto
      then have "Suc k < length (c # cs) \<and> (\<exists>e'. e = Wrap ''Operation %d'' [show_nat (i + Suc k)] e'
          \<and> build_conditional env (i + Suc k) m ((c # cs) ! Suc k) = Inl e'
          \<and> (\<forall>j<Suc k. \<not> isl (build_conditional env (i + j) m ((c # cs) ! j))))"
        using first by (auto simp: less_Suc_eq_0_disj)
      moreover have "build_operations env i m (c # cs) = Inl e" using Inl first by simp
      ultimately show ?thesis by (simp only: sum.case) blast
    next
      case (Inr ops)
      then show ?thesis using first Cons[of "Suc i"] by (auto simp: less_Suc_eq_0_disj)
    qed
  qed
qed simp

text \<open>
  C29: A configuration is compiled completely before an action is handled: a pipeline that was
  built has one operation per configured operation, in order, each compiled from its own entry,
  and it has a condition exactly when one is configured. A configuration that is rejected has no
  pipeline, a bad condition, or a bad operation, and the error then carries the index of the first
  bad operation.
\<close>

theorem new_pipeline_compiles_all:
  "case NewPipeline env config of
     Inr p \<Rightarrow> \<exists>pc. ac_pipeline config = Some pc
       \<and> (p_condition p = None \<longleftrightarrow> pc_condition pc = '''')
       \<and> length (p_operations p) = length (pc_operations pc)
       \<and> (\<forall>i<length (pc_operations pc). build_conditional env i (ac_maximumMessageSizeBytes config)
            (pc_operations pc ! i) = Inr (p_operations p ! i))
   | Inl e \<Rightarrow> ac_pipeline config = None \<and> e = Errorf InvalidArgument ''pipeline must be set'' []
       \<or> (\<exists>pc. ac_pipeline config = Some pc
            \<and> (status_code e = InvalidArgument \<and> isl (pe_parse env (pc_condition pc))
               \<or> (\<exists>i<length (pc_operations pc). \<exists>e'. e = Wrap ''Operation %d'' [show_nat i] e'
                    \<and> build_conditional env i (ac_maximumMessageSizeBytes config) (pc_operations pc ! i) = Inl e'
                    \<and> (\<forall>j<i. \<not> isl (build_conditional env j (ac_maximumMessageSizeBytes config)
                         (pc_operations pc ! j))))))"
proof (cases "ac_pipeline config")
  case (Some pc)
  note ops = build_operations_result[where env = env and i = 0 and m = "ac_maximumMessageSizeBytes config"
      and cs = "pc_operations pc", simplified]
  show ?thesis
  proof (cases "pc_condition pc \<noteq> '''' \<and> isl (pe_parse env (pc_condition pc))")
    case True
    then show ?thesis using Some by (auto simp: NewPipeline_def parseTemplate_def isl_def)
  next
    case False
    then show ?thesis
      using Some ops
      by (cases "build_operations env 0 (ac_maximumMessageSizeBytes config) (pc_operations pc)";
          cases "pe_parse env (pc_condition pc)") (auto simp: NewPipeline_def parseTemplate_def)
  qed
qed (simp add: NewPipeline_def)

definition demo_pipeline_env :: "(unit, unit) pipeline_env" where
  "demo_pipeline_env = \<lparr>pe_parse = (\<lambda>t. Inr (text_tmpl t)),
     pe_compile = (\<lambda>_. Inl (Errorf Unknown ''missing closing )'' [])), pe_readCredentials = (\<lambda>_. Inr []),
     pe_storage = (\<lambda>_. demo_storage),
     pe_registry = \<lparr>parseReference = (\<lambda>_. Inl (Errorf Unknown ''no'' [])), remoteGet = (\<lambda>_ _ _. Pair (Inr ())),
       descImage = (\<lambda>_. Pair (Inl (Errorf Unknown ''no'' []))), cancelPull = id\<rparr>,
     pe_blobs = (\<lambda>_. demo_env), pe_flush = Pair (Inr ()), pe_ctxErr = (\<lambda>_ _. None),
     pe_refStore = \<lparr>marshal = (\<lambda>_. Inr ''''), sumDigest = (\<lambda>_ s. Inr (demo_digest s)),
       acGet = (\<lambda>_. Pair (Inl (Errorf NotFound ''no'' []))), acPut = (\<lambda>_ _. Pair (Inr ()))\<rparr>,
     pe_verifier = (\<lambda>_. demo_verify (\<lambda>_. True)), pe_depth = 9,
     pe_cacheGet = (\<lambda>_ _. Pair None), pe_cacheSet = (\<lambda>_ _ _ w. w)\<rparr>"

definition demo_config :: application_config where
  "demo_config = \<lparr>ac_pipeline = Some \<lparr>pc_condition = '''', pc_operations =
     [\<lparr>oc_kind = KindEditCommand [''wrap''] [], oc_condition = ''1''\<rparr>,
      \<lparr>oc_kind = KindAssertPlatformProperty ''OS'' ''(linux'', oc_condition = ''''\<rparr>]\<rparr>,
     ac_maximumMessageSizeBytes = 4194304\<rparr>"

theorem new_pipeline_compiles_all_witness:
  "\<exists>i e e'. NewPipeline demo_pipeline_env demo_config = Inl e \<and> e = Wrap ''Operation %d'' [show_nat i] e'
     \<and> build_conditional demo_pipeline_env i 4194304
         (\<lparr>oc_kind = KindAssertPlatformProperty ''OS'' ''(linux'', oc_condition = ''''\<rparr>) = Inl e'"
proof -
  have first: "\<not> isl (build_conditional demo_pipeline_env i m \<lparr>oc_kind = KindEditCommand [''wrap''] [], oc_condition = ''1''\<rparr>)"
    for i m
    by (simp add: build_conditional_def buildOperation_def newEditCommandOp_def parseTemplate_def demo_pipeline_env_def)
  have "isl (NewPipeline demo_pipeline_env demo_config)"
    by (simp add: NewPipeline_def demo_config_def build_conditional_def buildOperation_def newEditCommandOp_def
        newAssertPlatformPropertyOp_def parseTemplate_def demo_pipeline_env_def)
  then obtain e where e: "NewPipeline demo_pipeline_env demo_config = Inl e" by (auto simp: isl_def)
  have pc: "ac_pipeline demo_config \<noteq> None" "\<not> isl (pe_parse demo_pipeline_env t)" for t
    by (simp_all add: demo_config_def demo_pipeline_env_def)
  obtain i e' where ie: "i < 2" "e = Wrap ''Operation %d'' [show_nat i] e'"
    "build_conditional demo_pipeline_env i 4194304 (([\<lparr>oc_kind = KindEditCommand [''wrap''] [], oc_condition = ''1''\<rparr>,
      \<lparr>oc_kind = KindAssertPlatformProperty ''OS'' ''(linux'', oc_condition = ''''\<rparr>]) ! i) = Inl e'"
    using new_pipeline_compiles_all[of demo_config demo_pipeline_env] pc unfolding e
    by (auto simp: demo_config_def numeral_2_eq_2)
  then have "i = 1" using first[of i 4194304] by (auto simp: numeral_2_eq_2 less_Suc_eq)
  then show ?thesis using e ie by auto
qed

end
