(* ===== verification/Routed_Action.thy ===== *)
theory Routed_Action
  imports Pipeline
begin

text \<open>
  The composition of the components behind the action router: an action handled by a pipeline
  that merges an image. The theorem follows the data through \<open>HandleAction\<close>, the merge operation,
  the lookup of the image, the upload of its layers and the storage, and says what the worker will
  find in the input root of the action.
\<close>

section \<open>From a request to the input root of the action\<close>

text \<open>The image is in none of the caches: neither in the operation's nor in the reference store.\<close>

definition fresh_image :: "('w, 'd) mergeDockerRootOp \<Rightarrow> string \<Rightarrow> digest_function \<Rightarrow> 'w \<Rightarrow> bool" where
  "fresh_image mo ref df w \<longleftrightarrow>
     fst (mo_cacheGet mo (cache_string df ref) w) = None
   \<and> (\<exists>e. fst (getVerifiedFromRefStore mo ref df (snd (mo_cacheGet mo (cache_string df ref) w))) = Inl e
        \<and> status_code e = NotFound)"

text \<open>
  What the parts rely on: the storage of the pipeline and the one the uploader writes to are the
  same, files get the digest of their content, and no call loses a directory.
\<close>

definition routing_laws ::
  "'w storage \<Rightarrow> ('w, 'd) mergeDockerRootOp \<Rightarrow> digest_function \<Rightarrow> (string \<Rightarrow> digest) \<Rightarrow> ('w \<Rightarrow> digest \<Rightarrow> directory option) \<Rightarrow> bool"
where
  "routing_laws st mo df dig rd \<longleftrightarrow>
     directory_storage st df rd \<and> uploads_digest (u_blobs (mo_uploader mo df)) dig
   \<and> stores_directories (u_putProto (mo_uploader mo df)) rd
   \<and> keeps_directories rd (\<lambda>w. snd (u_flush (mo_uploader mo df) w))
   \<and> keeps_directories rd (cancelPull (u_registry (mo_uploader mo df)))
   \<and> (\<forall>ref d. keeps_directories rd (\<lambda>w. snd (RefStore_Put (mo_refStore mo) (mo_buildUser mo) ref d df w)))
   \<and> (\<forall>k d. keeps_directories rd (mo_cacheSet mo k d))
   \<and> (\<forall>d. keeps_directories rd (\<lambda>w. snd (readDirectory st df d w)))
   \<and> (\<forall>c. keeps_directories rd (\<lambda>w. snd (putCommandProto st df c w)))"

lemma keeps_directoriesD: "keeps_directories rd (\<lambda>w. snd (m w)) \<Longrightarrow> m w = (r, w') \<Longrightarrow> rd w \<subseteq>\<^sub>m rd w'"
  unfolding keeps_directories_def by (metis snd_conv)

lemma getDirDigest_fresh:
  assumes "routing_laws st mo df dig rd" and "fresh_image mo ref df w" and "getDirDigest mo ref df w = (Inr g, w')"
  obtains w1 w2 where "UploadImageToCAS (mo_uploader mo df) (mo_ctxErr mo) ref w1 = (Inr g, w2)" and "rd w2 \<subseteq>\<^sub>m rd w'"
proof -
  obtain w0 where get: "mo_cacheGet mo (cache_string df ref) w = (None, w0)"
    using assms(2) by (cases "mo_cacheGet mo (cache_string df ref) w") (auto simp: fresh_image_def)
  obtain e w1 where ver: "getVerifiedFromRefStore mo ref df w0 = (Inl e, w1)" "status_code e = NotFound"
    using assms(2) get by (cases "getVerifiedFromRefStore mo ref df w0") (auto simp: fresh_image_def)
  from assms(3) get ver obtain w2 w3 where up: "UploadImageToCAS (mo_uploader mo df) (mo_ctxErr mo) ref w1 = (Inr g, w2)"
    and put: "RefStore_Put (mo_refStore mo) (mo_buildUser mo) ref g df w2 = (Inr (), w3)"
    and w': "w' = mo_cacheSet mo (cache_string df ref) g w3"
    by (auto simp: getDirDigest_def fetch_digest_def split: prod.splits sum.splits)
  have "keeps_directories rd (\<lambda>w. snd (RefStore_Put (mo_refStore mo) (mo_buildUser mo) ref g df w))"
    using assms(1) unfolding routing_laws_def by blast
  from keeps_directoriesD[where m = "RefStore_Put (mo_refStore mo) (mo_buildUser mo) ref g df", OF this put]
  have "rd w2 \<subseteq>\<^sub>m rd w3" .
  moreover have "rd w3 \<subseteq>\<^sub>m rd w'" using assms(1) unfolding routing_laws_def w' keeps_directories_def by blast
  ultimately show thesis using that[OF up] map_le_trans by blast
qed

section \<open>The merged root in every later storage\<close>

lemma merge_apply_shows_image:
  assumes laws: "routing_laws st mo (digestFunction s) dig rd" and run: "merge_apply mo st s = (Inr (), s')"
    and ref: "fst (render (mo_imageRef mo) st s) = Inr ref"
    and fresh: "fresh_image mo ref (digestFunction s) (world (snd (getCommand st (snd (render (mo_imageRef mo) st s)))))"
  obtains img cancel w0 w1 ess fs where
    "GetImageFromRef (u_registry (mo_uploader mo (digestFunction s))) (u_puller (mo_uploader mo (digestFunction s))) ref w0 = (Inr (img, cancel), w1)"
    "image_layers img = Inr (map layer_entries ess)"
    "image_effect dig (u_buildUser (mo_uploader mo (digestFunction s))) ess (lookup newUploadDirState) fs"
    "\<And>x n q. rd (world s') \<subseteq>\<^sub>m rd x \<Longrightarrow> cas_lookup (rd x) (inputRootDigest (ps_action s')) (n # q) =
       (if n = BazelInputRootDirectoryName then cas_lookup (rd x) (inputRootDigest (ps_action s)) q else fs (n # q))"
proof -
  let ?df = "digestFunction s"
  have store: "directory_storage st ?df rd" using laws by (simp add: routing_laws_def)
  from run obtain ref' s1 command s2 root w3 image w4 merged w5 where
    ren: "render (mo_imageRef mo) st s = (Inr ref', s1)" and cmd: "getCommand st s1 = (Inr command, s2)"
    and root: "getDirDigest mo ref' ?df (world s2) = (Inr root, w3)"
    and load: "loadDirectory st ?df root w3 = (Inr image, w4)"
    and no: "BazelInputRootDirectoryName \<notin> set (entry_names image)"
    and put: "putDirectory st ?df (merged_directory image (inputRootDigest (ps_action s2))) w4 = (Inr merged, w5)"
    and s': "s' = (set_command (command\<lparr>workingDirectory := BazelInputRootDirectoryName @ ''/'' @ workingDirectory command\<rparr>)
             (s2\<lparr>world := w5\<rparr>))\<lparr>ps_action := (ps_action s2)\<lparr>inputRootDigest := merged\<rparr>, commandChanged := True\<rparr>"
    by (rule merge_apply_InrE)
  have act: "ps_action s2 = ps_action s"
    using getCommand_frame[OF cmd] render_frame(1)[of "mo_imageRef mo" st s] ren by simp
  have "ref' = ref" "fresh_image mo ref ?df (world s2)" using ref fresh ren cmd by simp_all
  with getDirDigest_fresh[OF laws, of ref "world s2" root w3] root obtain w1 w2 where
    up: "UploadImageToCAS (mo_uploader mo ?df) (mo_ctxErr mo) ref w1 = (Inr root, w2)" and "rd w2 \<subseteq>\<^sub>m rd w3"
    by blast
  moreover have "rd w3 \<subseteq>\<^sub>m rd w4"
  proof -
    obtain d where read: "readDirectory st ?df d w3 = (Inr image, w4)"
      using load by (auto simp: loadDirectory_def elim!: io_bind_InrE)
    have "keeps_directories rd (\<lambda>w. snd (readDirectory st ?df d w))" using laws by (simp add: routing_laws_def)
    from keeps_directoriesD[where m = "readDirectory st ?df d", OF this read] show ?thesis .
  qed
  ultimately have w4: "rd w2 \<subseteq>\<^sub>m rd w4" by (meson map_le_trans)
  note stored = putDirectory_stored[OF store put]
  have laws': "uploads_digest (u_blobs (mo_uploader mo ?df)) dig" "stores_directories (u_putProto (mo_uploader mo ?df)) rd"
    "keeps_directories rd (\<lambda>w. snd (u_flush (mo_uploader mo ?df) w))" "keeps_directories rd (cancelPull (u_registry (mo_uploader mo ?df)))"
    using laws by (simp_all add: routing_laws_def)
  obtain img cancel v ess fs m where pulled: "GetImageFromRef (u_registry (mo_uploader mo ?df)) (u_puller (mo_uploader mo ?df)) ref w1 = (Inr (img, cancel), v)"
    "image_layers img = Inr (map layer_entries ess)"
    "image_effect dig (u_buildUser (mo_uploader mo ?df)) ess (lookup newUploadDirState) fs"
    and m: "rd w2 root = Some m" "distinct (entry_names m)" and later: "\<And>x. rd w2 \<subseteq>\<^sub>m rd x \<Longrightarrow> cas_lookup (rd x) root = fs"
    by (rule image_upload_readable[OF laws' up]) blast
  have "rd w4 root = Some m" using m(1) w4 by (metis domI map_le_def)
  then have image: "image = m" using loadDirectory_stored[OF store load] by simp
  have "cas_lookup (rd x) merged (n # q) = (if n = BazelInputRootDirectoryName
      then cas_lookup (rd x) (inputRootDigest (ps_action s)) q else fs (n # q))" if x: "rd w5 \<subseteq>\<^sub>m rd x" for x n q
  proof -
    have "rd w4 \<subseteq>\<^sub>m rd x" using map_le_trans[OF stored(2) x] .
    then have "rd x root = Some image" using loadDirectory_stored[OF store load] by (metis domI map_le_def)
    moreover have "rd x merged = Some (sort_directory (merged_directory image (inputRootDigest (ps_action s))))"
      using stored(1) x act by (metis domI map_le_def)
    moreover have "cas_lookup (rd x) root = fs" using later map_le_trans[OF w4 \<open>rd w4 \<subseteq>\<^sub>m rd x\<close>] by blast
    ultimately show ?thesis using cas_lookup_merged[of image "rd x" merged] m(2) no unfolding image by simp
  qed
  then show thesis using that[OF pulled] s' by simp
qed

lemma finish_action_root:
  assumes "tracks action s" and "finish_action st df s = (Inr action', s')"
  shows "inputRootDigest action' = inputRootDigest (ps_action s)"
proof -
  have platform: "inputRootDigest (ps_action (sorted_platform s)) = inputRootDigest (ps_action s)"
    by (simp add: sorted_platform_def)
  show ?thesis
  proof (cases "commandChanged s")
    case True
    then obtain c where "ps_command s = Some (Inr c)" using assms(1) by (auto simp: tracks_def)
    then have "getCommand st (sorted_platform s) = (Inr c, sorted_platform s)" by (simp add: command_loaded_id sorted_platform_simps)
    then show ?thesis
      using assms(2) True platform by (auto simp: finish_action_def io_bind_simps elim!: io_bind_InrE in_world_InrE)
  qed (use assms(2) platform in \<open>auto simp: finish_action_def\<close>)
qed

section \<open>Properties\<close>

text \<open>
  C2: When the pipeline merges an image that no cache knows into an action, the input root of the
  returned action shows, in the storage as the call leaves it, the file system of the image that
  the registry gave for the rendered reference, applied layer by layer with the build user
  injected, and below \<open>bazel_exec_root\<close> the original input root.
\<close>

theorem routed_action_shows_image:
  assumes "routing_laws (p_storage p) mo df dig rd" and "p_condition p = None"
    and "p_operations p = [MergeDockerRootOp mo]"
    and "HandleAction p action metadata df w = (Inr action', w')"
    and "fst (render (mo_imageRef mo) (p_storage p) (new_state action metadata df w)) = Inr ref"
    and "fresh_image mo ref df (world (snd (getCommand (p_storage p)
      (snd (render (mo_imageRef mo) (p_storage p) (new_state action metadata df w))))))"
  shows "\<exists>img cancel w0 w1 ess fs.
      GetImageFromRef (u_registry (mo_uploader mo df)) (u_puller (mo_uploader mo df)) ref w0 = (Inr (img, cancel), w1)
    \<and> image_layers img = Inr (map layer_entries ess)
    \<and> image_effect dig (u_buildUser (mo_uploader mo df)) ess (lookup newUploadDirState) fs
    \<and> (\<forall>n q. cas_lookup (rd w') (inputRootDigest action') (n # q) =
        (if n = BazelInputRootDirectoryName then cas_lookup (rd w') (inputRootDigest action) q else fs (n # q)))"
proof -
  let ?s = "new_state action metadata df w" and ?st = "p_storage p"
  have s: "digestFunction ?s = df" "ps_action ?s = action" by (simp_all add: new_state_def)
  obtain s1 s2 where merge: "merge_apply mo ?st ?s = (Inr (), s1)"
    and fin: "finish_action ?st df s1 = (Inr action', s2)" and w': "w' = world s2"
    using assms(2-4) unfolding HandleAction_def
    by (auto simp: check_condition_def elim!: io_bind_InrE split: prod.splits)
  have tr: "tracks action s1" using merge_tracks[OF new_state_tracks merge] by simp
  have "commandChanged s1" using merge by (auto elim!: merge_apply_InrE)
  then obtain c where "putCommandProto ?st df (sortEnvironment c) (world s1) = (Inr (commandDigest action'), w')"
    using finish_action_InrE(3)[OF tr fin] w' by blast
  moreover have "keeps_directories rd (\<lambda>w. snd (putCommandProto ?st df (sortEnvironment c) w))"
    using assms(1) by (simp add: routing_laws_def)
  ultimately have later: "rd (world s1) \<subseteq>\<^sub>m rd w'"
    using keeps_directoriesD[where m = "putCommandProto ?st df (sortEnvironment c)"] by blast
  have same: "inputRootDigest action' = inputRootDigest (ps_action s1)"
    by (rule finish_action_root[OF tr fin])
  show ?thesis
    using merge_apply_shows_image[where s = ?s and mo = mo and st = ?st and dig = dig and rd = rd and s' = s1 and ref = ref, unfolded s,
        OF assms(1) merge assms(5,6)] later same by metis
qed

text \<open>The image of two layers, the second of which deletes a file, and an input root with one file.\<close>

definition demo_routing :: "(directory list, unit) Pipeline" where
  "demo_routing = \<lparr>p_storage = merge_storage, p_condition = None, p_operations = [MergeDockerRootOp demo_merge]\<rparr>"

abbreviation demo_df :: digest_function where
  "demo_df \<equiv> \<lparr>instanceName = '''', enumValue = 1\<rparr>"

abbreviation demo_routed :: "action res \<times> directory list" where
  "demo_routed \<equiv> HandleAction demo_routing (ps_action (merge_state demo_input)) None demo_df demo_input"

lemma demo_routing_laws: "routing_laws merge_storage demo_merge demo_df demo_digest log_read"
proof -
  have "directory_storage merge_storage demo_df log_read"
    using log_stores by (auto simp: directory_storage_def merge_storage_def split: option.splits)
  moreover have "stores_directories (u_putProto demo_uploader) log_read" "uploads_digest (u_blobs demo_uploader) demo_digest"
    "keeps_directories log_read (\<lambda>w. snd (u_flush demo_uploader w))" "keeps_directories log_read (cancelPull (u_registry demo_uploader))"
    using log_stores by (simp_all add: demo_uploader_def NewImageToCasUploader_def uploads_digest_def keeps_directories_def)
  ultimately show ?thesis
    by (auto simp: routing_laws_def demo_merge_def RefStore_Put_def computeCacheKeyDigest_def keeps_directories_def
        merge_storage_def io_bind_def io_wrap_def split: option.splits)
qed

theorem routed_action_shows_image_witness:
  "\<exists>action' ess fs. fst demo_routed = Inr action' \<and> image_layers demo_two_layers = Inr (map layer_entries ess)
     \<and> image_effect demo_digest demo_user ess (lookup newUploadDirState) fs
     \<and> cas_lookup (log_read (snd demo_routed)) (inputRootDigest action') [''etc'', ''passwd''] = fs [''etc'', ''passwd'']
     \<and> cas_lookup (log_read (snd demo_routed)) (inputRootDigest action') [''bazel_exec_root'', ''a.c''] = Some (EFile (demo_key 5) False)"
proof -
  let ?s = "new_state (ps_action (merge_state demo_input)) None demo_df demo_input"
  have ok: "\<not> isl (fst demo_routed)" by code_simp
  then obtain action' where "fst demo_routed = Inr action'" by (cases "fst demo_routed") simp_all
  then have run: "demo_routed = (Inr action', snd demo_routed)" by (simp add: prod_eq_iff)
  have ref: "fst (render (mo_imageRef demo_merge) (p_storage demo_routing) ?s) = Inr ''img''"
    by (simp add: demo_merge_def render_def)
  have fresh: "fresh_image demo_merge ''img'' demo_df x" for x
    by (simp add: fresh_image_def demo_merge_def getVerifiedFromRefStore_def RefStore_Get_def computeCacheKeyDigest_def io_bind_def io_wrap_def)
  have laws: "routing_laws (p_storage demo_routing) demo_merge demo_df demo_digest log_read" "p_condition demo_routing = None"
    "p_operations demo_routing = [MergeDockerRootOp demo_merge]"
    using demo_routing_laws by (simp_all add: demo_routing_def)
  have up: "mo_uploader demo_merge demo_df = demo_uploader" "u_buildUser demo_uploader = demo_user"
    by (simp_all add: demo_merge_def demo_uploader_def NewImageToCasUploader_def)
  have img: "GetImageFromRef (u_registry demo_uploader) (u_puller demo_uploader) ref w0 = (Inr (demo_two_layers, id), w0)" for ref w0
    by (simp add: demo_uploader_def NewImageToCasUploader_def GetImageFromRef_def getImageFromRefImpl_def
        getAuthForRegistry_def validateImageSize_def total_size_def add64_def demo_two_layers_def io_bind_def io_wrap_def)
  have input: "cas_lookup (log_read (snd demo_routed)) (demo_key 0) [''a.c''] = Some (EFile (demo_key 5) False)" by code_simp
  obtain ess fs where "image_layers demo_two_layers = Inr (map layer_entries ess)"
    "image_effect demo_digest demo_user ess (lookup newUploadDirState) fs"
    "\<forall>n q. cas_lookup (log_read (snd demo_routed)) (inputRootDigest action') (n # q) =
        (if n = BazelInputRootDirectoryName then cas_lookup (log_read (snd demo_routed)) (demo_key 0) q else fs (n # q))"
    using routed_action_shows_image[OF laws run ref fresh] unfolding up img by (auto simp: merge_state_def)
  then show ?thesis
    using input run by (intro exI[of _ action'] exI[of _ ess] exI[of _ fs]) (simp add: BazelInputRootDirectoryName_def prod_eq_iff)
qed

end
