(* ===== verification/Logging.thy ===== *)
theory Logging
  imports Go_Strings
begin

text \<open>
  \<open>src/pkg/logging/logging.go\<close>: the level of the process-wide logger comes from an environment
  variable. The level names are read by \<open>slog.Level.UnmarshalText\<close> of the standard library, which
  is modelled here as far as \<open>Configure\<close> uses it.
\<close>

section \<open>Definitions\<close>

definition LevelEnvVar :: string where
  "LevelEnvVar = ''LOG_LEVEL''"

text \<open>\<open>slog.LevelInfo\<close>.\<close>

definition DefaultLevel :: int where
  "DefaultLevel = 0"

text \<open>
  \<open>strings.ToUpper\<close> as far as the level names need it: the ASCII letters, and the dotless i
  (\<open>0xC4 0xB1\<close>), the only other rune whose upper case is a letter of one of the names.
\<close>

definition to_upper_char :: "char \<Rightarrow> char" where
  "to_upper_char c = (if 97 \<le> (of_char c :: nat) \<and> (of_char c :: nat) \<le> 122
     then char_of ((of_char c :: nat) - 32) else c)"

fun to_upper :: "string \<Rightarrow> string" where
  "to_upper (c # d # s) =
     (if c = CHR 0xC4 \<and> d = CHR 0xB1 then CHR ''I'' # to_upper s else to_upper_char c # to_upper (d # s))"
| "to_upper [c] = [to_upper_char c]"
| "to_upper [] = []"

definition level_name :: "string \<Rightarrow> int option" where
  "level_name n =
     (let u = to_upper n
      in if u = ''DEBUG'' then Some (- 4) else if u = ''INFO'' then Some 0
         else if u = ''WARN'' then Some 4 else if u = ''ERROR'' then Some 8 else None)"

definition is_sign :: "char \<Rightarrow> bool" where
  "is_sign c \<longleftrightarrow> c = CHR ''+'' \<or> c = CHR ''-''"

text \<open>
  \<open>Level.UnmarshalText\<close>: what follows the first sign is the offset, sign included. The sum wraps
  like every \<open>int\<close>.
\<close>

definition UnmarshalText :: "string \<Rightarrow> int res" where
  "UnmarshalText s =
     (let name = takeWhile (\<lambda>c. \<not> is_sign c) s; rest = dropWhile (\<lambda>c. \<not> is_sign c) s
      in case (if rest = [] then Some 0 else atoi rest) of
           None \<Rightarrow> Inl (Errorf Unknown ''slog: level string %q: %w'' [s])
         | Some offset \<Rightarrow>
             (case level_name name of
                None \<Rightarrow> Inl (Errorf Unknown ''slog: level string %q: unknown name'' [s])
              | Some l \<Rightarrow> Inr (add64 l offset)))"

text \<open>\<open>setDefault\<close> installs the text handler with a level.\<close>

definition Configure :: "(string \<Rightarrow> string) \<Rightarrow> (int \<Rightarrow> 'w \<Rightarrow> 'w) \<Rightarrow> ('w, unit) io" where
  "Configure getenv setDefault w =
     (let s = getenv LevelEnvVar
      in case (if s = '''' then Inr DefaultLevel
               else wrap_err (Wrap ''invalid %s value %q: %w'' [LevelEnvVar, s]) (UnmarshalText s)) of
           Inl e \<Rightarrow> (Inl e, w)
         | Inr level \<Rightarrow> (Inr (), setDefault level w))"

section \<open>Levels\<close>

lemma show_int_sign: "k < 0 \<Longrightarrow> show_int k = CHR ''-'' # show_nat (nat (- k))"
  by (simp add: show_int_def)

lemma atoi_plus: "int n < 2 ^ 63 \<Longrightarrow> atoi (CHR ''+'' # show_nat n) = Some (int n)"
  using atoi_unsigned_show_nat[of n] by (simp add: atoi_def Let_def)

text \<open>A level is a name, in any case, with an optional signed offset.\<close>

theorem level_with_offset:
  assumes "level_name n = Some l" and "list_all (\<lambda>c. \<not> is_sign c) n" and "- (2 ^ 63) \<le> k" and "k < 2 ^ 63"
    and "- (2 ^ 63) \<le> l + k" and "l + k < 2 ^ 63"
  shows "UnmarshalText (n @ (if k < 0 then show_int k else CHR ''+'' # show_nat (nat k))) = Inr (l + k)"
proof -
  let ?off = "if k < 0 then show_int k else CHR ''+'' # show_nat (nat k)"
  obtain c cs where off: "?off = c # cs" "is_sign c"
    using show_int_sign[of k] by (cases "k < 0") (auto simp: is_sign_def)
  have tw: "takeWhile (\<lambda>c. \<not> is_sign c) (n @ c # cs) = n" "dropWhile (\<lambda>c. \<not> is_sign c) (n @ c # cs) = c # cs"
    using assms(2) off(2) by (auto simp: list_all_iff takeWhile_append dropWhile_append)
  have "atoi (c # cs) = Some k"
    using off(1) assms(3,4) atoi_show_int[of k] atoi_plus[of "nat k"] by (auto split: if_splits)
  then show ?thesis
    unfolding off(1) using tw assms(1) add64_exact[OF assms(5,6)] by (simp add: UnmarshalText_def)
qed

lemma configure_error_keeps_logger: "Configure getenv setDefault w = (Inl e, w') \<Longrightarrow> w' = w"
  by (auto simp: Configure_def Let_def split: sum.splits if_splits)

lemma configure_default: "getenv LevelEnvVar = '''' \<Longrightarrow> Configure getenv setDefault w = (Inr (), setDefault 0 w)"
  by (simp add: Configure_def DefaultLevel_def)

text \<open>The example of the documentation.\<close>

lemma debug_minus_four: "UnmarshalText ''debug-4'' = Inr (- 8)" "isl (UnmarshalText ''verbose'')"
  by code_simp+

end
