(* ===== verification/Action_Router.thy ===== *)
theory Action_Router
  imports Pipeline Logging
begin

text \<open>
  \<open>src/cmd/bb_docker_action_router/main.go\<close>: the gRPC method that routes an action through the
  pipeline and derives the keys by which the scheduler groups the actions. The parsing of instance
  names and digest functions, and the packing of messages into \<open>Any\<close>, are parameters.
\<close>

section \<open>Definitions\<close>

record route_request =
  rq_action :: "action option"
  rq_instanceName :: string
  rq_digestFunction :: int
  rq_metadata :: "request_metadata option"

text \<open>A key: the user's authentication metadata, or a message with the tool invocation ID only.\<close>

datatype invocation_key = AuthKey string | ToolInvocationKey string

record route_response =
  rs_action :: action
  rs_invocationKeys :: "invocation_key list"

text \<open>
  \<open>anyNew\<close> is \<open>anypb.New\<close>, which may fail; \<open>re_auth\<close> the public authentication metadata of
  the request's context.
\<close>

record router_env =
  newInstanceName :: "string \<Rightarrow> string res"
  getDigestFunction :: "string \<Rightarrow> int \<Rightarrow> digest_function res"
  re_auth :: string
  anyNew :: "invocation_key \<Rightarrow> invocation_key res"

definition extractInvocationKeys :: "router_env \<Rightarrow> request_metadata option \<Rightarrow> invocation_key list res" where
  "extractInvocationKeys env metadata =
     rbind (wrap_err (Wrap ''Failed to create authentication metadata key'' []) (anyNew env (AuthKey (re_auth env)))) (\<lambda>authKey.
       case metadata of
         None \<Rightarrow> Inr [authKey]
       | Some m \<Rightarrow>
           rbind (wrap_err (Wrap ''Failed to create tool invocation ID key'' [])
                    (anyNew env (ToolInvocationKey (toolInvocationId m)))) (\<lambda>toolKey.
             Inr [authKey, toolKey]))"

definition routeActionImpl ::
  "router_env \<Rightarrow> ('w, 'd) Pipeline \<Rightarrow> route_request \<Rightarrow> ('w, route_response) io"
where
  "routeActionImpl env p request =
     (case rq_action request of
        None \<Rightarrow> io_pure (Inl (Errorf InvalidArgument ''Action cannot be nil'' []))
      | Some action \<Rightarrow>
          io_bind (io_pure (wrap_err (Wrap ''Failed to parse instance name'' []) (newInstanceName env (rq_instanceName request)))) (\<lambda>inst.
            io_bind (io_pure (wrap_err (Wrap ''Failed to create digest function'' [])
                       (getDigestFunction env inst (rq_digestFunction request)))) (\<lambda>df.
              io_bind (io_wrap (Wrap ''Failed to handle Docker action'' []) (HandleAction p action (rq_metadata request) df)) (\<lambda>updated.
                io_bind (io_pure (wrap_err (Wrap ''Failed to extract invocation keys'' [])
                           (extractInvocationKeys env (rq_metadata request)))) (\<lambda>keys.
                  io_pure (Inr \<lparr>rs_action = updated, rs_invocationKeys = keys\<rparr>))))))"

text \<open>\<open>RouteAction\<close> also counts the result; the counters of success and error are part of the result.\<close>

definition RouteAction ::
  "router_env \<Rightarrow> ('w, 'd) Pipeline \<Rightarrow> route_request \<Rightarrow> ('w \<times> string list) \<Rightarrow> route_response res \<times> 'w \<times> string list"
where
  "RouteAction env p request = (\<lambda>(w, actionsProcessed).
     case routeActionImpl env p request w of
       (r, w') \<Rightarrow> (r, w', actionsProcessed @ [if isl r then ''error'' else ''success'']))"

text \<open>
  \<open>main\<close>: the steps of the start, each of which may fail. \<open>rm_newStorage\<close> makes the storages of
  the configuration, \<open>rm_serve\<close> starts the gRPC servers with the service that uses the pipeline,
  \<open>rm_markReadyAndWait\<close> is the life cycle state of bb-storage.
\<close>

record ('w, 'd) router_main_env =
  rm_args :: "string list"
  rm_getenv :: "string \<Rightarrow> string"
  rm_setLogger :: "int \<Rightarrow> 'w \<Rightarrow> 'w"
  rm_readConfig :: "string \<Rightarrow> ('w, application_config) io"
  rm_applyGlobal :: "application_config \<Rightarrow> ('w, unit) io"
  rm_newStorage :: "application_config \<Rightarrow> ('w, ('w, 'd) pipeline_env) io"
  rm_serve :: "('w, 'd) Pipeline \<Rightarrow> ('w, unit) io"
  rm_markReadyAndWait :: "'w \<Rightarrow> 'w"

definition router_main :: "('w, 'd) router_main_env \<Rightarrow> ('w, unit) io" where
  "router_main env =
     io_bind (io_wrap (WrapWithCode InvalidArgument ''Failed to configure logging'' []) (Configure (rm_getenv env) (rm_setLogger env))) (\<lambda>_.
       if length (rm_args env) \<noteq> 2
       then io_pure (Inl (Errorf InvalidArgument ''Usage: bb_docker_action_router bb_docker_action_router_config'' []))
       else io_bind (io_wrap (Wrap ''Failed to read configuration from %s'' [rm_args env ! 1]) (rm_readConfig env (rm_args env ! 1))) (\<lambda>configuration.
         io_bind (io_wrap (Wrap ''Failed to apply global configuration options'' []) (rm_applyGlobal env configuration)) (\<lambda>_.
           io_bind (io_wrap (Wrap ''Failed to create blobstore'' []) (rm_newStorage env configuration)) (\<lambda>storage.
             io_bind (io_pure (wrap_err (Wrap ''Failed to create action pipeline'' []) (NewPipeline storage configuration))) (\<lambda>pipeline.
               io_bind (io_wrap (Wrap ''gRPC server failure'' []) (rm_serve env pipeline)) (\<lambda>_ w.
                 (Inr (), rm_markReadyAndWait env w)))))))"

section \<open>Properties\<close>

text \<open>
  The servers are started with a pipeline that has one compiled operation per configured one; a
  configuration without a pipeline, or with an operation that does not compile, starts nothing.
\<close>

lemma router_main_serves:
  assumes "router_main env w = (Inr (), w')"
  shows "\<exists>config pc storage p w1 w2. ac_pipeline config = Some pc \<and> NewPipeline storage config = Inr p
    \<and> length (p_operations p) = length (pc_operations pc)
    \<and> rm_serve env p w1 = (Inr (), w2) \<and> w' = rm_markReadyAndWait env w2"
proof -
  obtain config storage p w1 w2 where p: "NewPipeline storage config = Inr p"
    and "rm_serve env p w1 = (Inr (), w2)" "w' = rm_markReadyAndWait env w2"
    using assms by (auto simp: router_main_def elim!: io_bind_InrE split: if_splits)
  moreover obtain pc ops where "ac_pipeline config = Some pc"
    and b: "build_operations storage 0 (ac_maximumMessageSizeBytes config) (pc_operations pc) = Inr ops"
    and "p_operations p = ops"
    using p by (auto simp: NewPipeline_def split: option.splits if_splits)
  moreover have "length ops = length (pc_operations pc)"
    using build_operations_result[where env = storage and i = 0 and m = "ac_maximumMessageSizeBytes config" and cs = "pc_operations pc"] b by simp
  ultimately show ?thesis by blast
qed

lemma router_main_rejects:
  assumes "router_main env w = (r, w')" and "\<And>c w storage w'. rm_newStorage env c w = (Inr storage, w') \<Longrightarrow> isl (NewPipeline storage c)"
  shows "isl r"
  using assms(1) assms(2) by (cases r) (fastforce simp: router_main_def elim!: io_bind_InrE split: if_splits)+


text \<open>A request that the demo pipeline handles, and one without an action.\<close>

definition demo_router :: router_env where
  "demo_router = \<lparr>newInstanceName = Inr, getDigestFunction = (\<lambda>i v. Inr \<lparr>instanceName = i, enumValue = v\<rparr>),
     re_auth = ''alice'', anyNew = Inr\<rparr>"

definition demo_request :: "action option \<Rightarrow> route_request" where
  "demo_request a = \<lparr>rq_action = a, rq_instanceName = '''', rq_digestFunction = 1, rq_metadata = None\<rparr>"


end
