(* ===== verification/Merge_Concurrency.thy ===== *)
theory Merge_Concurrency
  imports Merge_Op
begin

text \<open>
  Concurrent calls of \<open>getDirDigest\<close> of \<open>src/pkg/actionrouter/op_merge.go\<close>. Every action that is
  routed calls it, all calls share the cache, and a \<open>singleflight\<close> group joins the calls that
  miss the cache with the same key: the first one runs the function, with its own context, and
  the others wait and get its result. The function runs in one step here; what other programs do
  to the storages meanwhile, and the expiry of cache entries, are the steps \<open>other\<close>.
\<close>

section \<open>Definitions\<close>

datatype merge_phase =
    Asked
  | Missed
  | Leading
  | Joined nat
  | Got "digest res"

text \<open>
  \<open>mc_flights\<close> is the map of the group, from keys to leading calls. \<open>mc_log\<close> lists the results of
  the function with their keys; the program does not have it.
\<close>

record 'w merge_calls =
  mc_world :: 'w
  mc_calls :: "nat \<Rightarrow> merge_phase"
  mc_flights :: "string \<rightharpoonup> nat"
  mc_log :: "(string \<times> digest res) list"

text \<open>A request: the image reference, the digest function, and the context of the action.\<close>

record merge_request =
  mr_ref :: string
  mr_df :: digest_function
  mr_ctxErr :: "nat \<Rightarrow> nat \<Rightarrow> go_error option"

definition request_key :: "merge_request \<Rightarrow> string" where
  "request_key q = cache_string (mr_df q) (mr_ref q)"

definition run_fetch :: "('w, 'd) mergeDockerRootOp \<Rightarrow> merge_request \<Rightarrow> ('w, digest) io" where
  "run_fetch mo q = fetch_digest (mo\<lparr>mo_ctxErr := mr_ctxErr q\<rparr>) (mr_ref q) (mr_df q)"

definition set_call :: "nat \<Rightarrow> merge_phase \<Rightarrow> 'w merge_calls \<Rightarrow> 'w merge_calls" where
  "set_call i p s = s\<lparr>mc_calls := (mc_calls s)(i := p)\<rparr>"

definition calls_start :: "'w \<Rightarrow> 'w merge_calls" where
  "calls_start w = \<lparr>mc_world = w, mc_calls = (\<lambda>_. Asked), mc_flights = Map.empty, mc_log = []\<rparr>"

inductive merge_step ::
  "('w, 'd) mergeDockerRootOp \<Rightarrow> (nat \<Rightarrow> merge_request) \<Rightarrow> ('w \<Rightarrow> 'w \<Rightarrow> bool) \<Rightarrow> 'w merge_calls \<Rightarrow> 'w merge_calls \<Rightarrow> bool"
  for mo req ext
where
  hit: "mc_calls s i = Asked \<Longrightarrow> mo_cacheGet mo (request_key (req i)) (mc_world s) = (Some d, w) \<Longrightarrow>
    merge_step mo req ext s (set_call i (Got (Inr d)) (s\<lparr>mc_world := w\<rparr>))"
| miss: "mc_calls s i = Asked \<Longrightarrow> mo_cacheGet mo (request_key (req i)) (mc_world s) = (None, w) \<Longrightarrow>
    merge_step mo req ext s (set_call i Missed (s\<lparr>mc_world := w\<rparr>))"
| lead: "mc_calls s i = Missed \<Longrightarrow> mc_flights s (request_key (req i)) = None \<Longrightarrow>
    merge_step mo req ext s (set_call i Leading (s\<lparr>mc_flights := (mc_flights s)(request_key (req i) \<mapsto> i)\<rparr>))"
| join: "mc_calls s i = Missed \<Longrightarrow> mc_flights s (request_key (req i)) = Some j \<Longrightarrow>
    merge_step mo req ext s (set_call i (Joined j) s)"
| fetch: "mc_calls s i = Leading \<Longrightarrow> run_fetch mo (req i) (mc_world s) = (r, w) \<Longrightarrow>
    merge_step mo req ext s (set_call i (Got r) (s\<lparr>mc_world := w,
      mc_flights := (mc_flights s)(request_key (req i) := None), mc_log := (request_key (req i), r) # mc_log s\<rparr>))"
| deliver: "mc_calls s i = Joined j \<Longrightarrow> mc_calls s j = Got r \<Longrightarrow> merge_step mo req ext s (set_call i (Got r) s)"
| other: "ext (mc_world s) w \<Longrightarrow> merge_step mo req ext s (s\<lparr>mc_world := w\<rparr>)"

section \<open>The invariant\<close>

text \<open>
  The cache: a lookup returns what is cached, entries appear only by being set, and neither the
  storages nor other programs add one.
\<close>

definition cache_laws :: "('w, 'd) mergeDockerRootOp \<Rightarrow> ('w \<Rightarrow> 'w \<Rightarrow> bool) \<Rightarrow> ('w \<Rightarrow> string \<rightharpoonup> digest) \<Rightarrow> bool" where
  "cache_laws mo ext cached \<longleftrightarrow>
     (\<forall>k w x w'. mo_cacheGet mo k w = (x, w') \<longrightarrow> cached w' \<subseteq>\<^sub>m cached w \<and> (x = None \<or> x = cached w k))
   \<and> (\<forall>k d w. cached (mo_cacheSet mo k d w) \<subseteq>\<^sub>m (cached w)(k \<mapsto> d))
   \<and> (\<forall>ref df w. cached (snd (getVerifiedFromRefStore mo ref df w)) \<subseteq>\<^sub>m cached w)
   \<and> (\<forall>ctx ref df w. cached (snd (UploadImageToCAS (mo_uploader mo df) ctx ref w)) \<subseteq>\<^sub>m cached w)
   \<and> (\<forall>ref d df w. cached (snd (RefStore_Put (mo_refStore mo) (mo_buildUser mo) ref d df w)) \<subseteq>\<^sub>m cached w)
   \<and> (\<forall>w w'. ext w w' \<longrightarrow> cached w' \<subseteq>\<^sub>m cached w)"

definition merge_ok :: "(nat \<Rightarrow> merge_request) \<Rightarrow> ('w \<Rightarrow> string \<rightharpoonup> digest) \<Rightarrow> 'w merge_calls \<Rightarrow> bool" where
  "merge_ok req cached s \<longleftrightarrow>
     (\<forall>k j. mc_flights s k = Some j \<longleftrightarrow> mc_calls s j = Leading \<and> request_key (req j) = k)
   \<and> (\<forall>i j. mc_calls s i = Joined j \<longrightarrow> request_key (req j) = request_key (req i)
        \<and> (mc_calls s j = Leading \<or> (\<exists>r. mc_calls s j = Got r)))
   \<and> (\<forall>i r. mc_calls s i = Got r \<longrightarrow> (request_key (req i), r) \<in> set (mc_log s))
   \<and> (\<forall>k d. cached (mc_world s) k = Some d \<longrightarrow> (k, Inr d) \<in> set (mc_log s))"

lemma cache_lawsD:
  assumes "cache_laws mo ext cached"
  shows "mo_cacheGet mo k w = (x, w') \<Longrightarrow> cached w' c = Some g \<Longrightarrow> cached w c = Some g"
    and "mo_cacheGet mo k w = (Some d, w') \<Longrightarrow> cached w k = Some d"
    and "cached (mo_cacheSet mo k d w) c = Some g \<Longrightarrow> cached w c = Some g \<or> c = k \<and> g = d"
    and "getVerifiedFromRefStore mo ref df w = (v, w') \<Longrightarrow> cached w' c = Some g \<Longrightarrow> cached w c = Some g"
    and "UploadImageToCAS (mo_uploader mo df) ctx ref w = (u, w') \<Longrightarrow> cached w' c = Some g \<Longrightarrow> cached w c = Some g"
    and "RefStore_Put (mo_refStore mo) (mo_buildUser mo) ref d df w = (p, w') \<Longrightarrow> cached w' c = Some g \<Longrightarrow> cached w c = Some g"
    and "ext w w' \<Longrightarrow> cached w' c = Some g \<Longrightarrow> cached w c = Some g"
proof -
  have le: "m \<subseteq>\<^sub>m m' \<Longrightarrow> m c = Some g \<Longrightarrow> m' c = Some g" for m m' :: "string \<rightharpoonup> digest"
    by (metis domI map_le_def)
  note L = assms[unfolded cache_laws_def]
  show "mo_cacheGet mo k w = (x, w') \<Longrightarrow> cached w' c = Some g \<Longrightarrow> cached w c = Some g"
    using L le by metis
  show "mo_cacheGet mo k w = (Some d, w') \<Longrightarrow> cached w k = Some d"
    using L by (metis option.distinct(1))
  show "cached (mo_cacheSet mo k d w) c = Some g \<Longrightarrow> cached w c = Some g \<or> c = k \<and> g = d"
    using L le[of "cached (mo_cacheSet mo k d w)" "(cached w)(k \<mapsto> d)"] by (auto split: if_splits)
  show "getVerifiedFromRefStore mo ref df w = (v, w') \<Longrightarrow> cached w' c = Some g \<Longrightarrow> cached w c = Some g"
    using L le by (metis snd_conv)
  show "UploadImageToCAS (mo_uploader mo df) ctx ref w = (u, w') \<Longrightarrow> cached w' c = Some g \<Longrightarrow> cached w c = Some g"
    using L le by (metis snd_conv)
  show "RefStore_Put (mo_refStore mo) (mo_buildUser mo) ref d df w = (p, w') \<Longrightarrow> cached w' c = Some g \<Longrightarrow> cached w c = Some g"
    using L le by (metis snd_conv)
  show "ext w w' \<Longrightarrow> cached w' c = Some g \<Longrightarrow> cached w c = Some g"
    using L le by metis
qed

text \<open>A run of the function adds at most its own result to the cache.\<close>

lemma run_fetch_cached:
  assumes laws: "cache_laws mo ext cached" and run: "run_fetch mo q w = (r, w')" and c: "cached w' k = Some d"
  shows "cached w k = Some d \<or> k = request_key q \<and> r = Inr d"
proof -
  note L = cache_lawsD[OF laws]
  let ?mo = "mo\<lparr>mo_ctxErr := mr_ctxErr q\<rparr>"
  have same: "getVerifiedFromRefStore ?mo = getVerifiedFromRefStore mo"
    by (simp add: fun_eq_iff getVerifiedFromRefStore_def)
  obtain v w1 where v: "getVerifiedFromRefStore mo (mr_ref q) (mr_df q) w = (v, w1)" by fastforce
  obtain u w2 where u: "UploadImageToCAS (mo_uploader mo (mr_df q)) (mr_ctxErr q) (mr_ref q) w1 = (u, w2)" by fastforce
  obtain p w3 where p: "RefStore_Put (mo_refStore mo) (mo_buildUser mo) (mr_ref q) (projr u) (mr_df q) w2 = (p, w3)" by fastforce
  note keeps = L(4)[OF v, of k d] L(5)[OF u, of k d] L(6)[OF p, of k d]
  note run' = run[unfolded run_fetch_def fetch_digest_def same v]
  show ?thesis
  proof (cases v)
    case (Inr g)
    then show ?thesis
      using run' c L(3)[of "cache_string (mr_df q) (mr_ref q)" g w1 k d] keeps by (auto simp: request_key_def)
  next
    case (Inl e)
    then show ?thesis
      using run' c u p keeps L(3)[of "cache_string (mr_df q) (mr_ref q)" "projr u" w3 k d]
      by (cases u; cases p) (auto simp: request_key_def split: if_splits)
  qed
qed

lemma merge_okD:
  assumes "merge_ok req cached s"
  shows "mc_flights s k = Some j \<longleftrightarrow> mc_calls s j = Leading \<and> request_key (req j) = k"
    and "mc_calls s i = Joined j \<Longrightarrow> request_key (req j) = request_key (req i) \<and> (mc_calls s j = Leading \<or> (\<exists>r. mc_calls s j = Got r))"
    and "mc_calls s i = Got r \<Longrightarrow> (request_key (req i), r) \<in> set (mc_log s)"
    and "cached (mc_world s) k = Some d \<Longrightarrow> (k, Inr d) \<in> set (mc_log s)"
  using assms unfolding merge_ok_def by simp_all

lemma merge_okI:
  assumes "\<And>k j. mc_flights s k = Some j \<longleftrightarrow> mc_calls s j = Leading \<and> request_key (req j) = k"
    and "\<And>i j. mc_calls s i = Joined j \<Longrightarrow> request_key (req j) = request_key (req i) \<and> (mc_calls s j = Leading \<or> (\<exists>r. mc_calls s j = Got r))"
    and "\<And>i r. mc_calls s i = Got r \<Longrightarrow> (request_key (req i), r) \<in> set (mc_log s)"
    and "\<And>k d. cached (mc_world s) k = Some d \<Longrightarrow> (k, Inr d) \<in> set (mc_log s)"
  shows "merge_ok req cached s"
  using assms unfolding merge_ok_def by simp

lemma merge_step_ok:
  assumes laws: "cache_laws mo ext cached" and "merge_step mo req ext s s'" and ok: "merge_ok req cached s"
  shows "merge_ok req cached s'"
  using assms(2)
proof (cases rule: merge_step.cases)
  case (hit i d w)
  note C = cache_lawsD(1,2)[OF laws]
  show ?thesis
    by (rule merge_okI)
      (use hit merge_okD[OF ok] C[OF hit(3)] in \<open>auto simp: set_call_def split: if_splits\<close>)
next
  case (miss i w)
  note C = cache_lawsD(1)[OF laws]
  have "mc_calls s k \<noteq> Joined i" for k using merge_okD(2)[OF ok, of k i] miss(2) by auto
  then show ?thesis
    by - (rule merge_okI, use miss merge_okD[OF ok] C[OF miss(3)] in \<open>auto simp: set_call_def split: if_splits\<close>)
next
  case (lead i)
  have "mc_calls s k \<noteq> Joined i" for k using merge_okD(2)[OF ok, of k i] lead(2) by auto
  moreover have "mc_calls s j = Leading \<Longrightarrow> request_key (req j) \<noteq> request_key (req i)" for j
    using merge_okD(1)[OF ok, of "request_key (req i)" j] lead(3) by auto
  ultimately show ?thesis
    by - (rule merge_okI, use lead merge_okD[OF ok] in \<open>auto simp: set_call_def split: if_splits\<close>)
next
  case (join i j)
  have "mc_calls s k \<noteq> Joined i" for k using merge_okD(2)[OF ok, of k i] join(2) by auto
  moreover have "mc_calls s j = Leading" "request_key (req j) = request_key (req i)"
    using merge_okD(1)[OF ok] join(3) by blast+
  ultimately show ?thesis
    by - (rule merge_okI, use join merge_okD[OF ok] in \<open>auto simp: set_call_def split: if_splits\<close>)
next
  case (fetch i r w)
  have uniq: "mc_calls s j = Leading \<Longrightarrow> request_key (req j) = request_key (req i) \<Longrightarrow> j = i" for j
    using merge_okD(1)[OF ok] fetch(2) by (metis option.inject)
  show ?thesis
  proof (rule merge_okI)
    show "mc_flights s' k = Some j \<longleftrightarrow> mc_calls s' j = Leading \<and> request_key (req j) = k" for k j
      using merge_okD(1)[OF ok, of k j] uniq[of j] fetch(2) by (auto simp: fetch(1) set_call_def)
    show "request_key (req j) = request_key (req k) \<and> (mc_calls s' j = Leading \<or> (\<exists>r. mc_calls s' j = Got r))"
      if "mc_calls s' k = Joined j" for k j
      using merge_okD(2)[OF ok, of k j] that by (auto simp: fetch(1) set_call_def split: if_splits)
    show "(request_key (req k), x) \<in> set (mc_log s')" if "mc_calls s' k = Got x" for k x
      using merge_okD(3)[OF ok, of k x] that by (auto simp: fetch(1) set_call_def split: if_splits)
    show "(k, Inr d) \<in> set (mc_log s')" if "cached (mc_world s') k = Some d" for k d
      using run_fetch_cached[OF laws fetch(3), of k d] merge_okD(4)[OF ok, of k d] that
      by (auto simp: fetch(1) set_call_def)
  qed
next
  case (deliver i j r)
  have "(request_key (req i), r) \<in> set (mc_log s)"
    using merge_okD(2)[OF ok deliver(2)] merge_okD(3)[OF ok deliver(3)] by simp
  then show ?thesis
    by - (rule merge_okI, use deliver merge_okD[OF ok] in \<open>auto simp: set_call_def split: if_splits\<close>)
next
  case (other w)
  note C = cache_lawsD(7)[OF laws]
  show ?thesis by (rule merge_okI) (use other merge_okD[OF ok] C[OF other(2)] in auto)
qed

lemma merge_reachable_ok:
  assumes "cache_laws mo ext cached" and "cached w = Map.empty" and "(merge_step mo req ext)\<^sup>*\<^sup>* (calls_start w) s"
  shows "merge_ok req cached s"
  using assms(3)
proof (induction rule: rtranclp_induct)
  case base
  show ?case using assms(2) by (simp add: merge_ok_def calls_start_def)
next
  case (step s s')
  then show ?case using merge_step_ok[OF assms(1)] by blast
qed

section \<open>Properties\<close>


definition done_call :: "nat \<Rightarrow> 'w merge_calls \<Rightarrow> bool" where
  "done_call i s \<longleftrightarrow> (\<exists>r. mc_calls s i = Got r)"

lemma finish_leading:
  assumes "mc_calls s j = Leading"
  shows "\<exists>s' r. merge_step mo req ext s s' \<and> mc_calls s' j = Got r \<and> (\<forall>i. i \<noteq> j \<longrightarrow> mc_calls s' i = mc_calls s i)"
proof -
  obtain r w where "run_fetch mo (req j) (mc_world s) = (r, w)" by fastforce
  from merge_step.fetch[where req = req, OF assms this] show ?thesis by (fastforce simp: set_call_def)
qed

lemma finish_joined:
  assumes "mc_calls s i = Joined j" and "merge_ok req cached s"
  shows "\<exists>s'. (merge_step mo req ext)\<^sup>*\<^sup>* s s' \<and> done_call i s'"
proof -
  have deliver: "\<exists>s2. merge_step mo req ext s1 s2 \<and> done_call i s2" if "mc_calls s1 i = Joined j" "mc_calls s1 j = Got r" for s1 r
    using merge_step.deliver[OF that, of mo req ext] by (fastforce simp: done_call_def set_call_def)
  consider "mc_calls s j = Leading" | r where "mc_calls s j = Got r" using merge_okD(2)[OF assms(2,1)] by blast
  then show ?thesis
  proof cases
    case 1
    then have "i \<noteq> j" using assms(1) by auto
    with finish_leading[OF 1, of mo req ext] obtain s1 r where "merge_step mo req ext s s1" "mc_calls s1 j = Got r" "mc_calls s1 i = Joined j"
      using assms(1) by metis
    then show ?thesis using deliver by (meson rtranclp.rtrancl_into_rtrancl r_into_rtranclp)
  next
    case 2
    then show ?thesis using deliver[OF assms(1)] by blast
  qed
qed

lemma finish_missed:
  assumes "mc_calls s i = Missed" and "merge_ok req cached s" and laws: "cache_laws mo ext cached"
  shows "\<exists>s'. (merge_step mo req ext)\<^sup>*\<^sup>* s s' \<and> done_call i s'"
proof (cases "mc_flights s (request_key (req i))")
  case None
  let ?s = "set_call i Leading (s\<lparr>mc_flights := (mc_flights s)(request_key (req i) \<mapsto> i)\<rparr>)"
  have "merge_step mo req ext s ?s" by (rule merge_step.lead[where req = req, OF assms(1) None])
  moreover have "mc_calls ?s i = Leading" by (simp add: set_call_def)
  ultimately show ?thesis
    using finish_leading[of ?s i mo req ext] unfolding done_call_def by (meson converse_rtranclp_into_rtranclp r_into_rtranclp)
next
  case (Some j)
  let ?s = "set_call i (Joined j) s"
  have step: "merge_step mo req ext s ?s" by (rule merge_step.join[where req = req, OF assms(1) Some])
  have "mc_calls ?s i = Joined j" by (simp add: set_call_def)
  from finish_joined[OF this merge_step_ok[OF laws step assms(2)], of mo ext] show ?thesis
    using step by (meson converse_rtranclp_into_rtranclp)
qed


section \<open>A joined call fails with its leader\<close>

text \<open>
  Two calls for the same image, whose image has one layer with one device file. The world is the
  cache; the reference store is empty. The context of call 0 is cancelled, that of call 1 is not.
\<close>

definition joint_uploader :: "((string \<times> digest) list, unit) ImageToCASUploader" where
  "joint_uploader = NewImageToCasUploader
     \<lparr>parseReference = (\<lambda>s. Inr \<lparr>registryStr = ''r'', digestStr = s\<rparr>), remoteGet = (\<lambda>_ _ _. Pair (Inr ())),
      descImage = (\<lambda>_. Pair (Inr \<lparr>manifest_sizes = Inr [10], image_layers = Inr [Inr [demo_entry TypeOther ''dev/null'' '''' '''']]\<rparr>)),
      cancelPull = id\<rparr>
     \<lparr>createTemp = Pair (Inr ''/tmp/casUpload1''), writeTemp = (\<lambda>_ _. Pair (Inr ())),
      removeTemp = (\<lambda>_. Pair (Inr ())), uploadBlob = (\<lambda>tf. Pair (Inr (demo_digest (tmp_data tf))))\<rparr>
     (\<lambda>_. Pair (Inr (demo_digest ''root''))) (Pair (Inr ())) \<lparr>authConfig = [], maxImageSizeBytes = 100, pullTimeout = 60\<rparr> demo_user"

definition joint_merge :: "((string \<times> digest) list, unit) mergeDockerRootOp" where
  "joint_merge = \<lparr>mo_imageRef = Emit ''img'' Done, mo_uploader = (\<lambda>_. joint_uploader), mo_ctxErr = (\<lambda>_ _. None),
     mo_refStore = \<lparr>marshal = (\<lambda>k. Inr ''''), sumDigest = (\<lambda>_ s. Inr (demo_digest s)),
       acGet = (\<lambda>_. Pair (Inl (Errorf NotFound ''no'' []))), acPut = (\<lambda>_ _. Pair (Inr ()))\<rparr>,
     mo_buildUser = demo_user,
     mo_verifier = \<lparr>v_newDigest = (\<lambda>_. Inr), v_readDirectory = (\<lambda>_. Pair (Inl (Errorf NotFound ''no'' []))),
       fetchCDC = (\<lambda>_. Pair (Inr ())), findMissing = (\<lambda>_. Pair (Inr []))\<rparr>,
     mo_depth = 9, mo_cacheGet = (\<lambda>k w. (map_of w k, w)), mo_cacheSet = (\<lambda>k d w. (k, d) # w)\<rparr>"

definition joint_request :: "nat \<Rightarrow> merge_request" where
  "joint_request i = \<lparr>mr_ref = ''img'', mr_df = \<lparr>instanceName = ''i'', enumValue = 1\<rparr>,
     mr_ctxErr = (\<lambda>_ _. if i = 0 then Some (Errorf Canceled ''context canceled'' []) else None)\<rparr>"

text \<open>All entries may expire at any time.\<close>

abbreviation expires :: "(string \<times> digest) list \<Rightarrow> (string \<times> digest) list \<Rightarrow> bool" where
  "expires w w' \<equiv> w' = []"

lemma joint_pull:
  "GetImageFromRef (u_registry joint_uploader) (u_puller joint_uploader) ref w =
     (Inr (\<lparr>manifest_sizes = Inr [10], image_layers = Inr [Inr [demo_entry TypeOther ''dev/null'' '''' '''']]\<rparr>, id), w)"
  by (simp add: GetImageFromRef_def getImageFromRefImpl_def validateImageSize_def getAuthForRegistry_def joint_uploader_def
      NewImageToCasUploader_def total_size_def add64_def io_bind_def io_wrap_def)

lemma joint_layer:
  "ExtractAndVisitLayerContents ctx (Inr [demo_entry TypeOther ''dev/null'' '''' ''''])
     (BuildUserInjectingVisitor (CASUploadingLayerExtractor env) user) (newUploadDirState, w) =
   (case ctx 0 of Some e \<Rightarrow> (Inl (Wrap ''Failed to process layer'' [] e), (newUploadDirState, w))
    | None \<Rightarrow> (Inr (), (newUploadDirState, w)))"
  by (auto simp: ExtractAndVisitLayerContents_def demo_entry_def visit_entry_def BuildUserInjectingVisitor_def
      CASUploadingLayerExtractor_def OnLayerComplete_def newUploadDirState_def io_bind_def io_wrap_def split: option.splits)

lemma joint_upload:
  "UploadImageToCAS joint_uploader ctx ref w =
     (case ctx 0 0 of Some e \<Rightarrow> Inl (Wrap ''Failed to extract layer'' [] (Wrap ''Failed to process layer'' [] e))
      | None \<Rightarrow> Inr (demo_digest ''root''), w)"
proof -
  have up: "upload (\<lambda>_. io_pure (Inr (demo_digest ''root''))) newUploadDirState w = (Inr (demo_digest ''root''), w)" for w :: "(string \<times> digest) list"
    by (simp add: newUploadDirState_def assertNoDuplicateNames_def toSlice_def io_bind_def io_wrap_def)
  show ?thesis
    unfolding UploadImageToCAS_def uploadImageToCASImpl_def joint_pull
    by (simp add: upload_layers_def UploadDirectories_def joint_layer joint_uploader_def NewImageToCasUploader_def up
        io_bind_def io_wrap_def split: option.splits)
qed

lemma joint_store:
  "getVerifiedFromRefStore joint_merge ref df w = (Inl (Errorf NotFound ''Cache entry not found for ref %s'' [ref]), w)"
  "RefStore_Put (mo_refStore joint_merge) (mo_buildUser joint_merge) ref d df w = (Inr (), w)"
  by (simp_all add: getVerifiedFromRefStore_def RefStore_Get_def RefStore_Put_def computeCacheKeyDigest_def joint_merge_def
      io_bind_def io_wrap_def)

lemma joint_laws: "cache_laws joint_merge expires map_of"
proof -
  have "cached \<subseteq>\<^sub>m cached" "Map.empty \<subseteq>\<^sub>m cached" for cached :: "string \<rightharpoonup> digest" by (simp_all add: map_le_def)
  moreover have "mo_uploader joint_merge df = joint_uploader" "mo_cacheGet joint_merge k w = (map_of w k, w)"
    "mo_cacheSet joint_merge k d w = (k, d) # w" for df k w d by (simp_all add: joint_merge_def)
  ultimately show ?thesis by (auto simp: cache_laws_def joint_store joint_upload)
qed

definition canceled :: "digest res" where
  "canceled = Inl (Wrap ''Failed to extract layer'' [] (Wrap ''Failed to process layer'' [] (Errorf Canceled ''context canceled'' [])))"

lemma joint_fetch:
  "run_fetch joint_merge (joint_request i) w =
     (if i = 0 then (canceled, w)
      else (Inr (demo_digest ''root''), (request_key (joint_request i), demo_digest ''root'') # w))"
proof -
  let ?mo = "joint_merge\<lparr>mo_ctxErr := mr_ctxErr (joint_request i)\<rparr>"
  have "getVerifiedFromRefStore ?mo ref df w = getVerifiedFromRefStore joint_merge ref df w" for ref df
    by (simp add: getVerifiedFromRefStore_def)
  moreover have "mo_uploader ?mo df = joint_uploader" "mo_cacheSet ?mo k d w = (k, d) # w" for df k d w
    by (simp_all add: joint_merge_def)
  ultimately show ?thesis
    by (simp add: run_fetch_def fetch_digest_def joint_store joint_upload joint_request_def canceled_def request_key_def)
qed

text \<open>Call 0 leads and call 1 joins.\<close>

definition joint_end :: "(string \<times> digest) list merge_calls" where
  "joint_end = \<lparr>mc_world = [], mc_calls = (\<lambda>_. Asked)(0 := Got canceled, 1 := Got canceled), mc_flights = Map.empty,
     mc_log = [(request_key (joint_request 0), canceled)]\<rparr>"

lemma joint_run: "(merge_step joint_merge joint_request expires)\<^sup>*\<^sup>* (calls_start []) joint_end"
proof -
  let ?step = "merge_step joint_merge joint_request expires" and ?k = "request_key (joint_request 0)"
  let ?st = "\<lambda>p q fl lg. \<lparr>mc_world = [], mc_calls = (\<lambda>_. Asked)(0 := p, 1 := q), mc_flights = fl, mc_log = lg\<rparr>"
  have key: "request_key (joint_request 1) = ?k" by (simp add: request_key_def joint_request_def)
  have same: "(\<lambda>_. Asked)(0 := Missed, Suc 0 := Asked) = (\<lambda>_. Asked)(0 := Missed)" by auto
  have get: "mo_cacheGet joint_merge c [] = (None, [])" for c by (simp add: joint_merge_def)
  have "?step (calls_start []) (?st Missed Asked Map.empty [])"
    using merge_step.miss[where s = "calls_start []" and i = 0 and mo = joint_merge and req = joint_request and ext = expires and w = "[]"] get
    by (simp add: calls_start_def set_call_def same)
  moreover have "?step (?st Missed Asked Map.empty []) (?st Missed Missed Map.empty [])"
    using merge_step.miss[where s = "?st Missed Asked Map.empty []" and i = 1 and mo = joint_merge and req = joint_request and ext = expires and w = "[]"] get
    by (simp add: set_call_def)
  moreover have "?step (?st Missed Missed Map.empty []) (?st Leading Missed [?k \<mapsto> 0] [])"
    using merge_step.lead[where s = "?st Missed Missed Map.empty []" and i = 0 and mo = joint_merge and req = joint_request and ext = expires]
    by (simp add: set_call_def fun_upd_twist)
  moreover have "?step (?st Leading Missed [?k \<mapsto> 0] []) (?st Leading (Joined 0) [?k \<mapsto> 0] [])"
    using merge_step.join[where s = "?st Leading Missed [?k \<mapsto> 0] []" and i = 1 and j = 0 and mo = joint_merge and req = joint_request and ext = expires] key
    by (simp add: set_call_def)
  moreover have "?step (?st Leading (Joined 0) [?k \<mapsto> 0] []) (?st (Got canceled) (Joined 0) Map.empty [(?k, canceled)])"
    using merge_step.fetch[where s = "?st Leading (Joined 0) [?k \<mapsto> 0] []" and i = 0 and mo = joint_merge and req = joint_request and ext = expires]
      joint_fetch[of 0 "[]"]
    by (simp add: set_call_def fun_upd_twist)
  moreover have "?step (?st (Got canceled) (Joined 0) Map.empty [(?k, canceled)]) joint_end"
    using merge_step.deliver[where s = "?st (Got canceled) (Joined 0) Map.empty [(?k, canceled)]" and i = 1 and j = 0
        and mo = joint_merge and req = joint_request and ext = expires]
    by (simp add: set_call_def joint_end_def)
  ultimately show ?thesis by (meson converse_rtranclp_into_rtranclp rtranclp.rtrancl_refl)
qed



text \<open>
  The function runs with the context of the leading call: when that action is cancelled, the
  joined action fails with the cancellation, although its own run would have succeeded.
\<close>

theorem joined_call_canceled:
  "(merge_step joint_merge joint_request expires)\<^sup>*\<^sup>* (calls_start []) joint_end
   \<and> mc_calls joint_end 1 = Got canceled \<and> \<not> isl (fst (run_fetch joint_merge (joint_request 1) []))"
  using joint_run by (simp add: joint_end_def joint_fetch)

end
