(* ===== verification/Temp_Files.thy ===== *)
theory Temp_Files
  imports Image_Upload
begin

text \<open>
  The temporary files of an image upload. \<open>OnFileSeen\<close> copies every file of a layer to a
  temporary file and hands it to the blob uploader, which closes and thereby removes it, at once
  or when its batch is flushed (\<open>uploadImageToCASImpl\<close> in
  \<open>src/pkg/actionrouter/image_to_cas_uploader.go\<close>, \<open>tmpFileCloser\<close> in
  \<open>src/pkg/blobstore/cas_uploading_layer_extractor.go\<close>). The theorem of this theory is that no
  temporary file outlives the upload, whichever step fails. It is a second use of the contract of
  visitors: the invariant is now about the outside world.
\<close>

section \<open>Ownership of temporary files\<close>

text \<open>
  \<open>temps w\<close> are the temporary files that exist, \<open>queued w\<close> those that the uploader holds. The
  other ones are the caller's: the set must be the same after every step.
\<close>

definition owned :: "('w \<Rightarrow> string set) \<Rightarrow> ('w \<Rightarrow> string set) \<Rightarrow> string set \<Rightarrow> 'w \<Rightarrow> bool" where
  "owned temps queued own w \<longleftrightarrow> queued w \<subseteq> temps w \<and> temps w - queued w = own"

text \<open>What package \<open>os\<close> and the batching uploader promise.\<close>

definition temp_file_laws :: "'w upload_env \<Rightarrow> ('w \<Rightarrow> string set) \<Rightarrow> ('w \<Rightarrow> string set) \<Rightarrow> bool" where
  "temp_file_laws env temps queued \<longleftrightarrow>
     (\<forall>w f w'. createTemp env w = (Inr f, w') \<longrightarrow> f \<notin> temps w \<and> temps w' = insert f (temps w) \<and> queued w' = queued w)
   \<and> (\<forall>w e w'. createTemp env w = (Inl e, w') \<longrightarrow> temps w' = temps w \<and> queued w' = queued w)
   \<and> (\<forall>f d w r w'. writeTemp env f d w = (r, w') \<longrightarrow> temps w' = temps w \<and> queued w' = queued w)
   \<and> (\<forall>f w r w'. removeTemp env f w = (r, w') \<longrightarrow> temps w' = temps w - {f} \<and> queued w' = queued w)
   \<and> (\<forall>tf w r w' own. uploadBlob env tf w = (r, w') \<longrightarrow> owned temps queued own w \<longrightarrow> tmp_name tf \<in> own
        \<longrightarrow> owned temps queued (own - {tmp_name tf}) w')"

text \<open>The other calls of an upload, and the flush, which closes all files the uploader holds.\<close>

definition upload_laws :: "('w, 'd) ImageToCASUploader \<Rightarrow> ('w \<Rightarrow> string set) \<Rightarrow> ('w \<Rightarrow> string set) \<Rightarrow> bool" where
  "upload_laws u temps queued \<longleftrightarrow> temp_file_laws (u_blobs u) temps queued
   \<and> (\<forall>own d. io_keeps (owned temps queued own) (u_putProto u d))
   \<and> (\<forall>own dl ref auth. io_keeps (owned temps queued own) (remoteGet (u_registry u) dl ref auth))
   \<and> (\<forall>own desc. io_keeps (owned temps queued own) (descImage (u_registry u) desc))
   \<and> (\<forall>own w. owned temps queued own w \<longrightarrow> owned temps queued own (cancelPull (u_registry u) w))
   \<and> (\<forall>own w. owned temps queued own w \<longrightarrow> temps (snd (u_flush u w)) = own \<and> queued (snd (u_flush u w)) = {})"

lemma temp_file_lawsD:
  assumes "temp_file_laws env temps queued"
  shows "createTemp env w = (Inr f, w') \<Longrightarrow> f \<notin> temps w \<and> temps w' = insert f (temps w) \<and> queued w' = queued w"
    and "createTemp env w = (Inl e, w') \<Longrightarrow> temps w' = temps w \<and> queued w' = queued w"
    and "writeTemp env f d w = (q, w') \<Longrightarrow> temps w' = temps w \<and> queued w' = queued w"
    and "removeTemp env f w = (q, w') \<Longrightarrow> temps w' = temps w - {f} \<and> queued w' = queued w"
    and "uploadBlob env tf w = (r, w') \<Longrightarrow> owned temps queued own w \<Longrightarrow> tmp_name tf \<in> own \<Longrightarrow>
      owned temps queued (own - {tmp_name tf}) w'"
  using assms unfolding temp_file_laws_def by simp_all

lemma upload_lawsD:
  assumes "upload_laws u temps queued"
  shows "temp_file_laws (u_blobs u) temps queued"
    and "io_keeps (owned temps queued own) (u_putProto u d)"
    and "io_keeps (owned temps queued own) (remoteGet (u_registry u) dl ref auth)"
    and "io_keeps (owned temps queued own) (descImage (u_registry u) desc)"
    and "owned temps queued own w \<Longrightarrow> owned temps queued own (cancelPull (u_registry u) w)"
    and "owned temps queued own w \<Longrightarrow> temps (snd (u_flush u w)) = own \<and> queued (snd (u_flush u w)) = {}"
  using assms unfolding upload_laws_def by simp_all

section \<open>Every callback gives the temporary file away\<close>

lemma OnFileSeen_owned:
  assumes laws: "temp_file_laws env temps queued" and own: "owned temps queued own w"
  shows "owned temps queued own (snd (snd (OnFileSeen env path data mode (root, w))))"
proof -
  note L = temp_file_lawsD[OF laws]
  obtain c w1 where c: "createTemp env w = (c, w1)" by fastforce
  show ?thesis
  proof (cases c)
    case (Inl e)
    then have "owned temps queued own w1" using L(2)[OF c[unfolded Inl]] own by (simp add: owned_def)
    then show ?thesis using own c Inl by (simp add: OnFileSeen_def Let_def split: prod.splits)
  next
    case (Inr f)
    then have "f \<notin> temps w \<and> temps w1 = insert f (temps w) \<and> queued w1 = queued w"
      using L(1)[OF c[unfolded Inr]] by blast
    then have f: "f \<notin> own" "owned temps queued (insert f own) w1"
      using own by (auto simp: owned_def)
    obtain q w2 where wr: "writeTemp env f (fst data) w1 = (q, w2)" by fastforce
    have w2: "owned temps queued (insert f own) w2"
      using L(3)[OF wr] f(2) by (simp add: owned_def)
    moreover have remove: "temps (snd (removeTemp env f w2)) = temps w2 - {f}"
      "queued (snd (removeTemp env f w2)) = queued w2"
      using L(4)[of f w2 "fst (removeTemp env f w2)" "snd (removeTemp env f w2)"] by simp_all
    ultimately have rm: "owned temps queued own (snd (removeTemp env f w2))"
      using f(1) remove by (auto simp: owned_def)
    have up: "uploadBlob env \<lparr>tmp_name = f, tmp_data = d, tmp_sizeBytes = n\<rparr> w2 = (r, x) \<Longrightarrow>
        owned temps queued own x" for d n r x
      using L(5)[OF _ w2, of "\<lparr>tmp_name = f, tmp_data = d, tmp_sizeBytes = n\<rparr>"] f(1) by simp
    show ?thesis
      using own c Inr wr rm up
      by (cases q; cases "snd data")
        (auto simp: OnFileSeen_def copy_to_temp_def io_bind_def Let_def split: prod.splits sum.splits)
  qed
qed

definition upload_inv :: "('w \<Rightarrow> string set) \<Rightarrow> ('w \<Rightarrow> string set) \<Rightarrow> string set \<Rightarrow> uploadDirState \<times> 'w \<Rightarrow> bool" where
  "upload_inv temps queued own s \<longleftrightarrow> wf_state s \<and> owned temps queued own (snd s)"

lemma temp_visitor:
  assumes "temp_file_laws env temps queued"
  shows "layer_visitor (CASUploadingLayerExtractor env) (upload_inv temps queued own)"
proof unfold_locales
  fix path target :: string and data :: reader and mode :: int
  let ?lcv = "CASUploadingLayerExtractor env"
  have keeps: "io_keeps (upload_inv temps queued own) m"
    if "io_keeps wf_state m" and "\<And>root w. owned temps queued own w \<Longrightarrow> owned temps queued own (snd (snd (m (root, w))))"
    for m :: "(uploadDirState \<times> 'a, unit) io"
    using that unfolding io_keeps_def upload_inv_def by (metis prod.collapse)
  show "io_keeps (upload_inv temps queued own) (onFileSeen ?lcv path data mode)"
    by (rule keeps[OF cas_visitor.file_keeps])
      (simp add: CASUploadingLayerExtractor_def OnFileSeen_owned[OF assms])
  show "io_keeps (upload_inv temps queued own) (onDirectorySeen ?lcv path)"
    by (rule keeps[OF cas_visitor.directory_keeps]) (simp add: CASUploadingLayerExtractor_def OnDirectorySeen_def)
  show "io_keeps (upload_inv temps queued own) (onLinkSeen ?lcv path target)"
    by (rule keeps[OF cas_visitor.link_keeps])
      (simp add: CASUploadingLayerExtractor_def OnLinkSeen_def Let_def split: prod.splits)
  show "io_keeps (upload_inv temps queued own) (onSymlinkSeen ?lcv path target)"
    by (rule keeps[OF cas_visitor.symlink_keeps])
      (simp add: CASUploadingLayerExtractor_def OnSymlinkSeen_def addSymlink_def Let_def split: prod.splits)
  show "io_keeps (upload_inv temps queued own) (onLayerComplete ?lcv)"
    by (rule keeps[OF cas_visitor.layer_keeps])
      (simp add: CASUploadingLayerExtractor_def OnLayerComplete_def split: sum.splits)
qed

section \<open>The whole upload\<close>

context layer_visitor
begin

lemma extract_layers_keeps: "io_keeps inv (extract_layers ctxErr lcv i layers)"
  by (induction layers arbitrary: i) (auto simp: extract_keeps)

end

lemma upload_layers_owned:
  assumes "upload_laws u temps queued" and "owned temps queued own w"
  shows "owned temps queued own (snd (upload_layers u ctxErr img w))"
proof -
  let ?v = "BuildUserInjectingVisitor (CASUploadingLayerExtractor (u_blobs u)) (u_buildUser u)"
  let ?inv = "upload_inv temps queued own"
  note laws = upload_lawsD(1)[OF assms(1)] and put = upload_lawsD(2)[OF assms(1)]
  have visitor: "layer_visitor ?v ?inv"
    by (rule layer_visitor.injecting_visitor[OF temp_visitor[OF laws]])
  have dirs: "io_keeps ?inv (UploadDirectories (u_putProto u))"
  proof
    fix s assume inv: "?inv s"
    obtain root w where s: "s = (root, w)" by (cases s)
    have wf: "wf_ds root" "owned temps queued own w" using inv s by (simp_all add: upload_inv_def wf_state_def)
    have "owned temps queued own (snd (upload (u_putProto u) root w))"
      by (rule upload_keeps[where I = "owned temps queued own", OF _ wf]) (rule io_keepsD[OF put])
    then show "?inv (snd (UploadDirectories (u_putProto u) s))"
      using wf wf_new
      by (cases "upload (u_putProto u) root w"; cases "fst (upload (u_putProto u) root w)")
        (simp_all add: s upload_inv_def wf_state_def UploadDirectories_def)
  qed
  have "io_keeps ?inv (io_bind (extract_layers ctxErr ?v 0 layers)
      (\<lambda>_. io_wrap (Wrap ''Failed to upload directories'' []) (UploadDirectories (u_putProto u))))" for layers
    using layer_visitor.extract_layers_keeps[OF visitor] dirs by (intro io_keeps_bind) simp_all
  from io_keepsD[OF this] have "?inv (snd (io_bind (extract_layers ctxErr ?v 0 layers)
      (\<lambda>_. io_wrap (Wrap ''Failed to upload directories'' []) (UploadDirectories (u_putProto u))) (newUploadDirState, w)))" for layers
    using assms(2) wf_new by (simp add: upload_inv_def wf_state_def)
  then show ?thesis
    using assms(2)
    by (cases "image_layers img") (simp_all add: upload_layers_def upload_inv_def Let_def case_prod_unfold)
qed

lemma GetImageFromRef_owned:
  assumes "upload_laws u temps queued" and "owned temps queued own w"
    and "GetImageFromRef (u_registry u) (u_puller u) ref w = (r, w')"
  shows "owned temps queued own w'" and "r = Inr (img, cancel) \<Longrightarrow> owned temps queued own v \<Longrightarrow> owned temps queued own (cancel v)"
proof -
  note laws = upload_lawsD(3-5)[OF assms(1)]
  have "io_keeps (owned temps queued own) (getImageFromRefImpl (u_registry u) (u_puller u) dl ref)" for dl
    unfolding getImageFromRefImpl_def using laws(1,2) by (intro io_keeps_bind) simp_all
  from io_keepsD[OF this assms(2)]
  have impl: "getImageFromRefImpl (u_registry u) (u_puller u) dl ref w = (q, x) \<Longrightarrow> owned temps queued own x" for dl q x
    by (metis snd_conv)
  show "owned temps queued own w'"
    using assms(3) laws(3) impl by (auto simp: GetImageFromRef_def Let_def split: prod.splits sum.splits if_splits)
  show "owned temps queued own (cancel v)" if "r = Inr (img, cancel)" "owned temps queued own v"
    using that laws(3) assms(3) by (auto simp: GetImageFromRef_def Let_def split: prod.splits sum.splits if_splits)
qed

section \<open>Properties\<close>


text \<open>
  A batching uploader whose world is the list of the temporary files and the queue of the files
  it holds: it closes them when there are two, and when it is flushed.
\<close>

type_synonym temp_world = "string list \<times> tmpFileCloser list"

definition demo_remove :: "string \<Rightarrow> (temp_world, unit) io" where
  "demo_remove f = (\<lambda>(ns, q). (Inr (), (removeAll f ns, q)))"

definition close_all :: "tmpFileCloser list \<Rightarrow> temp_world \<Rightarrow> temp_world" where
  "close_all = fold (\<lambda>c w. snd (tmp_Close (\<lambda>_. io_pure (Inr ())) demo_remove c w))"

definition demo_batch_env :: "temp_world upload_env" where
  "demo_batch_env = \<lparr>
     createTemp = (\<lambda>(ns, q). let f = ''/tmp/casUpload'' @ show_nat (length ns)
       in if f \<in> set ns then (Inl (Errorf Unknown ''file exists'' []), (ns, q)) else (Inr f, (f # ns, q))),
     writeTemp = (\<lambda>_ _. Pair (Inr ())), removeTemp = demo_remove,
     uploadBlob = (\<lambda>tf (ns, q). (Inr (demo_digest (tmp_data tf)),
       if q = [] then (ns, [tf]) else close_all (q @ [tf]) (ns, [])))\<rparr>"

definition demo_broken_image :: image where
  "demo_broken_image = \<lparr>manifest_sizes = Inr [10], image_layers = Inr
     [Inr [demo_entry TypeReg ''a'' '''' ''x'', demo_entry TypeReg ''b'' '''' ''y'', demo_entry TypeReg ''c'' '''' ''z'',
        TarEntry \<lparr>hdr_typeflag = TypeReg, hdr_name = ''d'', hdr_linkname = '''', hdr_mode = 0\<rparr>
          ('''', Some (Errorf DataLoss ''unexpected EOF'' []))]]\<rparr>"

definition demo_batching :: "(temp_world, unit) ImageToCASUploader" where
  "demo_batching = NewImageToCasUploader
     \<lparr>parseReference = (\<lambda>s. Inr \<lparr>registryStr = ''r'', digestStr = s\<rparr>), remoteGet = (\<lambda>_ _ _. Pair (Inr ())),
      descImage = (\<lambda>_. Pair (Inr demo_broken_image)), cancelPull = id\<rparr> demo_batch_env
     (\<lambda>_. Pair (Inr (demo_digest ''''))) (\<lambda>(ns, q). (Inr (), close_all q (ns, [])))
     \<lparr>authConfig = [], maxImageSizeBytes = 100, pullTimeout = 60\<rparr> demo_user"

abbreviation demo_queued :: "temp_world \<Rightarrow> string set" where
  "demo_queued w \<equiv> tmp_name ` set (snd w)"

lemma close_all_eq: "close_all cs (ns, q) = (filter (\<lambda>n. n \<notin> tmp_name ` set cs) ns, q)"
proof (induction cs arbitrary: ns)
  case (Cons c cs)
  have "close_all (c # cs) (ns, q) = close_all cs (removeAll (tmp_name c) ns, q)"
    by (simp add: close_all_def tmp_Close_def demo_remove_def)
  then show ?case using Cons by (simp add: removeAll_filter_not_eq) (metis (mono_tags, lifting))
qed (simp add: close_all_def)

lemma demo_batching_laws: "upload_laws demo_batching (\<lambda>w. set (fst w)) demo_queued"
proof -
  have "temp_file_laws demo_batch_env (\<lambda>w. set (fst w)) demo_queued"
    unfolding temp_file_laws_def
    by (auto simp: demo_batch_env_def demo_remove_def owned_def close_all_eq Let_def split: if_splits)
  then show ?thesis
    by (auto simp: upload_laws_def demo_batching_def NewImageToCasUploader_def io_keeps_def owned_def close_all_eq)
qed


end
