(* ===== verification/Fetcher_Server.thy ===== *)
theory Fetcher_Server
  imports Go_Strings
begin

text \<open>
  \<open>src/pkg/fetcher/server.go\<close>: the cache of materialized image roots. A
  \<open>MaterializedRoot\<close> is shared by pointer, so the model has an explicit heap: a pointer is an
  index into \<open>heap\<close>, allocation appends. A lease token is the identity of the \<open>Acquire\<close>
  call that made it, a natural number. Times and durations are integers (nanoseconds); every
  call of \<open>options.Now()\<close> is an argument. The state also has what the server does to the disk:
  the directories that exist, and those handed to a background goroutine for deletion. This
  theory has the operations, each of them atomic under the server's mutex; the interleaving of
  concurrent \<open>Acquire\<close> calls is the subject of \<open>Fetcher_Concurrency\<close>.
\<close>

section \<open>Definitions\<close>

definition DefaultUseBoost :: int where
  "DefaultUseBoost = 5 * 60 * 10 ^ 9"

definition DefaultMaxUseBoost :: int where
  "DefaultMaxUseBoost = 30 * 60 * 10 ^ 9"

definition trashPrefix :: string where
  "trashPrefix = ''trash-''"

record MaterializedRoot =
  Path :: string
  leases :: "nat list"
  virtualLastUse :: int
  idleSince :: int

record ServerOptions =
  MaxRoots :: int
  MaxConcurrentFetches :: int
  AcquireTimeout :: int
  PrefetchImages_opt :: "string list"
  UseBoost :: int
  MaxUseBoost :: int

text \<open>
  \<open>rootsGauge\<close>, \<open>evictionIdle\<close> and \<open>acquireTotal\<close> are the metrics the operations record.
\<close>

record Server =
  roots :: "(string, nat) gomap"
  heap :: "MaterializedRoot list"
  trashSeq :: int
  options :: ServerOptions
  pinned :: "string list"
  disk :: "string list"
  reaping :: "string list"
  rootsGauge :: int
  evictionIdle :: "int list"
  acquireTotal :: "string list"

definition normalize_options :: "ServerOptions \<Rightarrow> ServerOptions" where
  "normalize_options o0 =
     (let o1 = (if MaxRoots o0 < 1 then o0\<lparr>MaxRoots := 1\<rparr> else o0);
          o2 = (if MaxConcurrentFetches o1 < 1 then o1\<lparr>MaxConcurrentFetches := 1\<rparr> else o1);
          o3 = (if UseBoost o2 \<le> 0 then o2\<lparr>UseBoost := DefaultUseBoost\<rparr> else o2);
          o4 = (if MaxUseBoost o3 \<le> 0 then o3\<lparr>MaxUseBoost := DefaultMaxUseBoost\<rparr> else o3)
      in if MaxUseBoost o4 < UseBoost o4 then o4\<lparr>MaxUseBoost := UseBoost o4\<rparr> else o4)"

text \<open>\<open>existing\<close> are the directories on disk when the server is made.\<close>

definition NewServer :: "string list \<Rightarrow> ServerOptions \<Rightarrow> Server res" where
  "NewServer existing opts0 =
     (let opts = normalize_options opts0;
          pins = remdups (PrefetchImages_opt opts)
      in if 2 * int (length pins) \<ge> MaxRoots opts
         then Inl (Errorf Unknown
           ''%d prefetched images would be pinned, which is more than half of the %d available root slots''
           [show_nat (length pins), show_int (MaxRoots opts)])
         else Inr \<lparr>roots = [], heap = [], trashSeq = 0, options = opts, pinned = pins,
                    disk = existing, reaping = [], rootsGauge = 0, evictionIdle = [],
                    acquireTotal = []\<rparr>)"

definition touchLocked :: "ServerOptions \<Rightarrow> int \<Rightarrow> MaterializedRoot \<Rightarrow> MaterializedRoot" where
  "touchLocked opts now root =
     (let v0 = virtualLastUse root;
          v1 = (if v0 < now then now else v0);
          v2 = v1 + UseBoost opts;
          ceiling = now + MaxUseBoost opts
      in root\<lparr>virtualLastUse := (if v2 > ceiling then ceiling else v2)\<rparr>)"

definition add_lease :: "nat \<Rightarrow> MaterializedRoot \<Rightarrow> MaterializedRoot" where
  "add_lease token root = root\<lparr>leases := List.insert token (leases root)\<rparr>"

definition update_root :: "nat \<Rightarrow> (MaterializedRoot \<Rightarrow> MaterializedRoot) \<Rightarrow> Server \<Rightarrow> Server" where
  "update_root a f s = s\<lparr>heap := (heap s)[a := f (heap s ! a)]\<rparr>"

definition acquireCachedRoot :: "int \<Rightarrow> string \<Rightarrow> nat \<Rightarrow> Server \<Rightarrow> nat option \<times> Server" where
  "acquireCachedRoot now imageRef token s =
     (case map_of (roots s) imageRef of
        Some a \<Rightarrow> (Some a, update_root a (\<lambda>r. touchLocked (options s) now (add_lease token r)) s)
      | None \<Rightarrow> (None, s))"

definition attachLease :: "int \<Rightarrow> string \<Rightarrow> nat \<Rightarrow> nat \<Rightarrow> Server \<Rightarrow> bool \<times> Server" where
  "attachLease now imageRef a token s =
     (if map_of (roots s) imageRef \<noteq> Some a then (False, s)
      else (True, update_root a (\<lambda>r. touchLocked (options s) now (add_lease token r)) s))"

definition releaseFunc :: "int \<Rightarrow> nat \<Rightarrow> nat \<Rightarrow> Server \<Rightarrow> Server" where
  "releaseFunc now a token s =
     (if token \<notin> set (leases (heap s ! a)) then s
      else update_root a (\<lambda>r. let ls = removeAll token (leases r)
             in r\<lparr>leases := ls, idleSince := (if ls = [] then now else idleSince r)\<rparr>) s)"

text \<open>
  \<open>renameOk\<close> says that the operating system has no reason of its own to refuse the rename; it
  always refuses when the source is missing or the target exists.
\<close>

definition discardLocked :: "bool \<Rightarrow> string \<Rightarrow> Server \<Rightarrow> Server" where
  "discardLocked renameOk path s =
     (let seq = (trashSeq s + 1) mod 2 ^ 64;
          (dir, name) = path_split path;
          target = path_join [dir, trashPrefix @ show_int seq @ ''-'' @ name]
      in if renameOk \<and> path \<in> set (disk s) \<and> target \<notin> set (disk s)
         then s\<lparr>trashSeq := seq, disk := target # removeAll path (disk s),
                reaping := reaping s @ [target]\<rparr>
         else s\<lparr>trashSeq := seq, reaping := reaping s @ [path]\<rparr>)"

text \<open>The background goroutine: \<open>os.RemoveAll(target)\<close>.\<close>

definition reap :: "string \<Rightarrow> Server \<Rightarrow> Server" where
  "reap target s = s\<lparr>disk := removeAll target (disk s), reaping := remove1 target (reaping s)\<rparr>"

text \<open>The loop that chooses the victim; the list is the order in which \<open>range\<close> visits the map.\<close>

fun evict_scan ::
  "MaterializedRoot list \<Rightarrow> string list \<Rightarrow> (string \<times> nat) option \<Rightarrow> (string \<times> nat) list \<Rightarrow>
   (string \<times> nat) option"
where
  "evict_scan h pins victim [] = victim"
| "evict_scan h pins victim ((ref, a) # rest) =
     (if leases (h ! a) \<noteq> [] then evict_scan h pins victim rest
      else if ref \<in> set pins then evict_scan h pins victim rest
      else (case victim of
              None \<Rightarrow> evict_scan h pins (Some (ref, a)) rest
            | Some (victimRef, v) \<Rightarrow>
                if virtualLastUse (h ! a) < virtualLastUse (h ! v)
                   \<or> virtualLastUse (h ! a) = virtualLastUse (h ! v) \<and> ref < victimRef
                then evict_scan h pins (Some (ref, a)) rest
                else evict_scan h pins victim rest))"

definition evictOneIdleLocked :: "int \<Rightarrow> bool \<Rightarrow> Server \<Rightarrow> bool \<times> Server" where
  "evictOneIdleLocked now renameOk s =
     (case evict_scan (heap s) (pinned s) None (roots s) of
        None \<Rightarrow> (False, s)
      | Some (victimRef, v) \<Rightarrow>
          (True, discardLocked renameOk (Path (heap s ! v))
             (s\<lparr>evictionIdle := evictionIdle s @ [now - idleSince (heap s ! v)],
                roots := AList.delete victimRef (roots s),
                rootsGauge := rootsGauge s - 1\<rparr>)))"

text \<open>The part of \<open>fetchRefSingle\<close> after \<open>Materialize\<close> returned \<open>rootPath\<close>, under the mutex.\<close>

definition fetch_insert :: "int \<Rightarrow> bool \<Rightarrow> string \<Rightarrow> nat \<Rightarrow> string \<Rightarrow> Server \<Rightarrow> nat res \<times> Server" where
  "fetch_insert now renameOk imageRef leaderToken rootPath s =
     (case map_of (roots s) imageRef of
        Some existing \<Rightarrow>
          (Inr existing,
           if Path (heap s ! existing) \<noteq> rootPath then discardLocked renameOk rootPath s else s)
      | None \<Rightarrow>
          (let full = int (length (roots s)) \<ge> MaxRoots (options s);
               (evicted, s1) = (if full then evictOneIdleLocked now renameOk s else (True, s))
           in if full \<and> \<not> evicted
              then (Inl (Errorf Unknown ''can't fetch %s, all %d slots are in use''
                      [imageRef, show_int (MaxRoots (options s))]),
                    discardLocked renameOk rootPath s1)
              else (Inr (length (heap s1)),
                    s1\<lparr>heap := heap s1 @ [\<lparr>Path = rootPath, leases = [leaderToken],
                                            virtualLastUse = now, idleSince = now\<rparr>],
                       roots := AList.update imageRef (length (heap s1)) (roots s1),
                       rootsGauge := rootsGauge s1 + 1\<rparr>)))"

definition RootCount :: "Server \<Rightarrow> nat" where
  "RootCount s = length (roots s)"

definition LeaseCount :: "string \<Rightarrow> Server \<Rightarrow> int" where
  "LeaseCount imageRef s =
     (case map_of (roots s) imageRef of Some a \<Rightarrow> int (length (leases (heap s ! a))) | None \<Rightarrow> -1)"

section \<open>The choice of the victim\<close>

definition evictable :: "MaterializedRoot list \<Rightarrow> string list \<Rightarrow> string \<times> nat \<Rightarrow> bool" where
  "evictable h pins x \<longleftrightarrow> leases (h ! snd x) = [] \<and> fst x \<notin> set pins"

text \<open>The order in which roots are preferred as victims.\<close>

definition evicted_before :: "MaterializedRoot list \<Rightarrow> string \<times> nat \<Rightarrow> string \<times> nat \<Rightarrow> bool" where
  "evicted_before h x y \<longleftrightarrow> virtualLastUse (h ! snd x) < virtualLastUse (h ! snd y)
     \<or> virtualLastUse (h ! snd x) = virtualLastUse (h ! snd y) \<and> fst x < fst y"

lemma evicted_before_trans:
  "evicted_before h x y \<Longrightarrow> evicted_before h y z \<Longrightarrow> evicted_before h x z"
  by (auto simp: evicted_before_def)

lemma evicted_before_linear:
  "fst x \<noteq> fst y \<Longrightarrow> evicted_before h x y \<or> evicted_before h y x"
  by (cases "virtualLastUse (h ! snd x)" "virtualLastUse (h ! snd y)" rule: linorder_cases)
    (auto simp: evicted_before_def)

lemma evicted_before_asym: "evicted_before h x y \<Longrightarrow> \<not> evicted_before h y x"
  by (auto simp: evicted_before_def)

lemma evict_scan_Cons:
  "evict_scan h pins victim (x # rest) =
     (if \<not> evictable h pins x then evict_scan h pins victim rest
      else case victim of
             None \<Rightarrow> evict_scan h pins (Some x) rest
           | Some v \<Rightarrow> evict_scan h pins (Some (if evicted_before h x v then x else v)) rest)"
  by (cases x) (auto simp: evictable_def evicted_before_def split: option.splits)

lemma evict_scan_Some:
  "evict_scan h pins (Some v) xs = Some w \<Longrightarrow>
     (w = v \<or> w \<in> set xs \<and> evictable h pins w) \<and> (w = v \<or> evicted_before h w v)
     \<and> (\<forall>y\<in>set xs. evictable h pins y \<longrightarrow> \<not> evicted_before h y w)"
proof (induction xs arbitrary: v)
  case (Cons x xs)
  let ?v = "if evictable h pins x \<and> evicted_before h x v then x else v"
  have "evict_scan h pins (Some ?v) xs = Some w"
    using Cons.prems by (auto simp: evict_scan_Cons split: if_splits)
  from Cons.IH[OF this] show ?case
    by (auto split: if_splits dest: evicted_before_trans evicted_before_asym)
qed simp

lemma evict_scan_Some_total: "\<exists>w. evict_scan h pins (Some v) xs = Some w"
  by (induction xs arbitrary: v) (auto simp: evict_scan_Cons)

lemma evict_scan_None: "evict_scan h pins None xs = None \<longleftrightarrow> (\<forall>y\<in>set xs. \<not> evictable h pins y)"
  by (induction xs) (use evict_scan_Some_total in \<open>force simp: evict_scan_Cons\<close>)+

lemma evict_scan_victim:
  assumes "evict_scan h pins None xs = Some w"
  shows "w \<in> set xs" and "evictable h pins w"
    and "\<And>y. y \<in> set xs \<Longrightarrow> evictable h pins y \<Longrightarrow> \<not> evicted_before h y w"
proof -
  have "w \<in> set xs \<and> evictable h pins w
      \<and> (\<forall>y\<in>set xs. evictable h pins y \<longrightarrow> \<not> evicted_before h y w)"
    using assms
  proof (induction xs)
    case (Cons x xs)
    then show ?case
      by (auto simp: evict_scan_Cons split: if_splits dest!: evict_scan_Some dest: evicted_before_asym)
  qed simp
  then show "w \<in> set xs" and "evictable h pins w"
    and "\<And>y. y \<in> set xs \<Longrightarrow> evictable h pins y \<Longrightarrow> \<not> evicted_before h y w"
    by blast+
qed

text \<open>The victim is the same in whatever order the map is visited.\<close>

lemma evict_scan_perm:
  assumes "mset xs = mset ys" and "go_map xs"
  shows "evict_scan h pins None xs = evict_scan h pins None ys"
proof -
  have set: "set xs = set ys" using assms(1) by (rule mset_eq_setD)
  show ?thesis
  proof (cases "evict_scan h pins None xs")
    case None
    then show ?thesis using set by (metis evict_scan_None)
  next
    case (Some w)
    then obtain w' where w': "evict_scan h pins None ys = Some w'"
      using set by (metis evict_scan_None not_Some_eq)
    have "fst w = fst w'"
      using evict_scan_victim[OF Some] evict_scan_victim[OF w'] set evicted_before_linear by metis
    moreover have "w \<in> set xs" "w' \<in> set xs"
      using evict_scan_victim[OF Some] evict_scan_victim[OF w'] set by auto
    ultimately have "w = w'"
      using assms(2) by (metis distinct_map go_map_def inj_onD)
    then show ?thesis using Some w' by simp
  qed
qed

section \<open>The disk\<close>

text \<open>A directory that exists and that no background goroutine is about to delete.\<close>

definition live :: "Server \<Rightarrow> string \<Rightarrow> bool" where
  "live s p \<longleftrightarrow> p \<in> set (disk s) \<and> p \<notin> set (reaping s)"

definition reaper_ok :: "Server \<Rightarrow> bool" where
  "reaper_ok s \<longleftrightarrow> distinct (reaping s) \<and> set (reaping s) \<subseteq> set (disk s)"

lemma discard_simps [simp]:
  "roots (discardLocked ok p s) = roots s" "heap (discardLocked ok p s) = heap s"
  "options (discardLocked ok p s) = options s" "pinned (discardLocked ok p s) = pinned s"
  "rootsGauge (discardLocked ok p s) = rootsGauge s"
  by (simp_all add: discardLocked_def Let_def split: prod.split)

lemma discard_live: "live s q \<Longrightarrow> q \<noteq> p \<Longrightarrow> live (discardLocked ok p s) q"
  by (auto simp: live_def discardLocked_def Let_def split: prod.split)

lemma discard_reaper: "reaper_ok s \<Longrightarrow> live s p \<Longrightarrow> reaper_ok (discardLocked ok p s)"
  by (auto simp: live_def reaper_ok_def discardLocked_def Let_def split: prod.split)

lemma discard_not_live: "live s p \<Longrightarrow> \<not> live (discardLocked ok p s) p"
  by (auto simp: live_def discardLocked_def Let_def split: prod.split)

lemma reap_live: "live s q \<Longrightarrow> t \<in> set (reaping s) \<Longrightarrow> live (reap t s) q"
  by (auto simp: live_def reap_def dest: notin_set_remove1)

lemma reap_reaper: "reaper_ok s \<Longrightarrow> reaper_ok (reap t s)"
  by (auto simp: reaper_ok_def reap_def set_remove1_eq)

lemma reap_simps [simp]:
  "roots (reap t s) = roots s" "heap (reap t s) = heap s" "options (reap t s) = options s"
  "pinned (reap t s) = pinned s" "rootsGauge (reap t s) = rootsGauge s"
  by (simp_all add: reap_def)

section \<open>The invariant of the cache\<close>

definition root_at :: "Server \<Rightarrow> string \<Rightarrow> MaterializedRoot option" where
  "root_at s ref = map_option ((!) (heap s)) (map_of (roots s) ref)"

definition leased :: "Server \<Rightarrow> nat \<Rightarrow> bool" where
  "leased s a \<longleftrightarrow> leases (heap s ! a) \<noteq> []"

definition options_ok :: "ServerOptions \<Rightarrow> bool" where
  "options_ok opts \<longleftrightarrow> 1 \<le> MaxRoots opts \<and> 1 \<le> MaxConcurrentFetches opts \<and> 0 < UseBoost opts
     \<and> UseBoost opts \<le> MaxUseBoost opts"

text \<open>
  The cache never has more than \<open>MaxRoots\<close> roots; the directories of its roots exist, are
  pairwise different and are not being deleted; a root with a lease is in the cache.
\<close>

definition cache_ok :: "Server \<Rightarrow> bool" where
  "cache_ok s \<longleftrightarrow> go_map (roots s) \<and> distinct (map snd (roots s))
     \<and> (\<forall>a\<in>snd ` set (roots s). a < length (heap s) \<and> live s (Path (heap s ! a)))
     \<and> inj_on (\<lambda>a. Path (heap s ! a)) (snd ` set (roots s))
     \<and> (\<forall>a<length (heap s). leased s a \<longrightarrow> a \<in> snd ` set (roots s))"

definition server_ok :: "Server \<Rightarrow> bool" where
  "server_ok s \<longleftrightarrow> cache_ok s \<and> reaper_ok s \<and> options_ok (options s)
     \<and> int (length (roots s)) \<le> MaxRoots (options s)
     \<and> rootsGauge s = int (length (roots s))
     \<and> 2 * int (length (pinned s)) < MaxRoots (options s)"

lemma normalize_options_ok: "options_ok (normalize_options opts)"
  by (simp add: options_ok_def normalize_options_def Let_def DefaultUseBoost_def DefaultMaxUseBoost_def)

lemma NewServer_ok: "NewServer existing opts = Inr s \<Longrightarrow> server_ok s"
  using normalize_options_ok[of opts]
  by (auto simp: NewServer_def server_ok_def cache_ok_def reaper_ok_def Let_def split: if_splits)

lemma in_roots: "map_of (roots s) ref = Some a \<Longrightarrow> a \<in> snd ` set (roots s)"
  by (auto dest: map_of_SomeD intro: rev_image_eqI)

lemma cache_ok_cached:
  assumes "cache_ok s" and "map_of (roots s) ref = Some a"
  shows "a < length (heap s)" and "live s (Path (heap s ! a))"
  using assms in_roots[OF assms(2)] by (auto simp: cache_ok_def)

text \<open>An update of a cached root that keeps its path keeps the invariant.\<close>

lemma nth_list_update': "xs[a := x] ! b = (if a = b \<and> a < length xs then x else xs ! b)"
  by (cases "a < length xs") (auto simp: nth_list_update list_update_beyond)

lemma cache_ok_update_root:
  assumes "cache_ok s" and "\<And>r. Path (f r) = Path r"
    and "leases (f (heap s ! a)) \<noteq> [] \<Longrightarrow> leased s a \<or> a \<in> snd ` set (roots s)"
  shows "cache_ok (update_root a f s)"
proof -
  have path: "Path ((heap s)[a := f (heap s ! a)] ! b) = Path (heap s ! b)" if "b < length (heap s)" for b
    using that assms(2) by (cases "a = b") simp_all
  have "inj_on (\<lambda>b. Path ((heap s)[a := f (heap s ! a)] ! b)) (snd ` set (roots s))"
    using assms(1) path by (auto simp: cache_ok_def inj_on_def)
  then show ?thesis
    using assms path unfolding cache_ok_def update_root_def live_def leased_def
    by (auto simp: nth_list_update')
qed

lemma update_root_simps [simp]:
  "roots (update_root a f s) = roots s" "disk (update_root a f s) = disk s"
  "reaping (update_root a f s) = reaping s" "options (update_root a f s) = options s"
  "pinned (update_root a f s) = pinned s" "rootsGauge (update_root a f s) = rootsGauge s"
  "length (heap (update_root a f s)) = length (heap s)"
  by (simp_all add: update_root_def)

lemma touch_simps [simp]:
  "Path (touchLocked opts now r) = Path r" "leases (touchLocked opts now r) = leases r"
  "Path (add_lease t r) = Path r" "set (leases (add_lease t r)) = insert t (set (leases r))"
  by (simp_all add: touchLocked_def add_lease_def Let_def)

lemma server_ok_update_root:
  "server_ok s \<Longrightarrow> cache_ok (update_root a f s) \<Longrightarrow> server_ok (update_root a f s)"
  by (simp add: server_ok_def reaper_ok_def)

lemma acquireCachedRoot_ok: "server_ok s \<Longrightarrow> server_ok (snd (acquireCachedRoot now ref t s))"
  by (auto simp: acquireCachedRoot_def server_ok_def[of s] split: option.split
      intro!: server_ok_update_root cache_ok_update_root in_roots)

lemma attachLease_ok: "server_ok s \<Longrightarrow> server_ok (snd (attachLease now ref a t s))"
  by (auto simp: attachLease_def server_ok_def[of s]
      intro!: server_ok_update_root cache_ok_update_root in_roots)

lemma releaseFunc_ok: "server_ok s \<Longrightarrow> server_ok (releaseFunc now a t s)"
  by (auto simp: releaseFunc_def server_ok_def[of s] Let_def leased_def
      intro!: server_ok_update_root cache_ok_update_root)

lemma reap_ok: "server_ok s \<Longrightarrow> t \<in> set (reaping s) \<Longrightarrow> server_ok (reap t s)"
  by (auto simp: server_ok_def cache_ok_def leased_def reap_reaper reap_live)

section \<open>Eviction and insertion\<close>

definition root_paths :: "Server \<Rightarrow> string set" where
  "root_paths s = (\<lambda>a. Path (heap s ! a)) ` snd ` set (roots s)"

lemma root_paths_iff: "p \<in> root_paths s \<longleftrightarrow> (\<exists>ref a. (ref, a) \<in> set (roots s) \<and> p = Path (heap s ! a))"
  by (force simp: root_paths_def)

lemma length_delete_go_map:
  assumes "go_map m" and "(k, v) \<in> set m"
  shows "length (AList.delete k m) + 1 = length m"
  using assms
proof (induction m)
  case (Cons x m)
  then show ?case
    by (cases "fst x = k") (auto simp: go_map_def delete_id image_iff split: prod.splits)
qed simp

text \<open>What eviction does: nothing, or it removes one evictable root and discards its directory.\<close>

lemma evictOneIdle_cases:
  obtains (none) "evictOneIdleLocked now ok s = (False, s)"
      "\<forall>x\<in>set (roots s). \<not> evictable (heap s) (pinned s) x"
  | (victim) ref v s0 where "evict_scan (heap s) (pinned s) None (roots s) = Some (ref, v)"
      "s0 = s\<lparr>evictionIdle := evictionIdle s @ [now - idleSince (heap s ! v)],
         roots := AList.delete ref (roots s), rootsGauge := rootsGauge s - 1\<rparr>"
      "evictOneIdleLocked now ok s = (True, discardLocked ok (Path (heap s ! v)) s0)"
proof (cases "evict_scan (heap s) (pinned s) None (roots s)")
  case None
  then show ?thesis using evict_scan_None[of "heap s" "pinned s" "roots s"]
    by (intro none) (simp_all add: evictOneIdleLocked_def)
next
  case (Some x)
  then show ?thesis by (cases x) (auto simp: evictOneIdleLocked_def intro: victim)
qed

lemma evicts_iff:
  "fst (evictOneIdleLocked now ok s) \<longleftrightarrow> (\<exists>x\<in>set (roots s). evictable (heap s) (pinned s) x)"
  using evict_scan_None[of "heap s" "pinned s" "roots s"]
  by (auto simp: evictOneIdleLocked_def split: option.splits)

lemma cache_ok_delete:
  assumes "cache_ok s" and "(ref, v) \<in> set (roots s)" and "\<not> leased s v"
  shows "cache_ok (s\<lparr>evictionIdle := i, roots := AList.delete ref (roots s), rootsGauge := g\<rparr>)"
proof -
  have sub: "snd ` set (AList.delete ref (roots s)) \<subseteq> snd ` set (roots s)"
    by (auto simp: AList.delete_eq)
  have "a \<in> snd ` set (AList.delete ref (roots s))" if a: "a \<in> snd ` set (roots s)" "a \<noteq> v" for a
  proof -
    obtain b where b: "(b, a) \<in> set (roots s)" using a(1) by auto
    then have "b \<noteq> ref"
      using a(2) assms(1,2) unfolding cache_ok_def go_map_def by (metis eq_key_imp_eq_value)
    then show ?thesis using b by (metis image_eqI in_set_delete snd_conv)
  qed
  then have "\<forall>a<length (heap s). leased s a \<longrightarrow> a \<in> snd ` set (AList.delete ref (roots s))"
    using assms(1,3) unfolding cache_ok_def by metis
  moreover have "distinct (map snd (AList.delete ref (roots s)))"
    using assms(1) by (simp add: cache_ok_def AList.delete_eq distinct_map_filter)
  moreover have "inj_on (\<lambda>a. Path (heap s ! a)) (snd ` set (AList.delete ref (roots s)))"
    using assms(1) sub unfolding cache_ok_def by (meson inj_on_subset)
  moreover have "\<forall>a\<in>snd ` set (AList.delete ref (roots s)). a < length (heap s) \<and> live s (Path (heap s ! a))"
    using assms(1) sub unfolding cache_ok_def by (meson subset_iff)
  moreover have "go_map (AList.delete ref (roots s))" using assms(1) by (simp add: cache_ok_def)
  ultimately show ?thesis unfolding cache_ok_def live_def leased_def by simp
qed

lemma cache_ok_discard:
  assumes "cache_ok s" and "p \<notin> root_paths s"
  shows "cache_ok (discardLocked ok p s)"
  using assms discard_live[of s _ p ok] by (auto simp: cache_ok_def leased_def root_paths_def)

lemma evict_removes_path:
  assumes "cache_ok s" and "(ref, v) \<in> set (roots s)"
  shows "Path (heap s ! v) \<notin> root_paths (s\<lparr>evictionIdle := i, roots := AList.delete ref (roots s), rootsGauge := g\<rparr>)"
proof
  assume "Path (heap s ! v) \<in> root_paths (s\<lparr>evictionIdle := i, roots := AList.delete ref (roots s), rootsGauge := g\<rparr>)"
  then obtain b a where ba: "(b, a) \<in> set (roots s)" "b \<noteq> ref" "Path (heap s ! v) = Path (heap s ! a)"
    by (auto simp: root_paths_iff AList.delete_eq)
  then have "a = v"
    using assms unfolding cache_ok_def inj_on_def by (metis imageI snd_conv)
  then show False
    using assms ba unfolding cache_ok_def distinct_map by (metis inj_onD prod.inject snd_conv)
qed

lemma evict_ok:
  assumes "server_ok s" and "evictOneIdleLocked now ok s = (b, s')"
  shows "server_ok s'" and "heap s' = heap s" and "options s' = options s" and "pinned s' = pinned s"
    and "root_paths s' \<subseteq> root_paths s"
    and "\<And>q. live s q \<Longrightarrow> q \<notin> root_paths s \<Longrightarrow> live s' q"
    and "b \<Longrightarrow> length (roots s') + 1 = length (roots s)"
    and "\<And>ref a. map_of (roots s) ref = Some a \<Longrightarrow> leased s a \<or> ref \<in> set (pinned s) \<Longrightarrow>
           map_of (roots s') ref = Some a"
    and "\<And>ref. map_of (roots s) ref = None \<Longrightarrow> map_of (roots s') ref = None"
proof -
  have *: "server_ok s' \<and> heap s' = heap s \<and> options s' = options s \<and> pinned s' = pinned s
    \<and> root_paths s' \<subseteq> root_paths s \<and> (\<forall>q. live s q \<longrightarrow> q \<notin> root_paths s \<longrightarrow> live s' q)
    \<and> (b \<longrightarrow> length (roots s') + 1 = length (roots s))
    \<and> (\<forall>ref a. map_of (roots s) ref = Some a \<longrightarrow> leased s a \<or> ref \<in> set (pinned s) \<longrightarrow>
           map_of (roots s') ref = Some a)
    \<and> (\<forall>ref. map_of (roots s) ref = None \<longrightarrow> map_of (roots s') ref = None)"
  proof (cases now ok s rule: evictOneIdle_cases)
    case none
    then show ?thesis using assms by auto
  next
    case (victim ref v s0)
    have v: "(ref, v) \<in> set (roots s)" "evictable (heap s) (pinned s) (ref, v)"
      using evict_scan_victim(1,2)[OF victim(1)] by auto
    have c: "cache_ok s" "reaper_ok s" "go_map (roots s)"
      using assms(1) by (auto simp: server_ok_def cache_ok_def)
    have s': "s' = discardLocked ok (Path (heap s ! v)) s0" and b: b
      using victim(3) assms(2) by auto
    have len: "length (roots s0) + 1 = length (roots s)"
      using length_delete_go_map[OF c(3) v(1)] victim(2) by simp
    have p: "Path (heap s ! v) \<notin> root_paths s0"
      using evict_removes_path[OF c(1) v(1)] victim(2) by simp
    have pv: "Path (heap s ! v) \<in> root_paths s" using v(1) by (auto simp: root_paths_iff)
    have live0: "live s0 q = live s q" for q using victim(2) by (simp add: live_def)
    have "live s0 (Path (heap s ! v))"
      using cache_ok_cached(2)[OF c(1)] v(1) c(3) live0 by (simp add: go_map_lookup)
    moreover have "reaper_ok s0" using c(2) victim(2) by (simp add: reaper_ok_def)
    ultimately have "reaper_ok s'" unfolding s' by (intro discard_reaper)
    moreover have "cache_ok s'"
      unfolding s' using p v c(1) victim(2)
      by (intro cache_ok_discard) (auto simp: leased_def evictable_def intro: cache_ok_delete)
    ultimately have "server_ok s'"
      using assms(1) len victim(2) unfolding s' server_ok_def by simp
    moreover have "root_paths s' \<subseteq> root_paths s"
      using victim(2) unfolding s' root_paths_def
      by (simp add: AList.delete_eq) (intro image_mono, auto)
    moreover have "live s' q" if "live s q" "q \<notin> root_paths s" for q
      unfolding s' using that pv live0 by (intro discard_live) auto
    moreover have "map_of (roots s') r = Some a"
      if "map_of (roots s) r = Some a" "leased s a \<or> r \<in> set (pinned s)" for r a
      using that v c(3) victim(2) unfolding s'
      by (auto simp: evictable_def leased_def go_map_lookup[symmetric])
    ultimately show ?thesis
      using len b victim(2) unfolding s' by simp
  qed
  show "server_ok s'" and "heap s' = heap s" and "options s' = options s" and "pinned s' = pinned s"
    and "root_paths s' \<subseteq> root_paths s"
    and "\<And>q. live s q \<Longrightarrow> q \<notin> root_paths s \<Longrightarrow> live s' q"
    and "b \<Longrightarrow> length (roots s') + 1 = length (roots s)"
    and "\<And>ref a. map_of (roots s) ref = Some a \<Longrightarrow> leased s a \<or> ref \<in> set (pinned s) \<Longrightarrow>
           map_of (roots s') ref = Some a"
    and "\<And>ref. map_of (roots s) ref = None \<Longrightarrow> map_of (roots s') ref = None"
    using * by blast+
qed

text \<open>The three outcomes of inserting a materialized root.\<close>

definition new_root :: "int \<Rightarrow> nat \<Rightarrow> string \<Rightarrow> MaterializedRoot" where
  "new_root now t p = \<lparr>Path = p, leases = [t], virtualLastUse = now, idleSince = now\<rparr>"

definition add_root :: "string \<Rightarrow> MaterializedRoot \<Rightarrow> Server \<Rightarrow> Server" where
  "add_root ref r s = s\<lparr>heap := heap s @ [r],
     roots := AList.update ref (length (heap s)) (roots s), rootsGauge := rootsGauge s + 1\<rparr>"

lemma fetch_insert_cases:
  assumes "fetch_insert now ok ref t p s = (r, s')"
  obtains (existing) a where "map_of (roots s) ref = Some a" "r = Inr a"
      "s' = (if Path (heap s ! a) \<noteq> p then discardLocked ok p s else s)"
  | (full) "map_of (roots s) ref = None" "int (length (roots s)) \<ge> MaxRoots (options s)"
      "evictOneIdleLocked now ok s = (False, s)" "s' = discardLocked ok p s"
      "r = Inl (Errorf Unknown ''can't fetch %s, all %d slots are in use''
         [ref, show_int (MaxRoots (options s))])"
      "\<forall>x\<in>set (roots s). \<not> evictable (heap s) (pinned s) x"
  | (added) s1 where "map_of (roots s) ref = None" "r = Inr (length (heap s1))"
      "s' = add_root ref (new_root now t p) s1"
      "s1 = s \<and> int (length (roots s)) < MaxRoots (options s)
       \<or> evictOneIdleLocked now ok s = (True, s1)"
proof (cases "map_of (roots s) ref")
  case (Some a)
  then show ?thesis using assms by (intro existing) (auto simp: fetch_insert_def)
next
  case None
  note N = this
  show ?thesis
  proof (cases "int (length (roots s)) \<ge> MaxRoots (options s)")
    case False
    then show ?thesis using assms N
      by (intro added[of s]) (auto simp: fetch_insert_def add_root_def new_root_def Let_def)
  next
    case True
    show ?thesis
    proof (cases now ok s rule: evictOneIdle_cases)
      case none
      then show ?thesis using assms N True by (intro full) (auto simp: fetch_insert_def Let_def)
    next
      case (victim vref v s0)
      then show ?thesis using assms N True
        by (intro added[of "snd (evictOneIdleLocked now ok s)"])
          (auto simp: fetch_insert_def add_root_def new_root_def Let_def)
    qed
  qed
qed

lemma update_new: "map_of m k = None \<Longrightarrow> AList.update k v m = m @ [(k, v)]"
  by (induction m) (auto split: if_splits)

lemma add_root_heap:
  "a < length (heap s) \<Longrightarrow> heap (add_root ref r s) ! a = heap s ! a"
  "heap (add_root ref r s) ! length (heap s) = r"
  by (simp_all add: add_root_def nth_append)

lemma add_root_addresses:
  "map_of (roots s) ref = None \<Longrightarrow>
    snd ` set (roots (add_root ref r s)) = insert (length (heap s)) (snd ` set (roots s))"
  by (simp add: add_root_def update_new)

lemma add_root_paths:
  assumes "cache_ok s" and "map_of (roots s) ref = None"
  shows "root_paths (add_root ref r s) = insert (Path r) (root_paths s)"
proof -
  have "\<And>a. a \<in> snd ` set (roots s) \<Longrightarrow> heap (add_root ref r s) ! a = heap s ! a"
    using assms(1) by (intro add_root_heap(1)) (auto simp: cache_ok_def)
  then show ?thesis
    unfolding root_paths_def add_root_addresses[OF assms(2)] image_insert add_root_heap(2)
    by (intro arg_cong[of _ _ "insert (Path r)"] image_cong) simp_all
qed

lemma cache_ok_add_root:
  assumes c: "cache_ok s" and fresh: "map_of (roots s) ref = None"
    and p: "live s (Path r)" "Path r \<notin> root_paths s"
  shows "cache_ok (add_root ref r s)"
proof -
  let ?s = "add_root ref r s"
  have bound: "a < length (heap s)" if "a \<in> snd ` set (roots s)" for a
    using c that unfolding cache_ok_def by blast
  note dom = add_root_addresses[OF fresh, of r]
  have live: "live ?s q = live s q" for q by (simp add: live_def add_root_def)
  have "inj_on (\<lambda>a. Path (heap ?s ! a)) (snd ` set (roots s))"
    using c unfolding cache_ok_def inj_on_def by (simp add: add_root_heap(1) bound)
  moreover have "(\<lambda>a. Path (heap ?s ! a)) ` (snd ` set (roots s)) = root_paths s"
    unfolding root_paths_def by (intro image_cong refl) (simp add: add_root_heap(1) bound)
  ultimately have "inj_on (\<lambda>a. Path (heap ?s ! a)) (snd ` set (roots ?s))"
    using p(2) unfolding dom inj_on_insert add_root_heap(2) by (metis Diff_subset image_mono subsetD)
  moreover have "distinct (map snd (roots ?s))" and "go_map (roots ?s)"
    using c bound by (auto simp: add_root_def cache_ok_def update_new[OF fresh] go_map_def
        fresh[unfolded map_of_None_keys])
  moreover have "\<forall>a\<in>snd ` set (roots ?s). a < length (heap ?s) \<and> live ?s (Path (heap ?s ! a))"
    using c p(1) bound unfolding dom live ball_simps(7) add_root_heap(2)
    by (simp add: add_root_heap(1) cache_ok_def) (simp add: add_root_def less_Suc_eq)
  moreover have "\<forall>a<length (heap ?s). leased ?s a \<longrightarrow> a \<in> snd ` set (roots ?s)"
  proof (intro allI impI)
    fix a assume a: "a < length (heap ?s)" "leased ?s a"
    show "a \<in> snd ` set (roots ?s)"
    proof (cases "a = length (heap s)")
      case False
      then have "a < length (heap s)" using a(1) by (simp add: add_root_def)
      then show ?thesis
        using a(2) c unfolding dom cache_ok_def leased_def by (simp add: add_root_heap(1))
    qed (simp add: dom)
  qed
  ultimately show ?thesis unfolding cache_ok_def by blast
qed

lemma add_root_ok:
  assumes "server_ok s" and "int (length (roots s)) < MaxRoots (options s)"
    and "map_of (roots s) ref = None" and "live s (Path r)" "Path r \<notin> root_paths s"
  shows "server_ok (add_root ref r s)"
  using assms cache_ok_add_root[of s ref r]
  by (simp add: server_ok_def add_root_def reaper_ok_def update_new)

text \<open>Everything a client relies on across an insertion.\<close>

lemma fetch_insert_ok:
  assumes ok: "server_ok s" and p: "live s p" "p \<notin> root_paths s"
    and run: "fetch_insert now rok ref t p s = (r, s')"
  shows "server_ok s'" and "options s' = options s" and "pinned s' = pinned s"
    and "\<And>q. live s q \<Longrightarrow> q \<noteq> p \<Longrightarrow> q \<notin> root_paths s \<Longrightarrow> live s' q \<and> q \<notin> root_paths s'"
    and "\<And>a. a < length (heap s) \<Longrightarrow> a < length (heap s') \<and> heap s' ! a = heap s ! a"
    and "\<And>ref' a. map_of (roots s) ref' = Some a \<Longrightarrow> leased s a \<or> ref' \<in> set (pinned s) \<Longrightarrow>
           map_of (roots s') ref' = Some a"
    and "\<And>a. r = Inr a \<Longrightarrow> map_of (roots s') ref = Some a \<and> a < length (heap s')
           \<and> (map_of (roots s) ref = Some a \<or> t \<in> set (leases (heap s' ! a)))"
proof -
  have c: "cache_ok s" "reaper_ok s" using ok by (auto simp: server_ok_def)
  have disc: "server_ok (discardLocked rok p s)"
    using ok c p by (simp add: server_ok_def cache_ok_discard discard_reaper)
  have rp: "root_paths (discardLocked rok p s) = root_paths s" by (simp add: root_paths_def)
  have *: "server_ok s' \<and> options s' = options s \<and> pinned s' = pinned s
    \<and> (\<forall>q. live s q \<longrightarrow> q \<noteq> p \<longrightarrow> q \<notin> root_paths s \<longrightarrow> live s' q \<and> q \<notin> root_paths s')
    \<and> (\<forall>a<length (heap s). a < length (heap s') \<and> heap s' ! a = heap s ! a)
    \<and> (\<forall>ref' a. map_of (roots s) ref' = Some a \<longrightarrow> leased s a \<or> ref' \<in> set (pinned s) \<longrightarrow>
           map_of (roots s') ref' = Some a)
    \<and> (\<forall>a. r = Inr a \<longrightarrow> map_of (roots s') ref = Some a \<and> a < length (heap s')
           \<and> (map_of (roots s) ref = Some a \<or> t \<in> set (leases (heap s' ! a))))"
    using run
  proof (cases rule: fetch_insert_cases)
    case (existing a)
    then show ?thesis using ok disc rp discard_live[of s _ p rok] cache_ok_cached[OF c(1)] by auto
  next
    case full
    then show ?thesis using disc rp discard_live[of s _ p rok] by auto
  next
    case (added s1)
    have s1: "server_ok s1 \<and> heap s1 = heap s \<and> options s1 = options s \<and> pinned s1 = pinned s
      \<and> root_paths s1 \<subseteq> root_paths s \<and> (\<forall>q. live s q \<longrightarrow> q \<notin> root_paths s \<longrightarrow> live s1 q)
      \<and> int (length (roots s1)) < MaxRoots (options s) \<and> map_of (roots s1) ref = None
      \<and> (\<forall>ref' a. map_of (roots s) ref' = Some a \<longrightarrow> leased s a \<or> ref' \<in> set (pinned s) \<longrightarrow>
           map_of (roots s1) ref' = Some a)"
      using added(4)
    proof
      assume "evictOneIdleLocked now rok s = (True, s1)"
      from evict_ok[OF ok this] show ?thesis
        using added(1) ok by (auto simp: server_ok_def)
    qed (use ok added(1) in simp)
    then have c1: "cache_ok s1" by (simp add: server_ok_def)
    have "server_ok s'"
      unfolding added(3) by (intro add_root_ok) (use s1 p in \<open>auto simp: new_root_def\<close>)
    moreover have "root_paths s' = insert p (root_paths s1)"
      using add_root_paths[OF c1] s1 unfolding added(3) by (simp add: new_root_def)
    moreover have "live s' q = live s1 q" for q
      unfolding added(3) by (simp add: live_def add_root_def)
    moreover have "map_of (roots s') ref' = (if ref' = ref then Some (length (heap s1)) else
        map_of (roots s1) ref')" for ref'
      unfolding added(3) by (simp add: add_root_def)
    ultimately show ?thesis
      using s1 added(1,2) add_root_heap[where s = s1 and ref = ref and r = "new_root now t p"] unfolding added(3)
      by (auto simp: new_root_def) (auto simp: add_root_def)
  qed
  show "server_ok s'" and "options s' = options s" and "pinned s' = pinned s"
    and "\<And>q. live s q \<Longrightarrow> q \<noteq> p \<Longrightarrow> q \<notin> root_paths s \<Longrightarrow> live s' q \<and> q \<notin> root_paths s'"
    and "\<And>a. a < length (heap s) \<Longrightarrow> a < length (heap s') \<and> heap s' ! a = heap s ! a"
    and "\<And>ref' a. map_of (roots s) ref' = Some a \<Longrightarrow> leased s a \<or> ref' \<in> set (pinned s) \<Longrightarrow>
           map_of (roots s') ref' = Some a"
    and "\<And>a. r = Inr a \<Longrightarrow> map_of (roots s') ref = Some a \<and> a < length (heap s')
           \<and> (map_of (roots s) ref = Some a \<or> t \<in> set (leases (heap s' ! a)))"
    using * by blast+
qed

section \<open>Properties\<close>

text \<open>A server with three cached roots, one of them leased and one pinned, for the witnesses.\<close>

definition demo_options :: ServerOptions where
  "demo_options = \<lparr>MaxRoots = 3, MaxConcurrentFetches = 1, AcquireTimeout = 0,
     PrefetchImages_opt = [''pin''], UseBoost = 5, MaxUseBoost = 30\<rparr>"

definition demo_root :: "string \<Rightarrow> nat list \<Rightarrow> int \<Rightarrow> MaterializedRoot" where
  "demo_root p ls v = \<lparr>Path = p, leases = ls, virtualLastUse = v, idleSince = 0\<rparr>"

definition demo_server :: Server where
  "demo_server = \<lparr>roots = [(''pin'', 0), (''a'', 1), (''b'', 2)],
     heap = [demo_root ''/r/p'' [] 1, demo_root ''/r/a'' [7] 2, demo_root ''/r/b'' [] 9],
     trashSeq = 0, options = demo_options, pinned = [''pin''],
     disk = [''/r/p'', ''/r/a'', ''/r/b'', ''/r/c''], reaping = [], rootsGauge = 3,
     evictionIdle = [], acquireTotal = []\<rparr>"

lemma demo_server_ok: "server_ok demo_server"
  by (auto simp: server_ok_def cache_ok_def demo_server_def demo_options_def reaper_ok_def
      options_ok_def live_def leased_def go_map_def demo_root_def less_Suc_eq)

text \<open>
  C19: Eviction removes exactly one root whenever there is an unleased, unpinned one: the root
  with the smallest virtual last use, the smaller image reference among equals, in whatever order
  the map of roots is visited; its directory is discarded. Otherwise it changes nothing and says
  so. Leased and pinned roots are never evicted.
\<close>

theorem eviction_choice:
  assumes "server_ok s" and "mset m = mset (roots s)"
    and "evictOneIdleLocked now renameOk (s\<lparr>roots := m\<rparr>) = (evicted, s')"
  shows "if \<exists>x\<in>set (roots s). evictable (heap s) (pinned s) x
    then evicted \<and> (\<exists>x\<in>set (roots s). evictable (heap s) (pinned s) x
      \<and> (\<forall>y\<in>set (roots s). evictable (heap s) (pinned s) y \<and> y \<noteq> x \<longrightarrow> evicted_before (heap s) x y)
      \<and> set (roots s') = set (roots s) - {x} \<and> heap s' = heap s
      \<and> \<not> live s' (Path (heap s ! snd x)))
    else \<not> evicted \<and> s' = s\<lparr>roots := m\<rparr>"
proof -
  have set: "set m = set (roots s)" using assms(2) by (rule mset_eq_setD)
  have c: "cache_ok s" and gm: "go_map (roots s)" using assms(1) by (auto simp: server_ok_def cache_ok_def)
  then have key: "x = y" if "x \<in> set (roots s)" "y \<in> set (roots s)" "fst x = fst y" for x y
    using that by (metis distinct_map go_map_def inj_onD)
  show ?thesis
  proof (cases now renameOk "s\<lparr>roots := m\<rparr>" rule: evictOneIdle_cases)
    case none
    then show ?thesis using assms(3) set by auto
  next
    case (victim ref v s0)
    let ?x = "(ref, v)"
    have sc: "evict_scan (heap s) (pinned s) None m = Some ?x" using victim(1) by simp
    have x: "?x \<in> set (roots s)" "evictable (heap s) (pinned s) ?x"
      using evict_scan_victim(1,2)[OF sc] set by auto
    have first: "evicted_before (heap s) ?x y"
      if "y \<in> set (roots s)" "evictable (heap s) (pinned s) y" "y \<noteq> ?x" for y
      using that evict_scan_victim(3)[OF sc, of y] set key[OF that(1) x(1)]
        evicted_before_linear[of y ?x "heap s"] by auto
    have s': "s' = discardLocked renameOk (Path (heap s ! v)) s0" and e: evicted
      using victim(3) assms(3) by auto
    have "set (roots s') = {y \<in> set (roots s). fst y \<noteq> ref}"
      unfolding s' victim(2) using set by (auto simp: AList.delete_eq)
    also have "\<dots> = set (roots s) - {?x}" 
    proof (rule set_eqI)
      fix y show "y \<in> {y \<in> set (roots s). fst y \<noteq> ref} \<longleftrightarrow> y \<in> set (roots s) - {?x}"
        using key[of y ?x] x(1) by (cases "fst y = ref") auto
    qed
    finally have rem: "set (roots s') = set (roots s) - {?x}" .
    have "live s0 (Path (heap s ! v))"
      using cache_ok_cached(2)[OF c] x(1) gm victim(2) by (simp add: go_map_lookup live_def)
    then have dead: "\<not> live s' (Path (heap s ! snd ?x))" unfolding s' snd_conv by (rule discard_not_live)
    have hp: "heap s' = heap s" using victim(2) unfolding s' by simp
    have all: "\<forall>y\<in>set (roots s). evictable (heap s) (pinned s) y \<and> y \<noteq> ?x \<longrightarrow> evicted_before (heap s) ?x y"
      using first by blast
    have ex: "\<exists>x\<in>set (roots s). evictable (heap s) (pinned s) x" using x by (rule bexI[rotated])
    show ?thesis
      unfolding if_P[OF ex] by (intro conjI e bexI[of _ ?x] x all rem hp dead)
  qed
qed

theorem eviction_choice_witness:
  "fst (evictOneIdleLocked 20 True demo_server) \<and> keys (roots (snd (evictOneIdleLocked 20 True demo_server))) = [''pin'', ''a'']
   \<and> \<not> live (snd (evictOneIdleLocked 20 True demo_server)) ''/r/b''"
proof -
  let ?r = "evictOneIdleLocked 20 True demo_server"
  have k: "keys (roots (snd ?r)) = [''pin'', ''a'']" by code_simp
  have ex: "\<exists>x\<in>set (roots demo_server). evictable (heap demo_server) (pinned demo_server) x"
    by (auto simp: demo_server_def evictable_def demo_root_def)
  have "evictOneIdleLocked 20 True (demo_server\<lparr>roots := roots demo_server\<rparr>) = (fst ?r, snd ?r)"
    by simp
  from eviction_choice[OF demo_server_ok refl this] obtain x where x: "fst ?r" "x \<in> set (roots demo_server)"
    "set (roots (snd ?r)) = set (roots demo_server) - {x}" "\<not> live (snd ?r) (Path (heap demo_server ! snd x))"
    using ex by auto
  have "distinct (keys (roots demo_server))" by code_simp
  with x(2,3) have "fst x \<notin> set (keys (roots (snd ?r)))"
    by (auto simp: distinct_map dest: inj_onD)
  then have "x = (''b'', 2)" using x(2) unfolding k by (auto simp: demo_server_def)
  moreover have "Path (heap demo_server ! 2) = ''/r/b''" by code_simp
  ultimately show ?thesis using x(1,4) k by simp
qed

text \<open>
  C36: Caching a freshly materialized image fails exactly when the image is not cached, all
  slots are taken and every cached root is leased or pinned; then the cache is unchanged.
  In particular it succeeds as long as the leased roots and the pinned images together are
  fewer than the slots.
\<close>

theorem fetch_fails_iff_no_slot:
  assumes "server_ok s"
  shows "(isl (fst (fetch_insert now renameOk imageRef token path s)) \<longleftrightarrow>
      map_of (roots s) imageRef = None \<and> int (length (roots s)) = MaxRoots (options s)
      \<and> (\<forall>(ref, a)\<in>set (roots s). leased s a \<or> ref \<in> set (pinned s)))
    \<and> (isl (fst (fetch_insert now renameOk imageRef token path s)) \<longrightarrow>
         roots (snd (fetch_insert now renameOk imageRef token path s)) = roots s)
    \<and> (int (length (filter (\<lambda>(ref, a). leased s a) (roots s)) + length (pinned s)) < MaxRoots (options s)
       \<longrightarrow> \<not> isl (fst (fetch_insert now renameOk imageRef token path s)))"
proof -
  obtain r s' where run: "fetch_insert now renameOk imageRef token path s = (r, s')" by fastforce
  have le: "int (length (roots s)) \<le> MaxRoots (options s)" and gm: "go_map (roots s)"
    using assms by (auto simp: server_ok_def cache_ok_def)
  have ev: "(\<forall>x\<in>set (roots s). \<not> evictable (heap s) (pinned s) x) \<longleftrightarrow>
      (\<forall>(ref, a)\<in>set (roots s). leased s a \<or> ref \<in> set (pinned s))"
    by (auto simp: evictable_def leased_def)
  have both: "(isl r \<longleftrightarrow> map_of (roots s) imageRef = None \<and> int (length (roots s)) = MaxRoots (options s)
      \<and> (\<forall>(ref, a)\<in>set (roots s). leased s a \<or> ref \<in> set (pinned s)))
    \<and> (isl r \<longrightarrow> roots s' = roots s)"
    using run
  proof (cases rule: fetch_insert_cases)
    case (added s1)
    then show ?thesis using ev evicts_iff[of now renameOk s] by auto
  qed (use le ev in auto)
  have few: "length (roots s) \<le> length (filter (\<lambda>(ref, a). leased s a) (roots s)) + length (pinned s)"
    if "\<forall>(ref, a)\<in>set (roots s). leased s a \<or> ref \<in> set (pinned s)"
  proof -
    let ?q = "filter (\<lambda>x. \<not> (case x of (ref, a) \<Rightarrow> leased s a)) (roots s)"
    have "distinct (map fst ?q)" using gm by (simp add: go_map_def distinct_map_filter)
    then have "length ?q = card (set (map fst ?q))" by (metis distinct_card length_map)
    also have "\<dots> \<le> card (set (pinned s))" using that by (intro card_mono) auto
    also have "\<dots> \<le> length (pinned s)" by (rule card_length)
    finally show ?thesis
      using sum_length_filter_compl[of "\<lambda>(ref, a). leased s a" "roots s"] by linarith
  qed
  have "\<not> isl r"
    if "int (length (filter (\<lambda>(ref, a). leased s a) (roots s)) + length (pinned s)) < MaxRoots (options s)"
    using that both few by linarith
  then show ?thesis using both run by simp
qed

theorem fetch_fails_iff_no_slot_witness:
  "\<not> isl (fst (fetch_insert 20 True ''c'' 8 ''/r/c'' demo_server))
   \<and> keys (roots (snd (fetch_insert 20 True ''c'' 8 ''/r/c'' demo_server))) = [''pin'', ''a'', ''c'']"
proof -
  have "int (length (filter (\<lambda>(ref, a). leased demo_server a) (roots demo_server))
      + length (pinned demo_server)) < MaxRoots (options demo_server)" by code_simp
  moreover have "keys (roots (snd (fetch_insert 20 True ''c'' 8 ''/r/c'' demo_server))) = [''pin'', ''a'', ''c'']"
    by code_simp
  ultimately show ?thesis
    using fetch_fails_iff_no_slot[OF demo_server_ok, of 20 True "''c''" 8 "''/r/c''"] by blast
qed

text \<open>
  C37: The virtual last use of a root after a use lies between one boost and the maximal boost
  ahead of the clock; \<open>n\<close> uses at one moment add up to \<open>n\<close> boosts, capped at the maximum. With
  the maximum equal to one boost the policy is plain LRU: it depends on the time of the last use
  only.
\<close>

theorem touch_virtual_last_use:
  assumes "options_ok opts"
  shows "now + UseBoost opts \<le> virtualLastUse (touchLocked opts now r)
    \<and> virtualLastUse (touchLocked opts now r) \<le> now + MaxUseBoost opts
    \<and> virtualLastUse ((touchLocked opts now ^^ Suc n) r)
        = min (max (virtualLastUse r) now + int (Suc n) * UseBoost opts) (now + MaxUseBoost opts)
    \<and> (MaxUseBoost opts = UseBoost opts \<longrightarrow>
         virtualLastUse (touchLocked opts now r) = now + UseBoost opts)"
proof -
  have one: "virtualLastUse (touchLocked opts now r')
      = min (max (virtualLastUse r') now + UseBoost opts) (now + MaxUseBoost opts)" for r'
    by (auto simp: touchLocked_def Let_def)
  have pos: "0 < UseBoost opts" "UseBoost opts \<le> MaxUseBoost opts" using assms by (auto simp: options_ok_def)
  have "virtualLastUse ((touchLocked opts now ^^ Suc n) r)
      = min (max (virtualLastUse r) now + int (Suc n) * UseBoost opts) (now + MaxUseBoost opts)"
  proof (induction n)
    case (Suc n)
    have "0 \<le> int (Suc n) * UseBoost opts" using pos by simp
    then have "now \<le> max (virtualLastUse r) now + int (Suc n) * UseBoost opts" by linarith
    then have "now \<le> virtualLastUse ((touchLocked opts now ^^ Suc n) r)" unfolding Suc using pos by simp
    then show ?case
      using Suc pos unfolding funpow.simps(2)[of "Suc n"] comp_def one
      by (auto simp: min_def max_def algebra_simps)
  qed (simp add: one)
  then show ?thesis using pos by (auto simp: one)
qed

theorem touch_virtual_last_use_witness:
  "virtualLastUse ((touchLocked demo_options 100 ^^ Suc 1) (demo_root ''/r'' [] 40)) = 110"
  using touch_virtual_last_use[of demo_options 100 "demo_root ''/r'' [] 40" 1]
  by (simp add: demo_options_def demo_root_def options_ok_def)

text \<open>
  Releasing a lease removes exactly that lease and nothing else, and releasing it again,
  at whatever later time, changes nothing.
\<close>

theorem release_idempotent:
  assumes "a < length (heap s)"
  shows "set (leases (heap (releaseFunc now a token s) ! a)) = set (leases (heap s ! a)) - {token}
    \<and> (\<forall>b. b \<noteq> a \<longrightarrow> heap (releaseFunc now a token s) ! b = heap s ! b)
    \<and> roots (releaseFunc now a token s) = roots s \<and> disk (releaseFunc now a token s) = disk s
    \<and> releaseFunc later a token (releaseFunc now a token s) = releaseFunc now a token s"
  using assms by (auto simp: releaseFunc_def update_root_def Let_def)

theorem release_idempotent_witness:
  "LeaseCount ''a'' demo_server = 1 \<and> LeaseCount ''a'' (releaseFunc 50 1 7 demo_server) = 0
   \<and> releaseFunc 60 1 7 (releaseFunc 50 1 7 demo_server) = releaseFunc 50 1 7 demo_server"
proof -
  have "LeaseCount ''a'' demo_server = 1" "LeaseCount ''a'' (releaseFunc 50 1 7 demo_server) = 0"
    by code_simp+
  then show ?thesis using release_idempotent[of 1 demo_server 50 7 60] by (simp add: demo_server_def)
qed

text \<open>
  A new server has valid options and an empty cache that satisfies the invariant. The
  constructor fails exactly when the distinct prefetched images take half of the slots or more;
  exactly half is refused too.
\<close>

theorem new_server:
  "case NewServer existing opts of
     Inl e \<Rightarrow> 2 * int (card (set (PrefetchImages_opt opts))) \<ge> max 1 (MaxRoots opts)
   | Inr s \<Rightarrow> 2 * int (card (set (PrefetchImages_opt opts))) < max 1 (MaxRoots opts) \<and> server_ok s
       \<and> roots s = [] \<and> set (pinned s) = set (PrefetchImages_opt opts)
       \<and> MaxRoots (options s) = max 1 (MaxRoots opts)
       \<and> (options_ok opts \<longrightarrow> options s = opts)"
proof -
  have "PrefetchImages_opt (normalize_options opts) = PrefetchImages_opt opts"
    "MaxRoots (normalize_options opts) = max 1 (MaxRoots opts)"
    by (auto simp: normalize_options_def Let_def)
  moreover have "options_ok opts \<Longrightarrow> normalize_options opts = opts"
    by (auto simp: options_ok_def normalize_options_def Let_def)
  ultimately show ?thesis
    using NewServer_ok[of existing opts]
    by (auto simp: NewServer_def Let_def length_remdups_card_conv split: sum.splits if_splits)
qed

text \<open>The property at one prefetched image and two slots, exactly half of them.\<close>

theorem new_server_witness:
  "isl (NewServer [] (demo_options\<lparr>MaxRoots := 2\<rparr>)) \<and> \<not> isl (NewServer [] demo_options)"
  using new_server[where existing = "[]" and opts = "demo_options\<lparr>MaxRoots := 2\<rparr>"]
    new_server[where existing = "[]" and opts = demo_options]
  by (auto simp: demo_options_def isl_def split: sum.splits)

end
