(* ===== verification/Fetcher_Concurrency.thy ===== *)
theory Fetcher_Concurrency
  imports Fetcher_Server
begin

text \<open>
  The interleaving of concurrent \<open>Acquire\<close> calls of \<open>src/pkg/fetcher/server.go\<close>. Every call has
  a lease token; \<open>phase\<close> says how far the call with that token is. A step is one of the pieces
  the source makes atomic: a critical section under the server's mutex, a transition of the
  \<open>singleflight\<close> group, a send on or a receive from the semaphore channel, the return of
  \<open>Materialize\<close>, a deletion by a background goroutine. Calls are interleaved arbitrarily.
\<close>

section \<open>Definitions\<close>

datatype phase =
    NotStarted
  | Missed string
  | WaitSem string
  | Materializing string
  | Materialized string string
  | Fetched string "nat res"
  | Following string nat
  | GotRoot string nat
  | Holding string nat
  | Released string nat
  | Failed go_error

text \<open>
  \<open>inflight\<close> maps an image to the token of the call that leads its flight, \<open>results\<close> has what
  the finished flights returned, by leader. \<open>sem\<close> is the semaphore channel's contents.
\<close>

record system =
  srv :: Server
  inflight :: "(string, nat) gomap"
  results :: "nat \<Rightarrow> nat res option"
  sem :: "nat list"
  phase :: "nat \<Rightarrow> phase"

definition set_phase :: "nat \<Rightarrow> phase \<Rightarrow> system \<Rightarrow> system" where
  "set_phase t ph S = S\<lparr>phase := (phase S)(t := ph)\<rparr>"

definition count_acquire :: "string \<Rightarrow> Server \<Rightarrow> Server" where
  "count_acquire status s = s\<lparr>acquireTotal := acquireTotal s @ [status]\<rparr>"

text \<open>What \<open>Acquire\<close> does with the group's result.\<close>

definition flight_phase :: "string \<Rightarrow> nat res \<Rightarrow> phase" where
  "flight_phase ref r = (case r of Inl e \<Rightarrow> Failed e | Inr a \<Rightarrow> GotRoot ref a)"

definition flight_count :: "nat res \<Rightarrow> Server \<Rightarrow> Server" where
  "flight_count r s = (case r of Inl e \<Rightarrow> count_acquire ''error'' s | Inr a \<Rightarrow> s)"

inductive step :: "system \<Rightarrow> system \<Rightarrow> bool" where
  hit: "phase S t = NotStarted \<Longrightarrow> acquireCachedRoot now ref t (srv S) = (Some a, s') \<Longrightarrow>
    step S (set_phase t (Holding ref a) (S\<lparr>srv := count_acquire ''hit'' s'\<rparr>))"
| miss: "phase S t = NotStarted \<Longrightarrow> acquireCachedRoot now ref t (srv S) = (None, s') \<Longrightarrow>
    step S (set_phase t (Missed ref) (S\<lparr>srv := s'\<rparr>))"
| lead: "phase S t = Missed ref \<Longrightarrow> map_of (inflight S) ref = None \<Longrightarrow>
    step S (set_phase t (WaitSem ref) (S\<lparr>inflight := AList.update ref t (inflight S)\<rparr>))"
| join_flight: "phase S t = Missed ref \<Longrightarrow> map_of (inflight S) ref = Some l \<Longrightarrow>
    step S (set_phase t (Following ref l) S)"
| enter: "phase S t = WaitSem ref \<Longrightarrow> int (length (sem S)) < MaxConcurrentFetches (options (srv S)) \<Longrightarrow>
    step S (set_phase t (Materializing ref) (S\<lparr>sem := t # sem S\<rparr>))"
| materialize: "phase S t = Materializing ref \<Longrightarrow> path \<notin> set (disk (srv S)) \<Longrightarrow>
    step S (set_phase t (Materialized ref path)
      (S\<lparr>srv := (srv S)\<lparr>disk := path # disk (srv S)\<rparr>\<rparr>))"
| materialize_fails: "phase S t = Materializing ref \<Longrightarrow>
    step S (set_phase t (Fetched ref (Inl e)) S)"
| insert_root: "phase S t = Materialized ref path \<Longrightarrow>
    fetch_insert now renameOk ref t path (srv S) = (r, s') \<Longrightarrow>
    step S (set_phase t (Fetched ref r) (S\<lparr>srv := s'\<rparr>))"
| publish: "phase S t = Fetched ref r \<Longrightarrow>
    step S (set_phase t (flight_phase ref r)
      (S\<lparr>srv := flight_count r (srv S), sem := removeAll t (sem S),
         inflight := AList.delete ref (inflight S), results := (results S)(t \<mapsto> r)\<rparr>))"
| follow: "phase S t = Following ref l \<Longrightarrow> results S l = Some r \<Longrightarrow>
    step S (set_phase t (flight_phase ref r) (S\<lparr>srv := flight_count r (srv S)\<rparr>))"
| attach: "phase S t = GotRoot ref a \<Longrightarrow> attachLease now ref a t (srv S) = (True, s') \<Longrightarrow>
    step S (set_phase t (Holding ref a) (S\<lparr>srv := count_acquire ''miss'' s'\<rparr>))"
| attach_fails: "phase S t = GotRoot ref a \<Longrightarrow> attachLease now ref a t (srv S) = (False, s') \<Longrightarrow>
    step S (set_phase t (Failed (Errorf Unknown
        ''root for %s was evicted before its lease could be attached'' [ref]))
      (S\<lparr>srv := count_acquire ''error'' s'\<rparr>))"
| release: "phase S t = Holding ref a \<Longrightarrow>
    step S (set_phase t (Released ref a) (S\<lparr>srv := releaseFunc now a t (srv S)\<rparr>))"
| release_again: "phase S t = Released ref a \<Longrightarrow>
    step S (S\<lparr>srv := releaseFunc now a t (srv S)\<rparr>)"
| reap_one: "target \<in> set (reaping (srv S)) \<Longrightarrow> step S (S\<lparr>srv := reap target (srv S)\<rparr>)"

inductive_cases stepE: "step S S'"

definition initial :: "system \<Rightarrow> bool" where
  "initial S \<longleftrightarrow> (\<exists>existing opts. NewServer existing opts = Inr (srv S)) \<and> inflight S = []
     \<and> results S = (\<lambda>_. None) \<and> sem S = [] \<and> phase S = (\<lambda>_. NotStarted)"

inductive reachable :: "system \<Rightarrow> bool" where
  start: "initial S \<Longrightarrow> reachable S"
| next_step: "reachable S \<Longrightarrow> step S S' \<Longrightarrow> reachable S'"

section \<open>The invariant\<close>

definition leads :: "phase \<Rightarrow> string option" where
  "leads ph = (case ph of WaitSem ref \<Rightarrow> Some ref | Materializing ref \<Rightarrow> Some ref
     | Materialized ref p \<Rightarrow> Some ref | Fetched ref r \<Rightarrow> Some ref | _ \<Rightarrow> None)"

definition in_sem :: "phase \<Rightarrow> bool" where
  "in_sem ph = (case ph of Materializing ref \<Rightarrow> True | Materialized ref p \<Rightarrow> True
     | Fetched ref r \<Rightarrow> True | _ \<Rightarrow> False)"

text \<open>The phases in which a call may own a lease on the root \<open>a\<close> of the image \<open>ref\<close>.\<close>

definition may_own :: "phase \<Rightarrow> string \<Rightarrow> nat \<Rightarrow> bool" where
  "may_own ph ref a \<longleftrightarrow> ph = Holding ref a \<or> ph = GotRoot ref a \<or> ph = Fetched ref (Inr a)"

text \<open>Leases and calls correspond: who holds has a lease, and no lease is without an owner.\<close>

definition leases_ok :: "system \<Rightarrow> bool" where
  "leases_ok S \<longleftrightarrow>
     (\<forall>t ref a. phase S t = Holding ref a \<longrightarrow>
        a < length (heap (srv S)) \<and> t \<in> set (leases (heap (srv S) ! a)))
   \<and> (\<forall>a<length (heap (srv S)). \<forall>t\<in>set (leases (heap (srv S) ! a)).
        \<exists>ref. map_of (roots (srv S)) ref = Some a \<and> may_own (phase S t) ref a)"

definition private_ok :: "system \<Rightarrow> bool" where
  "private_ok S \<longleftrightarrow>
     (\<forall>t ref p. phase S t = Materialized ref p \<longrightarrow> live (srv S) p \<and> p \<notin> root_paths (srv S))
   \<and> (\<forall>t t' ref ref' p. phase S t = Materialized ref p \<longrightarrow> phase S t' = Materialized ref' p \<longrightarrow> t = t')"

text \<open>The flights are those of the calls that lead one; a flight a call waits for is one or is done.\<close>

definition leaders_ok :: "system \<Rightarrow> bool" where
  "leaders_ok S \<longleftrightarrow> (\<forall>ref t. map_of (inflight S) ref = Some t \<longleftrightarrow> leads (phase S t) = Some ref)"

definition followers_ok :: "system \<Rightarrow> bool" where
  "followers_ok S \<longleftrightarrow> (\<forall>t ref l. phase S t = Following ref l \<longrightarrow>
     map_of (inflight S) ref = Some l \<or> results S l \<noteq> None)"

definition sem_ok :: "system \<Rightarrow> bool" where
  "sem_ok S \<longleftrightarrow> distinct (sem S) \<and> set (sem S) = {t. in_sem (phase S t)}
   \<and> int (length (sem S)) \<le> MaxConcurrentFetches (options (srv S))"

lemma set_phase_simps [simp]:
  "phase (set_phase t ph S) = (phase S)(t := ph)" "srv (set_phase t ph S) = srv S"
  "inflight (set_phase t ph S) = inflight S" "results (set_phase t ph S) = results S"
  "sem (set_phase t ph S) = sem S"
  by (simp_all add: set_phase_def)

lemma phase_fun_simps [simp]:
  "leads NotStarted = None" "leads (Missed ref) = None" "leads (WaitSem ref) = Some ref"
  "leads (Materializing ref) = Some ref" "leads (Materialized ref p) = Some ref"
  "leads (Fetched ref r) = Some ref" "leads (Following ref l) = None" "leads (GotRoot ref a) = None"
  "leads (Holding ref a) = None" "leads (Released ref a) = None" "leads (Failed e) = None"
  "leads (flight_phase ref r) = None"
  "\<not> in_sem NotStarted" "\<not> in_sem (Missed ref)" "\<not> in_sem (WaitSem ref)"
  "in_sem (Materializing ref)" "in_sem (Materialized ref p)" "in_sem (Fetched ref r)"
  "\<not> in_sem (Following ref l)" "\<not> in_sem (GotRoot ref a)" "\<not> in_sem (Holding ref a)"
  "\<not> in_sem (Released ref a)" "\<not> in_sem (Failed e)" "\<not> in_sem (flight_phase ref r)"
  "flight_phase ref r \<noteq> Following ref' l" "flight_phase ref r \<noteq> Materialized ref' p"
  "flight_phase ref r \<noteq> Holding ref' a"
  by (auto simp: leads_def in_sem_def flight_phase_def split: sum.splits)

section \<open>Effects of the server's operations\<close>

lemma count_simps [simp]:
  "roots (count_acquire st s) = roots s" "heap (count_acquire st s) = heap s"
  "disk (count_acquire st s) = disk s" "reaping (count_acquire st s) = reaping s"
  "options (count_acquire st s) = options s" "pinned (count_acquire st s) = pinned s"
  "roots (flight_count r s) = roots s" "heap (flight_count r s) = heap s"
  "disk (flight_count r s) = disk s" "reaping (flight_count r s) = reaping s"
  "options (flight_count r s) = options s" "pinned (flight_count r s) = pinned s"
  by (simp_all add: count_acquire_def flight_count_def split: sum.split)

lemma count_preds [simp]:
  "live (count_acquire st s) = live s" "root_paths (count_acquire st s) = root_paths s"
  "server_ok (count_acquire st s) = server_ok s"
  "live (flight_count r s) = live s" "root_paths (flight_count r s) = root_paths s"
  "server_ok (flight_count r s) = server_ok s"
  by (auto simp: live_def root_paths_def server_ok_def cache_ok_def reaper_ok_def leased_def
      count_acquire_def flight_count_def fun_eq_iff split: sum.split)

text \<open>A lease is added to a cached root.\<close>

definition lease_root :: "int \<Rightarrow> nat \<Rightarrow> nat \<Rightarrow> Server \<Rightarrow> Server" where
  "lease_root now t a s = update_root a (\<lambda>r. touchLocked (options s) now (add_lease t r)) s"

lemma acquireCachedRoot_cases:
  "acquireCachedRoot now ref t s = (Some a, s') \<longleftrightarrow>
     map_of (roots s) ref = Some a \<and> s' = lease_root now t a s"
  "acquireCachedRoot now ref t s = (None, s') \<longleftrightarrow> map_of (roots s) ref = None \<and> s' = s"
  by (auto simp: acquireCachedRoot_def lease_root_def split: option.splits)

lemma attachLease_cases:
  "attachLease now ref a t s = (True, s') \<longleftrightarrow>
     map_of (roots s) ref = Some a \<and> s' = lease_root now t a s"
  "attachLease now ref a t s = (False, s') \<longleftrightarrow> map_of (roots s) ref \<noteq> Some a \<and> s' = s"
  by (auto simp: attachLease_def lease_root_def)

lemma live_update [simp]: "live (update_root a f s) = live s"
  by (simp add: live_def fun_eq_iff)

lemma root_paths_update:
  "(\<And>r. Path (f r) = Path r) \<Longrightarrow> root_paths (update_root a f s) = root_paths s"
  unfolding root_paths_def by (intro image_cong) (auto simp: update_root_def nth_list_update')

lemma lease_root_simps [simp]:
  "roots (lease_root now t a s) = roots s" "options (lease_root now t a s) = options s"
  "pinned (lease_root now t a s) = pinned s" "live (lease_root now t a s) = live s"
  "root_paths (lease_root now t a s) = root_paths s"
  "length (heap (lease_root now t a s)) = length (heap s)"
  by (simp_all add: lease_root_def root_paths_update)

lemma lease_root_leases:
  "set (leases (heap (lease_root now t a s) ! b)) =
     (if b = a \<and> a < length (heap s) then insert t (set (leases (heap s ! b))) else set (leases (heap s ! b)))"
  by (auto simp: lease_root_def update_root_def nth_list_update')

lemma lease_root_ok: "server_ok s \<Longrightarrow> map_of (roots s) ref = Some a \<Longrightarrow> server_ok (lease_root now t a s)"
  using attachLease_ok[of s now ref a t] by (simp add: attachLease_def lease_root_def)

lemma releaseFunc_simps [simp]:
  "roots (releaseFunc now a t s) = roots s" "options (releaseFunc now a t s) = options s"
  "pinned (releaseFunc now a t s) = pinned s" "live (releaseFunc now a t s) = live s"
  "length (heap (releaseFunc now a t s)) = length (heap s)"
  by (simp_all add: releaseFunc_def)

lemma releaseFunc_paths [simp]: "root_paths (releaseFunc now a t s) = root_paths s"
  unfolding releaseFunc_def by (simp add: root_paths_update Let_def)

lemma releaseFunc_leases:
  "set (leases (heap (releaseFunc now a t s) ! b)) =
     (if b = a \<and> a < length (heap s) then set (leases (heap s ! b)) - {t} else set (leases (heap s ! b)))"
  by (auto simp: releaseFunc_def update_root_def nth_list_update' Let_def)

lemma server_ok_disk:
  "server_ok s \<Longrightarrow> server_ok (s\<lparr>disk := p # disk s\<rparr>)"
  by (auto simp: server_ok_def cache_ok_def reaper_ok_def live_def leased_def)

lemma reap_paths [simp]: "root_paths (reap t s) = root_paths s"
  by (simp add: root_paths_def)

lemma root_paths_live: "server_ok s \<Longrightarrow> p \<in> root_paths s \<Longrightarrow> live s p"
  by (auto simp: server_ok_def cache_ok_def root_paths_def)

lemma live_disk: "live (s\<lparr>disk := p # disk s\<rparr>) q \<longleftrightarrow> live s q \<or> q = p \<and> p \<notin> set (reaping s)"
  by (auto simp: live_def)

section \<open>Every step keeps the invariant\<close>

lemma step_server:
  assumes "step S S'" and "server_ok (srv S)" and "private_ok S"
  shows "server_ok (srv S') \<and> options (srv S') = options (srv S) \<and> pinned (srv S') = pinned (srv S)"
  using assms
proof (cases rule: step.cases)
  case (insert_root t ref path now renameOk r s')
  then have "live (srv S) path" "path \<notin> root_paths (srv S)" using assms(3) by (auto simp: private_ok_def)
  from fetch_insert_ok(1-3)[OF assms(2) this insert_root(3)] show ?thesis using insert_root by simp
qed (auto simp: acquireCachedRoot_cases attachLease_cases lease_root_ok releaseFunc_ok server_ok_disk reap_ok)

lemma privateI:
  assumes "\<And>t ref p. phase S t = Materialized ref p \<Longrightarrow> live (srv S) p \<and> p \<notin> root_paths (srv S)"
    and "\<And>t t' ref ref' p. phase S t = Materialized ref p \<Longrightarrow> phase S t' = Materialized ref' p \<Longrightarrow> t = t'"
  shows "private_ok S"
  using assms unfolding private_ok_def by blast

lemma privateD:
  assumes "private_ok S" and "phase S t = Materialized ref p"
  shows "live (srv S) p" and "p \<notin> root_paths (srv S)"
    and "phase S t' = Materialized ref' p \<Longrightarrow> t' = t"
  using assms unfolding private_ok_def by blast+

lemma step_private:
  assumes "step S S'" and "server_ok (srv S)" and "private_ok S"
  shows "private_ok S'"
  using assms(1)
proof (cases rule: step.cases)
  case (insert_root t ref path now renameOk r s')
  note p = privateD(1,2)[OF assms(3) insert_root(2)]
  show ?thesis
  proof (rule privateI)
    fix u ref' q assume "phase S' u = Materialized ref' q"
    then have u: "u \<noteq> t" "phase S u = Materialized ref' q" using insert_root by (auto split: if_splits)
    then have "q \<noteq> path" using privateD(3)[OF assms(3) insert_root(2)] by blast
    then show "live (srv S') q \<and> q \<notin> root_paths (srv S')"
      using fetch_insert_ok(4)[OF assms(2) p insert_root(3)] privateD(1,2)[OF assms(3) u(2)] insert_root(1)
      by simp
  qed (use insert_root(1) privateD(3)[OF assms(3)] in \<open>auto split: if_splits\<close>)
next
  case (materialize t ref path)
  have new: "path \<notin> root_paths (srv S)" "path \<notin> set (reaping (srv S))"
    using materialize(3) root_paths_live[OF assms(2)] assms(2)
    by (auto simp: live_def server_ok_def reaper_ok_def)
  have old: "q \<noteq> path" if "phase S u = Materialized ref' q" for u ref' q
    using privateD(1)[OF assms(3) that] materialize(3) by (auto simp: live_def)
  show ?thesis
  proof (rule privateI)
    fix u ref' q assume u: "phase S' u = Materialized ref' q"
    show "live (srv S') q \<and> q \<notin> root_paths (srv S')"
    proof (cases "u = t")
      case True
      then show ?thesis using u new materialize(1) by (simp add: live_disk root_paths_def)
    next
      case False
      then have "phase S u = Materialized ref' q" using u materialize(1) by simp
      from privateD(1,2)[OF assms(3) this] show ?thesis
        using materialize(1) by (simp add: live_disk root_paths_def)
    qed
  next
    fix u v ref' ref'' q
    assume "phase S' u = Materialized ref' q" "phase S' v = Materialized ref'' q"
    then show "u = v"
      using materialize(1) old privateD(3)[OF assms(3)] by (auto split: if_splits)
  qed
next
  case (reap_one target)
  then show ?thesis using assms(3) by (auto simp: private_ok_def reap_live)
qed (use assms(3) in \<open>auto simp: private_ok_def acquireCachedRoot_cases attachLease_cases\<close>)

lemma step_leaders:
  assumes "step S S'" and "leaders_ok S"
  shows "leaders_ok S'"
  using assms
proof (cases rule: step.cases)
  case (lead t ref)
  moreover have "leads (phase S u) \<noteq> Some ref" for u
    using assms(2) lead(3) unfolding leaders_ok_def by (metis option.distinct(1))
  ultimately show ?thesis using assms(2) by (auto simp: leaders_ok_def)
next
  case (publish t ref r)
  moreover have "leads (phase S u) = Some ref \<Longrightarrow> u = t" for u
    using assms(2) publish(2) unfolding leaders_ok_def by (metis option.inject phase_fun_simps(6))
  ultimately show ?thesis using assms(2) by (auto simp: leaders_ok_def)
qed (auto simp: leaders_ok_def)

lemma followersI:
  "(\<And>t ref l. phase S t = Following ref l \<Longrightarrow> results S l = None \<Longrightarrow> map_of (inflight S) ref = Some l) \<Longrightarrow>
    followers_ok S"
  unfolding followers_ok_def by blast

lemma followersD:
  "followers_ok S \<Longrightarrow> phase S t = Following ref l \<Longrightarrow> results S l = None \<Longrightarrow> map_of (inflight S) ref = Some l"
  unfolding followers_ok_def by blast

lemma step_followers:
  assumes "step S S'" and "leaders_ok S" and "followers_ok S"
  shows "followers_ok S'"
  using assms(1)
proof (cases rule: step.cases)
  case (publish t ref r)
  then have t: "map_of (inflight S) ref = Some t" using assms(2) by (simp add: leaders_ok_def)
  show ?thesis
  proof (rule followersI)
    fix u ref' l
    assume "phase S' u = Following ref' l" and n: "results S' l = None"
    then have "phase S u = Following ref' l" using publish by (simp split: if_splits)
    then have "map_of (inflight S) ref' = Some l"
      using followersD[OF assms(3)] n publish(1) by (simp split: if_splits)
    then show "map_of (inflight S') ref' = Some l" using publish t n by auto
  qed
next
  case (lead t ref)
  then show ?thesis
    by (intro followersI) (auto dest: followersD[OF assms(3)] split: if_splits)
qed (intro followersI, auto dest: followersD[OF assms(3)] split: if_splits)+

lemma step_sem:
  assumes "step S S'" and "server_ok (srv S)" and "private_ok S" and "sem_ok S"
  shows "sem_ok S'"
proof -
  have opts: "options (srv S') = options (srv S)" using step_server[OF assms(1-3)] by simp
  show ?thesis
    using assms(1)
  proof (cases rule: step.cases)
    case (publish t ref r)
    have "length (removeAll t (sem S)) \<le> length (sem S)" by (rule length_removeAll_less_eq)
    then have "int (length (removeAll t (sem S))) \<le> MaxConcurrentFetches (options (srv S))"
      using assms(4) unfolding sem_ok_def by linarith
    then show ?thesis using publish opts assms(4) by (auto simp: sem_ok_def distinct_removeAll)
  qed (use assms(4) opts in \<open>auto simp: sem_ok_def\<close>)
qed

lemma leasesI:
  assumes "\<And>t ref a. phase S t = Holding ref a \<Longrightarrow>
      a < length (heap (srv S)) \<and> t \<in> set (leases (heap (srv S) ! a))"
    and "\<And>a t. a < length (heap (srv S)) \<Longrightarrow> t \<in> set (leases (heap (srv S) ! a)) \<Longrightarrow>
      \<exists>ref. map_of (roots (srv S)) ref = Some a \<and> may_own (phase S t) ref a"
  shows "leases_ok S"
  using assms unfolding leases_ok_def by blast

lemma leasesD:
  assumes "leases_ok S"
  shows "phase S t = Holding ref a \<Longrightarrow> a < length (heap (srv S)) \<and> t \<in> set (leases (heap (srv S) ! a))"
    and "a < length (heap (srv S)) \<Longrightarrow> t \<in> set (leases (heap (srv S) ! a)) \<Longrightarrow>
      \<exists>ref. map_of (roots (srv S)) ref = Some a \<and> may_own (phase S t) ref a"
  using assms unfolding leases_ok_def by blast+

text \<open>A step that leaves the cache alone and changes only the phase of a call without a lease.\<close>

lemma leases_ok_other:
  assumes "leases_ok S" and "heap (srv X) = heap (srv S)" and "roots (srv X) = roots (srv S)"
    and "phase X = phase S" and "\<And>ref a. ph \<noteq> Holding ref a"
    and "\<And>ref a. may_own (phase S t) ref a \<Longrightarrow> may_own ph ref a"
  shows "leases_ok (set_phase t ph X)"
proof (rule leasesI)
  fix u ref a assume "phase (set_phase t ph X) u = Holding ref a"
  then show "a < length (heap (srv (set_phase t ph X))) \<and> u \<in> set (leases (heap (srv (set_phase t ph X)) ! a))"
    using leasesD(1)[OF assms(1), of u ref a] assms by (auto split: if_splits)
next
  fix a u assume "a < length (heap (srv (set_phase t ph X)))"
    "u \<in> set (leases (heap (srv (set_phase t ph X)) ! a))"
  then show "\<exists>ref. map_of (roots (srv (set_phase t ph X))) ref = Some a
      \<and> may_own (phase (set_phase t ph X) u) ref a"
    using leasesD(2)[OF assms(1), of a u] assms(2-4,6) by auto
qed

text \<open>A call gets a lease on the cached root of its image.\<close>

lemma leases_ok_lease:
  assumes ok: "leases_ok S" "server_ok (srv S)" and a: "map_of (roots (srv S)) ref = Some a"
    and S': "srv S' = count_acquire st (lease_root now t a (srv S))"
      "phase S' = (phase S)(t := Holding ref a)"
    and own: "\<And>ref' b. may_own (phase S t) ref' b \<Longrightarrow> ref' = ref \<and> b = a"
  shows "leases_ok S'"
proof (rule leasesI)
  have len: "a < length (heap (srv S))"
    using cache_ok_cached(1)[OF _ a] ok(2) by (simp add: server_ok_def)
  fix u ref' b assume "phase S' u = Holding ref' b"
  then show "b < length (heap (srv S')) \<and> u \<in> set (leases (heap (srv S') ! b))"
    using leasesD(1)[OF ok(1), of u ref' b] S' len by (auto simp: lease_root_leases split: if_splits)
next
  fix b u assume u: "b < length (heap (srv S'))" "u \<in> set (leases (heap (srv S') ! b))"
  show "\<exists>ref. map_of (roots (srv S')) ref = Some b \<and> may_own (phase S' u) ref b"
  proof (cases "u = t \<and> b = a")
    case True
    then show ?thesis using a S' by (auto simp: may_own_def)
  next
    case False
    then have "u \<in> set (leases (heap (srv S) ! b))" "b < length (heap (srv S))"
      using u S' by (auto simp: lease_root_leases split: if_splits)
    then obtain r where r: "map_of (roots (srv S)) r = Some b" "may_own (phase S u) r b"
      using leasesD(2)[OF ok(1)] by blast
    then have "u \<noteq> t" using False own[of r b] by auto
    then show ?thesis using r S' by auto
  qed
qed

lemma step_leases:
  assumes "step S S'" and "server_ok (srv S)" and "private_ok S" and "leases_ok S"
  shows "leases_ok S'"
  using assms(1)
proof (cases rule: step.cases)
  case (hit t now ref a s')
  then show ?thesis
    by (intro leases_ok_lease[OF assms(4,2)]) (auto simp: acquireCachedRoot_cases may_own_def)
next
  case (attach t ref a now s')
  then show ?thesis
    by (intro leases_ok_lease[OF assms(4,2)]) (auto simp: attachLease_cases may_own_def)
next
  case (attach_fails t ref a now s')
  then have s': "s' = srv S" "map_of (roots (srv S)) ref \<noteq> Some a" by (auto simp: attachLease_cases)
  show ?thesis
  proof (rule leasesI)
    fix b u assume u: "b < length (heap (srv S'))" "u \<in> set (leases (heap (srv S') ! b))"
    then obtain r where r: "map_of (roots (srv S)) r = Some b" "may_own (phase S u) r b"
      using leasesD(2)[OF assms(4), of b u] attach_fails(1) s' by auto
    then have "u \<noteq> t" using attach_fails(2) s'(2) by (auto simp: may_own_def)
    then show "\<exists>r. map_of (roots (srv S')) r = Some b \<and> may_own (phase S' u) r b"
      using r attach_fails(1) s' by auto
  qed (use leasesD(1)[OF assms(4)] attach_fails(1) s' in \<open>auto split: if_splits\<close>)
next
  case (insert_root t ref path now renameOk r s')
  note p = privateD(1,2)[OF assms(3) insert_root(2)]
  note ins = fetch_insert_ok[OF assms(2) p insert_root(3)]
  show ?thesis
  proof (rule leasesI)
    fix u ref' a assume "phase S' u = Holding ref' a"
    then have "phase S u = Holding ref' a" using insert_root(1) by (auto split: if_splits)
    then show "a < length (heap (srv S')) \<and> u \<in> set (leases (heap (srv S') ! a))"
      using leasesD(1)[OF assms(4)] ins(5)[of a] insert_root(1) by simp
  next
    fix a u assume u: "a < length (heap (srv S'))" "u \<in> set (leases (heap (srv S') ! a))"
    show "\<exists>ref. map_of (roots (srv S')) ref = Some a \<and> may_own (phase S' u) ref a"
    proof (cases "a < length (heap (srv S))")
      case True
      then have "u \<in> set (leases (heap (srv S) ! a))" using u insert_root(1) ins(5)[of a] by simp
      then have "leased (srv S) a"
        and "\<exists>r'. map_of (roots (srv S)) r' = Some a \<and> may_own (phase S u) r' a"
        using leasesD(2)[OF assms(4) True] by (force simp: leased_def)+
      then obtain r' where r': "map_of (roots (srv S)) r' = Some a" "may_own (phase S u) r' a"
        and "map_of (roots s') r' = Some a"
        using ins(6) by blast
      moreover have "u \<noteq> t" using r'(2) insert_root(2) by (auto simp: may_own_def)
      ultimately show ?thesis using r' insert_root(1) by auto
    next
      case False
      from insert_root(3) show ?thesis
      proof (cases rule: fetch_insert_cases)
        case (added s1)
        have "heap s1 = heap (srv S)" using added(4) evict_ok(2)[OF assms(2)] by auto
        then have a: "a = length (heap s1)" "leases (heap s' ! a) = [t]"
          using False u(1) insert_root(1) added(3)
          by (auto simp: add_root_def new_root_def nth_append less_Suc_eq)
        then show ?thesis
          using u(2) insert_root(1) ins(7)[OF added(2)] added(2) by (auto simp: may_own_def)
      qed (use False u(1) insert_root(1) in \<open>auto split: if_splits\<close>)
    qed
  qed
next
  case (release t ref a now)
  show ?thesis
  proof (rule leasesI)
    fix b u assume u: "b < length (heap (srv S'))" "u \<in> set (leases (heap (srv S') ! b))"
    then have "u \<in> set (leases (heap (srv S) ! b))" "b < length (heap (srv S))" "u = t \<longrightarrow> b \<noteq> a"
      using release(1) by (auto simp: releaseFunc_leases split: if_splits)
    then obtain r where r: "map_of (roots (srv S)) r = Some b" "may_own (phase S u) r b"
      using leasesD(2)[OF assms(4), of b u] by blast
    then have "u \<noteq> t" using release(2) \<open>u = t \<longrightarrow> b \<noteq> a\<close> by (auto simp: may_own_def)
    then show "\<exists>r. map_of (roots (srv S')) r = Some b \<and> may_own (phase S' u) r b"
      using r release(1) by auto
  qed (use leasesD(1)[OF assms(4)] release(1) in \<open>auto simp: releaseFunc_leases split: if_splits\<close>)
next
  case (release_again t ref a now)
  then have "t \<notin> set (leases (heap (srv S) ! a)) \<or> \<not> a < length (heap (srv S))"
    using leasesD(2)[OF assms(4), of a t] by (auto simp: may_own_def)
  then have "heap (releaseFunc now a t (srv S)) = heap (srv S)"
    by (auto simp: releaseFunc_def update_root_def list_update_beyond)
  then show ?thesis
    using release_again(1) assms(4) by (simp add: leases_ok_def)
next
  case (reap_one target)
  then show ?thesis using assms(4) by (simp add: leases_ok_def)
qed (auto intro!: leases_ok_other[OF assms(4)] simp: acquireCachedRoot_cases may_own_def flight_phase_def
  split: sum.splits)

definition system_ok :: "system \<Rightarrow> bool" where
  "system_ok S \<longleftrightarrow> server_ok (srv S) \<and> private_ok S \<and> leases_ok S \<and> leaders_ok S \<and> followers_ok S
     \<and> sem_ok S"

lemma NewServer_heap: "NewServer existing opts = Inr s \<Longrightarrow> heap s = []"
  by (auto simp: NewServer_def Let_def split: if_splits)

lemma initial_ok: "initial S \<Longrightarrow> system_ok S"
proof -
  assume i: "initial S"
  then obtain existing opts where n: "NewServer existing opts = Inr (srv S)" by (auto simp: initial_def)
  then have "server_ok (srv S)" by (rule NewServer_ok)
  moreover have "heap (srv S) = []" using n by (rule NewServer_heap)
  ultimately show ?thesis
    using i by (auto simp: initial_def system_ok_def private_ok_def leases_ok_def leaders_ok_def
        followers_ok_def sem_ok_def server_ok_def options_ok_def)
qed

lemma step_ok: "step S S' \<Longrightarrow> system_ok S \<Longrightarrow> system_ok S'"
  unfolding system_ok_def
  using step_server step_private step_leases step_leaders step_followers step_sem by blast

lemma reachable_ok: "reachable S \<Longrightarrow> system_ok S"
  by (induction rule: reachable.induct) (auto intro: initial_ok step_ok)

text \<open>Leased and pinned roots stay, and a root never moves.\<close>

lemma step_keeps_root:
  assumes "step S S'" and "system_ok S" and r: "map_of (roots (srv S)) ref = Some a"
    and "leased (srv S) a \<or> ref \<in> set (pinned (srv S))"
  shows "map_of (roots (srv S')) ref = Some a"
  using assms(1)
proof (cases rule: step.cases)
  case (insert_root t ref' path now renameOk r' s')
  have "server_ok (srv S)" "private_ok S" using assms(2) by (auto simp: system_ok_def)
  from fetch_insert_ok(6)[OF this(1) privateD(1,2)[OF this(2) insert_root(2)] insert_root(3) r assms(4)]
  show ?thesis using insert_root(1) by simp
qed (use r in \<open>auto simp: acquireCachedRoot_cases attachLease_cases\<close>)

lemma step_keeps_path:
  assumes "step S S'" and "system_ok S" and a: "a < length (heap (srv S))"
  shows "Path (heap (srv S') ! a) = Path (heap (srv S) ! a)"
  using assms(1)
proof (cases rule: step.cases)
  case (insert_root t ref' path now renameOk r' s')
  have "server_ok (srv S)" "private_ok S" using assms(2) by (auto simp: system_ok_def)
  from fetch_insert_ok(5)[OF this(1) privateD(1,2)[OF this(2) insert_root(2)] insert_root(3) a]
  show ?thesis using insert_root(1) by simp
qed (auto simp: acquireCachedRoot_cases attachLease_cases lease_root_def releaseFunc_def update_root_def
    nth_list_update' Let_def)

section \<open>Progress\<close>

text \<open>How many steps a call is away from its end, at most.\<close>

definition rank :: "phase \<Rightarrow> nat" where
  "rank ph = (case ph of Missed _ \<Rightarrow> 6 | WaitSem _ \<Rightarrow> 5 | Materializing _ \<Rightarrow> 4
     | Materialized _ _ \<Rightarrow> 3 | Fetched _ _ \<Rightarrow> 2 | Following _ _ \<Rightarrow> 2 | GotRoot _ _ \<Rightarrow> 1 | _ \<Rightarrow> 0)"

text \<open>One call's own step, seen from outside.\<close>

definition advances :: "system \<Rightarrow> nat \<Rightarrow> system \<Rightarrow> bool" where
  "advances S t S' \<longleftrightarrow> step S S' \<and> rank (phase S' t) < rank (phase S t)
     \<and> (\<forall>u. u \<noteq> t \<longrightarrow> phase S' u = phase S u)"

lemma advancesI:
  assumes "step S (set_phase t ph X)" and "phase X = phase S" and "rank ph < rank (phase S t)"
  shows "\<exists>u S'. advances S u S'"
  using assms by (auto simp: advances_def intro!: exI[of _ t] exI[of _ "set_phase t ph X"])

lemma rank_simps [simp]:
  "rank (Missed ref) = 6" "rank (WaitSem ref) = 5" "rank (Materializing ref) = 4"
  "rank (Materialized ref p) = 3" "rank (Fetched ref r) = 2" "rank (Following ref l) = 2"
  "rank (GotRoot ref a) = 1" "rank (Holding ref a) = 0" "rank (Failed e) = 0"
  "rank (flight_phase ref r) < 2"
  by (simp_all add: rank_def flight_phase_def split: sum.split)

lemma in_sem_advances:
  assumes "in_sem (phase S t)"
  shows "\<exists>u S'. advances S u S'"
proof (cases "phase S t")
  case (Materializing ref)
  then show ?thesis by (intro advancesI[OF step.materialize_fails[OF Materializing]]) auto
next
  case (Materialized ref p)
  obtain r s' where "fetch_insert 0 True ref t p (srv S) = (r, s')" by fastforce
  from advancesI[OF step.insert_root[OF Materialized this]] show ?thesis by (simp add: Materialized)
next
  case (Fetched ref r)
  then show ?thesis by (intro advancesI[OF step.publish[OF Fetched]]) auto
qed (use assms in simp_all)

lemma leader_advances:
  assumes "system_ok S" and "leads (phase S t) = Some ref"
  shows "\<exists>u S'. advances S u S'"
proof (cases "in_sem (phase S t)")
  case True
  then show ?thesis by (rule in_sem_advances)
next
  case False
  then have t: "phase S t = WaitSem ref" using assms(2) by (cases "phase S t") auto
  show ?thesis
  proof (cases "int (length (sem S)) < MaxConcurrentFetches (options (srv S))")
    case True
    from advancesI[OF step.enter[OF t True]] show ?thesis by (simp add: t)
  next
    case False
    have "1 \<le> MaxConcurrentFetches (options (srv S))"
      using assms(1) by (auto simp: system_ok_def server_ok_def options_ok_def)
    then obtain u where "u \<in> set (sem S)" using False by (cases "sem S") auto
    then have "in_sem (phase S u)" using assms(1) by (auto simp: system_ok_def sem_ok_def)
    then show ?thesis by (rule in_sem_advances)
  qed
qed

lemma unfinished_advances:
  assumes ok: "system_ok S" and "rank (phase S t) > 0"
  shows "\<exists>u S'. advances S u S'"
proof (cases "phase S t")
  case (Missed ref)
  show ?thesis
  proof (cases "map_of (inflight S) ref")
    case None
    from advancesI[OF step.lead[OF Missed None]] show ?thesis by (simp add: Missed)
  next
    case (Some l)
    from advancesI[OF step.join_flight[OF Missed Some]] show ?thesis by (simp add: Missed)
  qed
next
  case (Following ref l)
  show ?thesis
  proof (cases "results S l")
    case None
    then have "map_of (inflight S) ref = Some l"
      using followersD[OF _ Following] ok by (simp add: system_ok_def)
    then have "leads (phase S l) = Some ref" using ok by (simp add: system_ok_def leaders_ok_def)
    then show ?thesis by (rule leader_advances[OF ok])
  next
    case (Some r)
    from advancesI[OF step.follow[OF Following Some]] show ?thesis by (simp add: Following)
  qed
next
  case (GotRoot ref a)
  obtain b s' where at: "attachLease 0 ref a t (srv S) = (b, s')" by fastforce
  show ?thesis
  proof (cases b)
    case True
    from advancesI[OF step.attach[OF GotRoot at[unfolded eqTrueI[OF True]]]] show ?thesis
      by (simp add: GotRoot)
  next
    case False
    with at have "attachLease 0 ref a t (srv S) = (False, s')" by simp
    from advancesI[OF step.attach_fails[OF GotRoot this]] show ?thesis by (simp add: GotRoot)
  qed
qed (use assms leader_advances[OF ok, of t] in \<open>auto simp: rank_def\<close>)

section \<open>A run\<close>

text \<open>
  One call that misses the cache, leads a flight, materializes the image and attaches its lease;
  for the witnesses.
\<close>

definition run0 :: system where
  "run0 = \<lparr>srv = \<lparr>roots = [], heap = [], trashSeq = 0, options = demo_options, pinned = [''pin''],
       disk = [], reaping = [], rootsGauge = 0, evictionIdle = [], acquireTotal = []\<rparr>,
     inflight = [], results = (\<lambda>_. None), sem = [], phase = (\<lambda>_. NotStarted)\<rparr>"

definition run1 :: system where
  "run1 = set_phase 1 (Missed ''img'') (run0\<lparr>srv := srv run0\<rparr>)"

definition run3 :: system where
  "run3 = set_phase 1 (Materializing ''img'') (set_phase 1 (WaitSem ''img'') (run1\<lparr>inflight := [(''img'', 1)]\<rparr>)\<lparr>sem := [1]\<rparr>)"

definition run4 :: system where
  "run4 = set_phase 1 (Materialized ''img'' ''/r/x'') (run3\<lparr>srv := (srv run3)\<lparr>disk := [''/r/x'']\<rparr>\<rparr>)"

definition run5 :: system where
  "run5 = set_phase 1 (Fetched ''img'' (Inr 0)) (run4\<lparr>srv := snd (fetch_insert 10 True ''img'' 1 ''/r/x'' (srv run4))\<rparr>)"

definition run6 :: system where
  "run6 = set_phase 1 (GotRoot ''img'' 0) (run5\<lparr>sem := [], inflight := [], results := [1 \<mapsto> Inr 0]\<rparr>)"

definition run7 :: system where
  "run7 = set_phase 1 (Holding ''img'' 0) (run6\<lparr>srv := count_acquire ''miss'' (snd (attachLease 20 ''img'' 0 1 (srv run6)))\<rparr>)"

lemma run0_initial: "initial run0"
  unfolding initial_def
proof (intro conjI exI)
  show "NewServer [] demo_options = Inr (srv run0)" by (simp add: NewServer_def run0_def demo_options_def
      normalize_options_def Let_def)
qed (simp_all add: run0_def)

lemma run1_reachable: "reachable run1"
proof (rule next_step[OF start[OF run0_initial]])
  show "step run0 run1"
    unfolding run1_def
    by (rule step.miss[where now = 0]) (simp_all add: acquireCachedRoot_def run0_def)
qed

lemmas run_defs = run0_def run1_def run3_def run4_def run5_def run6_def run7_def set_phase_def
  demo_options_def

lemma run3_reachable: "reachable run3"
proof -
  let ?S = "set_phase 1 (WaitSem ''img'') (run1\<lparr>inflight := AList.update ''img'' 1 (inflight run1)\<rparr>)"
  have "step run1 ?S" by (rule step.lead) (simp_all add: run_defs)
  moreover have "step ?S (set_phase 1 (Materializing ''img'') (?S\<lparr>sem := 1 # sem ?S\<rparr>))"
    by (rule step.enter) (simp_all add: run_defs)
  moreover have "set_phase 1 (Materializing ''img'') (?S\<lparr>sem := 1 # sem ?S\<rparr>) = run3"
    by (simp add: run_defs)
  ultimately show ?thesis using run1_reachable by (metis next_step)
qed

lemma run4_reachable: "reachable run4"
proof (rule next_step[OF run3_reachable])
  have "step run3 (set_phase 1 (Materialized ''img'' ''/r/x'')
      (run3\<lparr>srv := (srv run3)\<lparr>disk := ''/r/x'' # disk (srv run3)\<rparr>\<rparr>))"
    by (rule step.materialize) (simp_all add: run_defs)
  then show "step run3 run4" by (simp add: run_defs)
qed

lemma run5_reachable: "reachable run5"
proof (rule next_step[OF run4_reachable])
  have "fetch_insert 10 True ''img'' 1 ''/r/x'' (srv run4)
      = (Inr 0, snd (fetch_insert 10 True ''img'' 1 ''/r/x'' (srv run4)))"
    by (simp add: run_defs fetch_insert_def)
  then show "step run4 run5"
    unfolding run5_def by (rule step.insert_root[rotated]) (simp add: run_defs)
qed

lemma run6_reachable: "reachable run6"
proof (rule next_step[OF run5_reachable])
  have "step run5 (set_phase 1 (flight_phase ''img'' (Inr 0))
      (run5\<lparr>srv := flight_count (Inr 0) (srv run5), sem := removeAll 1 (sem run5),
        inflight := AList.delete ''img'' (inflight run5), results := (results run5)(1 \<mapsto> Inr 0)\<rparr>))"
    by (rule step.publish) (simp add: run5_def)
  then show "step run5 run6"
    by (simp add: run_defs flight_phase_def flight_count_def AList.delete_eq)
qed

lemma run7_reachable: "reachable run7"
proof (rule next_step[OF run6_reachable])
  have "attachLease 20 ''img'' 0 1 (srv run6) = (True, snd (attachLease 20 ''img'' 0 1 (srv run6)))"
    by (simp add: run_defs fetch_insert_def attachLease_def)
  then show "step run6 run7"
    unfolding run7_def by (rule step.attach[rotated]) (simp add: run6_def)
qed

section \<open>Properties\<close>

text \<open>
  C3: A root that a call has acquired and not yet released is safe in every reachable state of the
  concurrent system: it is the cached root of its image, the call's lease is on it, and its
  directory exists and is not scheduled for deletion. A step of any call neither moves it nor
  takes it away.
\<close>

theorem acquired_root_is_safe:
  assumes "reachable S" and "phase S t = Holding ref a"
  shows "map_of (roots (srv S)) ref = Some a \<and> t \<in> set (leases (heap (srv S) ! a))
    \<and> Path (heap (srv S) ! a) \<in> set (disk (srv S)) \<and> Path (heap (srv S) ! a) \<notin> set (reaping (srv S))
    \<and> (\<forall>S'. step S S' \<longrightarrow> map_of (roots (srv S')) ref = Some a
         \<and> Path (heap (srv S') ! a) = Path (heap (srv S) ! a))"
proof -
  have ok: "system_ok S" using assms(1) by (rule reachable_ok)
  then have a: "a < length (heap (srv S))" "t \<in> set (leases (heap (srv S) ! a))"
    using leasesD(1)[OF _ assms(2)] by (auto simp: system_ok_def)
  then have r: "map_of (roots (srv S)) ref = Some a"
    using leasesD(2)[of S a t] ok assms(2) by (auto simp: system_ok_def may_own_def)
  have "live (srv S) (Path (heap (srv S) ! a))"
    using cache_ok_cached(2)[OF _ r] ok by (simp add: system_ok_def server_ok_def)
  moreover have "leased (srv S) a" using a(2) by (auto simp: leased_def)
  then have "map_of (roots (srv S')) ref = Some a" "Path (heap (srv S') ! a) = Path (heap (srv S) ! a)"
    if "step S S'" for S'
    using step_keeps_root[OF that ok r] step_keeps_path[OF that ok a(1)] by auto
  ultimately show ?thesis using r a(2) by (auto simp: live_def)
qed

definition run8 :: system where
  "run8 = set_phase 1 (Released ''img'' 0) (run7\<lparr>srv := releaseFunc 30 0 1 (srv run7)\<rparr>)"

lemma run8_step: "step run7 run8"
  unfolding run8_def by (rule step.release) (simp add: run7_def)

theorem acquired_root_is_safe_witness:
  "reachable run7 \<and> Path (heap (srv run7) ! 0) = ''/r/x'' \<and> ''/r/x'' \<in> set (disk (srv run7))
   \<and> step run7 run8 \<and> map_of (roots (srv run8)) ''img'' = Some 0 \<and> Path (heap (srv run8) ! 0) = ''/r/x''"
proof -
  have h: "phase run7 1 = Holding ''img'' 0" by (simp add: run7_def)
  have p: "Path (heap (srv run7) ! 0) = ''/r/x''"
    by (simp add: run_defs fetch_insert_def attachLease_def count_acquire_def update_root_def)
  show ?thesis
    using acquired_root_is_safe[OF run7_reachable h] run7_reachable run8_step p by metis
qed

text \<open>
  C20: In every reachable state the cache has at most \<open>MaxRoots\<close> roots, the gauge shows their
  number, at most \<open>MaxConcurrentFetches\<close> calls are between entering and leaving the semaphore,
  and at most one call leads a fetch of an image.
\<close>

theorem concurrency_limits:
  assumes "reachable S"
  shows "int (RootCount (srv S)) \<le> MaxRoots (options (srv S)) \<and> rootsGauge (srv S) = int (RootCount (srv S))
    \<and> int (card {t. in_sem (phase S t)}) \<le> MaxConcurrentFetches (options (srv S))
    \<and> (\<forall>ref t t'. leads (phase S t) = Some ref \<and> leads (phase S t') = Some ref \<longrightarrow> t = t')"
proof -
  have ok: "system_ok S" using assms by (rule reachable_ok)
  have "card {t. in_sem (phase S t)} = length (sem S)"
    using ok unfolding system_ok_def sem_ok_def by (metis distinct_card)
  moreover have "t = t'" if "leads (phase S t) = Some ref" "leads (phase S t') = Some ref" for t t' ref
    using ok that unfolding system_ok_def leaders_ok_def by (metis option.inject)
  ultimately show ?thesis
    using ok by (auto simp: system_ok_def server_ok_def sem_ok_def RootCount_def)
qed

theorem concurrency_limits_witness:
  "in_sem (phase run3 1) \<and> int (card {t. in_sem (phase run3 t)}) \<le> 1"
proof -
  have "MaxConcurrentFetches (options (srv run3)) = 1" "in_sem (phase run3 1)" by (simp_all add: run_defs)
  then show ?thesis using concurrency_limits[OF run3_reachable] by simp
qed

text \<open>
  C21: No lease leaks: whatever lease is on a root in a reachable state, the root is the cached one
  of an image, and the call that owns the lease either holds the root, so that its release function
  will drop the lease, or is about to.
\<close>

theorem no_leaked_lease:
  assumes "reachable S" and "a < length (heap (srv S))" and "t \<in> set (leases (heap (srv S) ! a))"
  shows "\<exists>ref. map_of (roots (srv S)) ref = Some a
    \<and> (phase S t = Holding ref a \<or> phase S t = GotRoot ref a \<or> phase S t = Fetched ref (Inr a))"
  using reachable_ok[OF assms(1)] leasesD(2)[OF _ assms(2,3)] by (auto simp: system_ok_def may_own_def)

theorem no_leaked_lease_witness:
  "\<exists>ref. map_of (roots (srv run5)) ref = Some 0
    \<and> (phase run5 1 = Holding ref 0 \<or> phase run5 1 = GotRoot ref 0 \<or> phase run5 1 = Fetched ref (Inr 0))"
  by (rule no_leaked_lease[OF run5_reachable]) (simp_all add: run_defs fetch_insert_def)

text \<open>
  C22: Once cached, a pinned image stays cached with the same root, and so does a leased one as
  long as it is leased, whatever step any call makes.
\<close>

theorem pinned_and_leased_stay:
  assumes "reachable S" and "step S S'" and "map_of (roots (srv S)) ref = Some a"
    and "ref \<in> set (pinned (srv S)) \<or> leases (heap (srv S) ! a) \<noteq> []"
  shows "map_of (roots (srv S')) ref = Some a \<and> pinned (srv S') = pinned (srv S)"
  using step_keeps_root[OF assms(2) reachable_ok[OF assms(1)] assms(3)] assms(4) step_server[OF assms(2)]
    reachable_ok[OF assms(1)]
  by (auto simp: leased_def system_ok_def)

theorem pinned_and_leased_stay_witness:
  "phase run8 1 = Released ''img'' 0 \<and> map_of (roots (srv run8)) ''img'' = Some 0"
proof -
  have "map_of (roots (srv run7)) ''img'' = Some 0" "leases (heap (srv run7) ! 0) \<noteq> []"
    by (simp_all add: run_defs fetch_insert_def attachLease_def count_acquire_def update_root_def
        touchLocked_def add_lease_def Let_def)
  then show ?thesis
    using pinned_and_leased_stay[OF run7_reachable run8_step, of "''img''" 0] by (simp add: run8_def)
qed

text \<open>
  C13: The concurrent calls never block each other for good: as long as some call is not finished,
  an unfinished call can make a step that brings it closer to its end and leaves the other calls
  where they are. In particular neither the semaphore nor waiting for another call's fetch can
  deadlock.
\<close>

theorem acquire_makes_progress:
  assumes "reachable S" and "rank (phase S t) > 0"
  shows "\<exists>u S'. step S S' \<and> rank (phase S' u) < rank (phase S u) \<and> (\<forall>v. v \<noteq> u \<longrightarrow> phase S' v = phase S v)"
  using unfinished_advances[OF reachable_ok[OF assms(1)] assms(2)] by (auto simp: advances_def)

theorem acquire_makes_progress_witness:
  "\<exists>u S'. step run3 S' \<and> rank (phase S' u) < rank (phase run3 u)"
proof -
  have "rank (phase run3 1) > 0" by (simp add: run3_def)
  from acquire_makes_progress[OF run3_reachable this] show ?thesis by blast
qed

end
