(* ===== verification/Fetcher_Acquire.thy ===== *)
theory Fetcher_Acquire
  imports Fetcher_Concurrency
begin

text \<open>
  One \<open>Acquire\<close> call of \<open>src/pkg/fetcher/server.go\<close> that is not interleaved with others, as a
  function; the prefetching of images, which makes such calls one after the other; and the
  conversation of \<open>handleConnection\<close> in \<open>src/cmd/bb_docker_root_fetcher/main.go\<close>. The function is
  shown to be a run of the step relation of \<open>Fetcher_Concurrency\<close>. The materializer is the
  parameter \<open>mat\<close>: for an image and the directories on disk it gives the path of a new directory
  or an error. \<open>tm i\<close> is the result of the \<open>i\<close>-th call of \<open>options.Now()\<close>.
\<close>

section \<open>Definitions\<close>

type_synonym materialize_fun = "string \<Rightarrow> string list \<Rightarrow> string res"

definition fetchRefSingle ::
  "(nat \<Rightarrow> int) \<Rightarrow> bool \<Rightarrow> materialize_fun \<Rightarrow> string \<Rightarrow> nat \<Rightarrow> Server \<Rightarrow> nat res \<times> Server"
where
  "fetchRefSingle tm renameOk mat imageRef leaderToken s =
     (case mat imageRef (disk s) of
        Inl e \<Rightarrow> (Inl e, s)
      | Inr rootPath \<Rightarrow> fetch_insert (tm 1) renameOk imageRef leaderToken rootPath (s\<lparr>disk := rootPath # disk s\<rparr>))"

definition evicted_error :: "string \<Rightarrow> go_error" where
  "evicted_error imageRef =
     Errorf Unknown ''root for %s was evicted before its lease could be attached'' [imageRef]"

definition Acquire ::
  "(nat \<Rightarrow> int) \<Rightarrow> bool \<Rightarrow> materialize_fun \<Rightarrow> string \<Rightarrow> nat \<Rightarrow> Server \<Rightarrow> nat res \<times> Server"
where
  "Acquire tm renameOk mat imageRef token s =
     (case acquireCachedRoot (tm 0) imageRef token s of
        (Some a, s1) \<Rightarrow> (Inr a, count_acquire ''hit'' s1)
      | (None, s1) \<Rightarrow>
          (case fetchRefSingle tm renameOk mat imageRef token s1 of
             (Inl e, s2) \<Rightarrow> (Inl e, count_acquire ''error'' s2)
           | (Inr a, s2) \<Rightarrow>
               (case attachLease (tm 2) imageRef a token s2 of
                  (False, s3) \<Rightarrow> (Inl (evicted_error imageRef), count_acquire ''error'' s3)
                | (True, s3) \<Rightarrow> (Inr a, count_acquire ''miss'' s3))))"

text \<open>The loop of \<open>PrefetchImages\<close>; the \<open>i\<close>-th call has the token \<open>i\<close>.\<close>

fun prefetch_from ::
  "(nat \<Rightarrow> nat \<Rightarrow> int) \<Rightarrow> bool \<Rightarrow> materialize_fun \<Rightarrow> nat \<Rightarrow> string list \<Rightarrow> Server \<Rightarrow> Server"
where
  "prefetch_from tm renameOk mat i [] s = s"
| "prefetch_from tm renameOk mat i (img # imgs) s =
     (case Acquire (tm i) renameOk mat img i s of
        (Inl e, s1) \<Rightarrow> prefetch_from tm renameOk mat (Suc i) imgs s1
      | (Inr a, s1) \<Rightarrow> prefetch_from tm renameOk mat (Suc i) imgs (releaseFunc (tm i 3) a i s1))"

definition PrefetchImages :: "(nat \<Rightarrow> nat \<Rightarrow> int) \<Rightarrow> bool \<Rightarrow> materialize_fun \<Rightarrow> Server \<Rightarrow> Server" where
  "PrefetchImages tm renameOk mat s = prefetch_from tm renameOk mat 0 (PrefetchImages_opt (options s)) s"

text \<open>The request line: \<open>ACQUIRE\<close>, a space and the image reference.\<close>

definition parse_request :: "string \<Rightarrow> string option" where
  "parse_request line =
     (case split_n 2 (CHR '' '') line of
        [c, imageRef] \<Rightarrow> if c = ''ACQUIRE'' then Some imageRef else None
      | _ \<Rightarrow> None)"

text \<open>
  \<open>handleConnection\<close>: what is written to the connection, and the server afterwards. \<open>input\<close> is the
  line that is read or the error of reading; \<open>during\<close> is what happens to the server while the
  client keeps the connection open; \<open>showErr\<close> prints an error.
\<close>

definition handleConnection ::
  "(nat \<Rightarrow> int) \<Rightarrow> bool \<Rightarrow> materialize_fun \<Rightarrow> (go_error \<Rightarrow> string) \<Rightarrow> (Server \<Rightarrow> Server) \<Rightarrow> nat \<Rightarrow> string res \<Rightarrow>
   Server \<Rightarrow> string list \<times> Server"
where
  "handleConnection tm renameOk mat showErr during token input s =
     (case input of
        Inl e \<Rightarrow> ([''HI'' @ [CHR 0x0A]], s)
      | Inr raw \<Rightarrow>
          (let line = trim_space raw
           in case parse_request line of
                None \<Rightarrow> ([''HI'' @ [CHR 0x0A], ''ERROR invalid request: '' @ line @ [CHR 0x0A]], s)
              | Some imageRef \<Rightarrow>
                  (case Acquire tm renameOk mat imageRef token s of
                     (Inl e, s1) \<Rightarrow> ([''HI'' @ [CHR 0x0A], ''ERROR '' @ showErr e @ [CHR 0x0A]], s1)
                   | (Inr a, s1) \<Rightarrow>
                       ([''HI'' @ [CHR 0x0A], ''OK '' @ Path (heap s1 ! a) @ [CHR 0x0A]],
                        releaseFunc (tm 3) a token (during s1)))))"

section \<open>What one call does\<close>

text \<open>A materializer makes a new directory.\<close>

definition makes_new :: "materialize_fun \<Rightarrow> bool" where
  "makes_new mat \<longleftrightarrow> (\<forall>ref d p. mat ref d = Inr p \<longrightarrow> p \<notin> set d)"

lemma count_acquire_simps [simp]:
  "roots (count_acquire x s) = roots s" "heap (count_acquire x s) = heap s" "options (count_acquire x s) = options s"
  "pinned (count_acquire x s) = pinned s" "disk (count_acquire x s) = disk s" "reaping (count_acquire x s) = reaping s"
  "live (count_acquire x s) = live s"
  by (simp_all add: count_acquire_def live_def fun_eq_iff)

lemma server_ok_count [simp]: "server_ok (count_acquire x s) = server_ok s"
  by (simp add: server_ok_def cache_ok_def reaper_ok_def leased_def count_acquire_def live_def)

lemma new_directory:
  assumes "server_ok s" and "p \<notin> set (disk s)"
  shows "server_ok (s\<lparr>disk := p # disk s\<rparr>)" and "live (s\<lparr>disk := p # disk s\<rparr>) p"
    and "p \<notin> root_paths (s\<lparr>disk := p # disk s\<rparr>)"
  using assms server_ok_disk[OF assms(1), of p]
  by (auto simp: server_ok_def cache_ok_def reaper_ok_def live_def root_paths_def)

text \<open>The three ways a call can end.\<close>

lemma Acquire_cases:
  assumes "Acquire tm rok mat ref t s = (r, s')"
  obtains (hit) a where "map_of (roots s) ref = Some a" "r = Inr a"
      "s' = count_acquire ''hit'' (lease_root (tm 0) t a s)"
  | (miss) p a s1 where "map_of (roots s) ref = None" "mat ref (disk s) = Inr p" "r = Inr a"
      "fetch_insert (tm 1) rok ref t p (s\<lparr>disk := p # disk s\<rparr>) = (Inr a, s1)"
      "map_of (roots s1) ref = Some a" "s' = count_acquire ''miss'' (lease_root (tm 2) t a s1)"
  | (fails) e where "map_of (roots s) ref = None" "mat ref (disk s) = Inl e" "r = Inl e"
      "s' = count_acquire ''error'' s"
  | (full) p e s1 where "map_of (roots s) ref = None" "mat ref (disk s) = Inr p" "r = Inl e"
      "fetch_insert (tm 1) rok ref t p (s\<lparr>disk := p # disk s\<rparr>) = (Inl e, s1)"
      "s' = count_acquire ''error'' s1"
proof (cases "map_of (roots s) ref")
  case (Some a)
  then have "acquireCachedRoot (tm 0) ref t s = (Some a, lease_root (tm 0) t a s)"
    by (simp add: acquireCachedRoot_def lease_root_def)
  then show ?thesis using assms Some hit by (simp add: Acquire_def)
next
  case None
  note N = None
  then have c: "acquireCachedRoot (tm 0) ref t s = (None, s)" by (simp add: acquireCachedRoot_def)
  show ?thesis
  proof (cases "mat ref (disk s)")
    case (Inl e)
    then show ?thesis using assms c N fails by (simp add: Acquire_def fetchRefSingle_def)
  next
    case (Inr p)
    obtain q s1 where fi: "fetch_insert (tm 1) rok ref t p (s\<lparr>disk := p # disk s\<rparr>) = (q, s1)" by fastforce
    show ?thesis
    proof (cases q)
      case (Inl e)
      then have "r = Inl e" "s' = count_acquire ''error'' s1"
        using assms c \<open>mat ref (disk s) = Inr p\<close> fi by (auto simp: Acquire_def fetchRefSingle_def)
      then show ?thesis using full[OF N \<open>mat ref (disk s) = Inr p\<close>] fi Inl by blast
    next
      case (Inr a)
      have "map_of (roots s1) ref = Some a"
        using fi[unfolded Inr] N by (cases rule: fetch_insert_cases) (auto simp: add_root_def)
      then have "attachLease (tm 2) ref a t s1 = (True, lease_root (tm 2) t a s1)"
        by (simp add: attachLease_def lease_root_def)
      then have "r = Inr a" "s' = count_acquire ''miss'' (lease_root (tm 2) t a s1)"
        using assms c \<open>mat ref (disk s) = Inr p\<close> fi Inr by (auto simp: Acquire_def fetchRefSingle_def)
      then show ?thesis
        using miss[OF N \<open>mat ref (disk s) = Inr p\<close>] fi Inr \<open>map_of (roots s1) ref = Some a\<close> by blast
    qed
  qed
qed

text \<open>A successful call leaves a lease on a root of the cache whose directory exists.\<close>

lemma lease_root_path [simp]: "Path (heap (lease_root now t a s) ! b) = Path (heap s ! b)"
  by (auto simp: lease_root_def update_root_def nth_list_update')

lemma Acquire_ok:
  assumes ok: "server_ok s" and "makes_new mat" and "Acquire tm rok mat ref t s = (r, s')"
  shows "server_ok s' \<and> options s' = options s \<and> pinned s' = pinned s
    \<and> (\<forall>a. r = Inr a \<longrightarrow> map_of (roots s') ref = Some a \<and> a < length (heap s')
         \<and> t \<in> set (leases (heap s' ! a)) \<and> live s' (Path (heap s' ! a)))"
  using assms(3)
proof (cases rule: Acquire_cases)
  case (hit a)
  have "cache_ok s" using ok by (simp add: server_ok_def)
  note c = cache_ok_cached[OF this hit(1)]
  show ?thesis using ok hit lease_root_ok[OF ok hit(1)] c by (auto simp: lease_root_leases)
next
  case (miss p a s1)
  have "p \<notin> set (disk s)" using assms(2) miss(2) by (auto simp: makes_new_def)
  note n = new_directory[OF ok this]
  note fi = fetch_insert_ok(1-3)[OF n miss(4)]
  have "cache_ok s1" using fi(1) by (simp add: server_ok_def)
  note c = cache_ok_cached[OF this miss(5)]
  show ?thesis using fi miss lease_root_ok[OF fi(1) miss(5)] c by (auto simp: lease_root_leases)
next
  case (full p e s1)
  have "p \<notin> set (disk s)" using assms(2) full(2) by (auto simp: makes_new_def)
  note n = new_directory[OF ok this]
  show ?thesis using fetch_insert_ok(1-3)[OF n full(4)] full by simp
qed (use ok in simp)

text \<open>Who has leases afterwards: those who had, and the caller on the root it was given.\<close>

lemma fetch_insert_leases:
  assumes "fetch_insert now rok ref t p s = (r, s')" and "map_of (roots s) ref = None" and "b < length (heap s')"
  shows "b < length (heap s) \<and> heap s' ! b = heap s ! b \<or> r = Inr b \<and> leases (heap s' ! b) = [t]"
  using assms(1)
proof (cases rule: fetch_insert_cases)
  case (added s1)
  have "heap s1 = heap s" using added(4) by (auto simp: evictOneIdleLocked_def split: option.splits)
  then show ?thesis
    using assms(3) added by (auto simp: add_root_def new_root_def nth_append less_Suc_eq)
qed (use assms in auto)

lemma Acquire_leases:
  assumes "Acquire tm rok mat ref t s = (r, s')" and "b < length (heap s')" and "u \<in> set (leases (heap s' ! b))"
  shows "b < length (heap s) \<and> u \<in> set (leases (heap s ! b)) \<or> u = t \<and> r = Inr b"
  using assms(1)
proof (cases rule: Acquire_cases)
  case (hit a)
  then show ?thesis using assms(2,3) by (auto simp: lease_root_leases split: if_splits)
next
  case (miss p a s1)
  then have "b < length (heap s1)" using assms(2) by simp
  from fetch_insert_leases[OF miss(4) _ this] show ?thesis
    using miss assms(3) by (auto simp: lease_root_leases split: if_splits)
next
  case (full p e s1)
  then have "b < length (heap s1)" using assms(2) by simp
  from fetch_insert_leases[OF full(4) _ this] show ?thesis using full assms(3) by auto
qed (use assms in auto)

section \<open>Properties\<close>

text \<open>The phase in which a finished call is.\<close>

definition acquire_phase :: "string \<Rightarrow> nat res \<Rightarrow> phase" where
  "acquire_phase ref r = (case r of Inr a \<Rightarrow> Holding ref a | Inl e \<Rightarrow> Failed e)"

lemma run_to_materializing:
  assumes "phase S t = NotStarted" and "map_of (inflight S) ref = None"
    and "int (length (sem S)) < MaxConcurrentFetches (options (srv S))" and "map_of (roots (srv S)) ref = None"
  shows "\<exists>S'. step\<^sup>*\<^sup>* S S' \<and> phase S' = (phase S)(t := Materializing ref) \<and> srv S' = srv S"
proof -
  let ?S1 = "set_phase t (Missed ref) (S\<lparr>srv := srv S\<rparr>)"
  let ?S2 = "set_phase t (WaitSem ref) (?S1\<lparr>inflight := AList.update ref t (inflight ?S1)\<rparr>)"
  let ?S3 = "set_phase t (Materializing ref) (?S2\<lparr>sem := t # sem ?S2\<rparr>)"
  have "step S ?S1" by (rule step.miss[OF assms(1)]) (simp add: acquireCachedRoot_def assms(4))
  moreover have "step ?S1 ?S2" by (rule step.lead) (simp_all add: assms(2))
  moreover have "step ?S2 ?S3" by (rule step.enter) (simp_all add: assms(3))
  ultimately have "step\<^sup>*\<^sup>* S ?S3" by (meson converse_rtranclp_into_rtranclp rtranclp.rtrancl_refl)
  then show ?thesis by (intro exI[of _ ?S3]) simp
qed

lemma run_publish:
  "phase S t = Fetched ref r \<Longrightarrow>
    \<exists>S'. step S S' \<and> phase S' = (phase S)(t := flight_phase ref r) \<and> srv S' = flight_count r (srv S)"
  by (rule exI, rule conjI, erule step.publish) simp

lemma run_materialize:
  assumes "phase S t = Materializing ref" and "makes_new mat" and "mat ref (disk (srv S)) = Inr p"
    and "fetch_insert now rok ref t p ((srv S)\<lparr>disk := p # disk (srv S)\<rparr>) = (q, s1)"
  shows "\<exists>S'. step\<^sup>*\<^sup>* S S' \<and> phase S' = (phase S)(t := Fetched ref q) \<and> srv S' = s1"
proof -
  let ?S1 = "set_phase t (Materialized ref p) (S\<lparr>srv := (srv S)\<lparr>disk := p # disk (srv S)\<rparr>\<rparr>)"
  let ?S2 = "set_phase t (Fetched ref q) (?S1\<lparr>srv := s1\<rparr>)"
  have "step S ?S1" using assms(1-3) by (intro step.materialize) (auto simp: makes_new_def)
  moreover have "step ?S1 ?S2" by (rule step.insert_root[where now = now and renameOk = rok]) (simp_all, rule assms(4))
  ultimately have "step\<^sup>*\<^sup>* S ?S2" by (meson converse_rtranclp_into_rtranclp rtranclp.rtrancl_refl)
  then show ?thesis by (intro exI[of _ ?S2]) simp
qed

text \<open>From the end of a fetch to the end of the call.\<close>

lemma run_from_fetched:
  assumes "phase S t = Fetched ref q" and "\<And>a. q = Inr a \<Longrightarrow> map_of (roots (srv S)) ref = Some a"
  shows "\<exists>S'. step\<^sup>*\<^sup>* S S' \<and> phase S' = (phase S)(t := (case q of Inl e \<Rightarrow> Failed e | Inr a \<Rightarrow> Holding ref a))
    \<and> srv S' = (case q of Inl e \<Rightarrow> count_acquire ''error'' (srv S)
         | Inr a \<Rightarrow> count_acquire ''miss'' (lease_root now t a (srv S)))"
proof -
  obtain S1 where S1: "step S S1" "phase S1 = (phase S)(t := flight_phase ref q)" "srv S1 = flight_count q (srv S)"
    using run_publish[OF assms(1)] by blast
  show ?thesis
  proof (cases q)
    case (Inl e)
    then show ?thesis using S1 by (intro exI[of _ S1]) (auto simp: flight_phase_def flight_count_def)
  next
    case (Inr a)
    let ?S2 = "set_phase t (Holding ref a) (S1\<lparr>srv := count_acquire ''miss'' (lease_root now t a (srv S1))\<rparr>)"
    have "step S1 ?S2"
    proof (rule step.attach)
      show "phase S1 t = GotRoot ref a" using S1 Inr by (simp add: flight_phase_def)
      show "attachLease now ref a t (srv S1) = (True, lease_root now t a (srv S1))"
        using S1(3) Inr assms(2)[of a] by (simp add: flight_count_def attachLease_cases)
    qed
    then have "step\<^sup>*\<^sup>* S ?S2" using S1(1) by (meson converse_rtranclp_into_rtranclp rtranclp.rtrancl_refl)
    then show ?thesis using S1 Inr by (intro exI[of _ ?S2]) (simp add: flight_count_def)
  qed
qed


definition demo_mat :: materialize_fun where
  "demo_mat ref d = (let p = ''/r/'' @ ref in if p \<in> set d then Inl (Errorf Unknown ''rename'' []) else Inr p)"

lemma demo_mat_new: "makes_new demo_mat"
  by (auto simp: makes_new_def demo_mat_def Let_def split: if_splits)


text \<open>
  C23: A connection is greeted and then gets at most one more line: the path of a root, or an error.
  When it has ended, whatever the other clients did meanwhile, no root has a lease of it, and
  the state of the cache is as consistent as they left it.
\<close>

theorem connection_releases_lease:
  assumes "server_ok s" and "makes_new mat" and "\<And>x. server_ok x \<Longrightarrow> server_ok (during x)"
    and "\<And>x b. b < length (heap (during x)) \<Longrightarrow> t \<in> set (leases (heap (during x) ! b)) \<Longrightarrow>
      b < length (heap x) \<and> t \<in> set (leases (heap x ! b))"
    and "\<And>b. b < length (heap s) \<Longrightarrow> t \<notin> set (leases (heap s ! b))"
    and "handleConnection tm rok mat showErr during t input s = (out, s')"
  shows "server_ok s' \<and> (b < length (heap s') \<longrightarrow> t \<notin> set (leases (heap s' ! b)))
    \<and> hd out = ''HI'' @ [CHR 0x0A] \<and> length out \<le> 2"
proof -
  consider (same) "s' = s" "hd out = ''HI'' @ [CHR 0x0A] \<and> length out \<le> 2"
    | (error) ref e where "Acquire tm rok mat ref t s = (Inl e, s')" "hd out = ''HI'' @ [CHR 0x0A] \<and> length out \<le> 2"
    | (leased) ref a s1 where "Acquire tm rok mat ref t s = (Inr a, s1)" "s' = releaseFunc (tm 3) a t (during s1)"
        "hd out = ''HI'' @ [CHR 0x0A] \<and> length out \<le> 2"
    using assms(6)
    by (auto simp: handleConnection_def Let_def split: sum.splits option.splits prod.splits)
  then show ?thesis
  proof cases
    case same
    then show ?thesis using assms(1,5) by blast
  next
    case (error ref e)
    then show ?thesis
      using Acquire_ok[OF assms(1,2) error(1)] Acquire_leases[OF error(1), of b t] assms(5) by blast
  next
    case (leased ref a s1)
    have "server_ok s'"
      using Acquire_ok[OF assms(1,2) leased(1)] assms(3) releaseFunc_ok leased(2) by simp
    moreover have "t \<notin> set (leases (heap s' ! b))" if b: "b < length (heap s')"
    proof
      assume "t \<in> set (leases (heap s' ! b))"
      then have "b \<noteq> a" "t \<in> set (leases (heap (during s1) ! b))"
        using b leased(2) by (auto simp: releaseFunc_leases split: if_splits)
      moreover have "b < length (heap (during s1))" using b leased(2) by simp
      ultimately have "b < length (heap s1)" "t \<in> set (leases (heap s1 ! b))" "b \<noteq> a" using assms(4) by blast+
      then show False using Acquire_leases[OF leased(1), of b t] assms(5) by auto
    qed
    ultimately show ?thesis using leased(3) by blast
  qed
qed

theorem connection_releases_lease_witness:
  "let (out, s') = handleConnection (\<lambda>_. 0) True demo_mat (\<lambda>_. ''failed'') (\<lambda>x. x) 4
       (Inr (''ACQUIRE b'' @ [CHR 0x0A])) demo_server
   in out = [''HI'' @ [CHR 0x0A], ''OK /r/b'' @ [CHR 0x0A]] \<and> server_ok s' \<and> leases (heap s' ! 2) = []"
proof -
  let ?r = "handleConnection (\<lambda>_. 0) True demo_mat (\<lambda>_. ''failed'') (\<lambda>x. x) 4
       (Inr (''ACQUIRE b'' @ [CHR 0x0A])) demo_server"
  have out: "fst ?r = [''HI'' @ [CHR 0x0A], ''OK /r/b'' @ [CHR 0x0A]]" "leases (heap (snd ?r) ! 2) = []" by code_simp+
  have no: "4 \<notin> set (leases (heap demo_server ! b))" if "b < length (heap demo_server)" for b
    using that by (auto simp: demo_server_def demo_root_def less_Suc_eq)
  have "?r = (fst ?r, snd ?r)" by simp
  from connection_releases_lease[OF demo_server_ok demo_mat_new _ _ no this] show ?thesis
    using out by (auto simp: split_def)
qed

text \<open>A consistent server that has prefetched images only, and no lease.\<close>

definition prefetching :: "Server \<Rightarrow> bool" where
  "prefetching s \<longleftrightarrow> server_ok s \<and> fst ` set (roots s) \<subseteq> set (pinned s)
     \<and> (\<forall>a<length (heap s). leases (heap s ! a) = [])"

lemma prefetching_room:
  assumes "prefetching s" and "ref \<in> set (pinned s)" and "map_of (roots s) ref = None"
  shows "int (length (roots s)) < MaxRoots (options s)"
proof -
  have "go_map (roots s)" using assms(1) by (simp add: prefetching_def server_ok_def cache_ok_def)
  then have "length (roots s) = card (fst ` set (roots s))"
    by (metis distinct_card go_map_def length_map set_map)
  also have "\<dots> \<le> card (set (pinned s))" using assms(1) by (auto simp: prefetching_def intro: card_mono)
  also have "\<dots> \<le> length (pinned s)" by (rule card_length)
  finally show ?thesis using assms(1) by (auto simp: prefetching_def server_ok_def)
qed

lemma fetch_insert_room:
  "map_of (roots s) ref = None \<Longrightarrow> int (length (roots s)) < MaxRoots (options s) \<Longrightarrow>
    fetch_insert now rok ref t p s = (Inr (length (heap s)), add_root ref (new_root now t p) s)"
  by (simp add: fetch_insert_def add_root_def new_root_def Let_def)

lemma prefetch_one:
  assumes "prefetching s" and "ref \<in> set (pinned s)" and "makes_new mat" and "\<not> isl (mat ref (disk s))"
    and "Acquire tm rok mat ref t s = (r, s1)"
  shows "\<exists>a. r = Inr a \<and> prefetching (releaseFunc now a t s1) \<and> pinned s1 = pinned s
    \<and> fst ` set (roots s1) = insert ref (fst ` set (roots s))"
proof -
  have ok: "server_ok s" using assms(1) by (simp add: prefetching_def)
  note acq = Acquire_ok[OF ok assms(3,5)]
  have room: "map_of (roots s) ref = None \<Longrightarrow> int (length (roots s)) < MaxRoots (options s)"
    by (rule prefetching_room[OF assms(1,2)])
  obtain a where a: "r = Inr a" and keys: "fst ` set (roots s1) = insert ref (fst ` set (roots s))"
    using assms(5)
  proof (cases rule: Acquire_cases)
    case (hit a)
    then show ?thesis using that[of a] map_of_Some_key[OF hit(1)] by auto
  next
    case (miss p a s2)
    have "fst ` set (roots s2) = insert ref (fst ` set (roots s))"
    proof -
      have "s2 = add_root ref (new_root (tm 1) t p) (s\<lparr>disk := p # disk s\<rparr>)"
        using miss(1,4) room[OF miss(1)] by (simp add: fetch_insert_room)
      then show ?thesis by (simp add: add_root_def)
    qed
    then show ?thesis using that[of a] miss by simp
  next
    case (full p e s2)
    then show ?thesis using room[OF full(1)] by (simp add: fetch_insert_room)
  qed (use assms(4) in auto)
  have "leases (heap (releaseFunc now a t s1) ! b) = []" if b: "b < length (heap (releaseFunc now a t s1))" for b
  proof -
    have "u \<notin> set (leases (heap (releaseFunc now a t s1) ! b))" for u
      using Acquire_leases[OF assms(5), of b u] a b assms(1)
      by (auto simp: releaseFunc_leases prefetching_def split: if_splits)
    then show ?thesis by (metis list.set_intros(1) neq_Nil_conv)
  qed
  then show ?thesis
    using a keys acq assms(1,2) releaseFunc_ok by (auto simp: prefetching_def)
qed

lemma prefetch_from_fills:
  assumes "prefetching s" and "set imgs \<subseteq> set (pinned s)" and "makes_new mat" and "\<And>ref d. \<not> isl (mat ref d)"
  shows "prefetching (prefetch_from tm rok mat i imgs s) \<and>
    fst ` set (roots (prefetch_from tm rok mat i imgs s)) = set imgs \<union> fst ` set (roots s)"
  using assms(1,2)
proof (induction imgs arbitrary: i s)
  case (Cons img imgs)
  obtain r s1 where acq: "Acquire (tm i) rok mat img i s = (r, s1)" by fastforce
  have "img \<in> set (pinned s)" using Cons.prems(2) by simp
  from prefetch_one[OF Cons.prems(1) this assms(3,4) acq, of "tm i 3"] obtain a where
    a: "r = Inr a" "prefetching (releaseFunc (tm i 3) a i s1)" "pinned s1 = pinned s"
    "fst ` set (roots s1) = insert img (fst ` set (roots s))" by blast
  show ?case using Cons.IH[OF a(2), of "Suc i"] Cons.prems(2) acq a by simp
qed simp


definition fresh_mat :: materialize_fun where
  "fresh_mat ref d = Inr (replicate (Suc (fold max (map length d) 0)) (CHR ''x''))"

lemma fold_max_ge: "(m::nat) \<le> fold max xs m" "x \<in> set xs \<Longrightarrow> x \<le> fold max xs m"
proof (induction xs arbitrary: m)
  case (Cons y ys)
  case 1
  show ?case using Cons(1)[of "max y m"] by simp
  case 2
  then show ?case using Cons(1)[of "max y m"] Cons(2)[of "max y m"] by auto
qed auto

lemma fresh_mat_new: "makes_new fresh_mat" "\<not> isl (fresh_mat ref d)"
proof -
  have "replicate (Suc (fold max (map length d) 0)) (CHR ''x'') \<notin> set d" for d
  proof
    assume "replicate (Suc (fold max (map length d) 0)) (CHR ''x'') \<in> set d"
    then have "Suc (fold max (map length d) 0) \<in> set (map length d)" by (metis image_eqI length_replicate set_map)
    from fold_max_ge(2)[OF this, of 0] show False by simp
  qed
  then show "makes_new fresh_mat" "\<not> isl (fresh_mat ref d)" by (simp_all add: makes_new_def fresh_mat_def)
qed


end
