(* ===== verification/Host_FS.thy ===== *)
theory Host_FS
  imports Go_Strings
begin

text \<open>
  The part of package \<open>os\<close> that the commands use on the files of a machine. A name leads to an
  inode, an inode has a content, and several names may lead to the same inode (hard links), so
  that writing through one name is seen through the others. \<open>fs_deny\<close> are the errors the
  operating system has reasons of its own for (permissions, a full disk); a theorem that does
  not restrict it holds for every such behaviour. Symbolic links are not modelled: a path is the
  one that resolving has arrived at.
\<close>

section \<open>Definitions\<close>

record host_fs =
  fs_names :: "(string, nat) gomap"
  fs_data :: "string list"
  fs_dirs :: "string list"
  fs_deny :: "string \<Rightarrow> go_error option"

definition ENOENT :: "string \<Rightarrow> go_error" where
  "ENOENT p = Errorf Unknown ''no such file or directory'' [p]"

definition EEXIST :: "string \<Rightarrow> go_error" where
  "EEXIST p = Errorf Unknown ''file exists'' [p]"

definition EISDIR :: "string \<Rightarrow> go_error" where
  "EISDIR p = Errorf Unknown ''is a directory'' [p]"

definition ENOTDIR :: "string \<Rightarrow> go_error" where
  "ENOTDIR p = Errorf Unknown ''not a directory'' [p]"

definition ENOTEMPTY :: "string \<Rightarrow> go_error" where
  "ENOTEMPTY p = Errorf Unknown ''directory not empty'' [p]"

text \<open>\<open>os.IsNotExist\<close> and \<open>os.IsExist\<close> do not look into wrapped errors.\<close>

definition IsNotExist :: "go_error \<Rightarrow> bool" where
  "IsNotExist e \<longleftrightarrow> (case e of Errorf c m args \<Rightarrow> m = ''no such file or directory'' | _ \<Rightarrow> False)"

definition IsExist :: "go_error \<Rightarrow> bool" where
  "IsExist e \<longleftrightarrow> (case e of Errorf c m args \<Rightarrow> m = ''file exists'' | _ \<Rightarrow> False)"

text \<open>A path and all directories above it.\<close>

definition path_prefixes :: "string \<Rightarrow> string list" where
  "path_prefixes p =
     (let comps = split_on slash p in map (\<lambda>i. let q = join ''/'' (take (Suc i) comps) in if q = '''' then ''/'' else q)
        [0..<length comps])"

text \<open>A call that the operating system may refuse.\<close>

definition allowed :: "string \<Rightarrow> (host_fs, 'a) io \<Rightarrow> (host_fs, 'a) io" where
  "allowed p m fs = (case fs_deny fs p of Some e \<Rightarrow> (Inl e, fs) | None \<Rightarrow> m fs)"

definition content :: "host_fs \<Rightarrow> string \<Rightarrow> string option" where
  "content fs p = map_option ((!) (fs_data fs)) (map_of (fs_names fs) p)"

definition ReadFile :: "string \<Rightarrow> (host_fs, string) io" where
  "ReadFile p = allowed p (\<lambda>fs. (case content fs p of Some d \<Rightarrow> Inr d | None \<Rightarrow> Inl (ENOENT p), fs))"

definition Stat :: "string \<Rightarrow> (host_fs, unit) io" where
  "Stat p = allowed p (\<lambda>fs.
     (if map_of (fs_names fs) p \<noteq> None \<or> p \<in> set (fs_dirs fs) then Inr () else Inl (ENOENT p), fs))"

definition create_file :: "string \<Rightarrow> string \<Rightarrow> (host_fs, unit) io" where
  "create_file p d fs =
     (if p \<in> set (fs_dirs fs) then (Inl (EISDIR p), fs)
      else if path_dir p \<in> set (fs_dirs fs)
      then (Inr (), fs\<lparr>fs_names := AList.update p (length (fs_data fs)) (fs_names fs), fs_data := fs_data fs @ [d]\<rparr>)
      else (Inl (ENOENT p), fs))"

text \<open>\<open>os.WriteFile\<close> truncates an existing file and writes into the same inode.\<close>

definition WriteFile :: "string \<Rightarrow> string \<Rightarrow> (host_fs, unit) io" where
  "WriteFile p d = allowed p (\<lambda>fs.
     (case map_of (fs_names fs) p of
        Some i \<Rightarrow> (Inr (), fs\<lparr>fs_data := (fs_data fs)[i := d]\<rparr>)
      | None \<Rightarrow> create_file p d fs))"

text \<open>\<open>os.OpenFile\<close> with \<open>O_APPEND|O_CREATE|O_WRONLY\<close>, one \<open>WriteString\<close> and \<open>Close\<close>.\<close>

definition AppendFile :: "string \<Rightarrow> string \<Rightarrow> (host_fs, unit) io" where
  "AppendFile p d = allowed p (\<lambda>fs.
     (case map_of (fs_names fs) p of
        Some i \<Rightarrow> (Inr (), fs\<lparr>fs_data := (fs_data fs)[i := fs_data fs ! i @ d]\<rparr>)
      | None \<Rightarrow> create_file p d fs))"

text \<open>\<open>os.Remove\<close> removes a name, or an empty directory.\<close>

definition Remove :: "string \<Rightarrow> (host_fs, unit) io" where
  "Remove p = allowed p (\<lambda>fs.
     if map_of (fs_names fs) p \<noteq> None then (Inr (), fs\<lparr>fs_names := AList.delete p (fs_names fs)\<rparr>)
     else if p \<in> set (fs_dirs fs)
       then (if list_ex (\<lambda>q. has_prefix q (p @ ''/'')) (map fst (fs_names fs) @ fs_dirs fs)
             then (Inl (ENOTEMPTY p), fs)
             else (Inr (), fs\<lparr>fs_dirs := removeAll p (fs_dirs fs)\<rparr>))
     else (Inl (ENOENT p), fs))"

definition MkdirAll :: "string \<Rightarrow> (host_fs, unit) io" where
  "MkdirAll p = allowed p (\<lambda>fs.
     (case filter (\<lambda>q. map_of (fs_names fs) q \<noteq> None) (path_prefixes p) of
        q # _ \<Rightarrow> (Inl (ENOTDIR q), fs)
      | [] \<Rightarrow> (Inr (), fs\<lparr>fs_dirs := fold List.insert (path_prefixes p) (fs_dirs fs)\<rparr>)))"

section \<open>What the calls keep\<close>

text \<open>Names lead to inodes, and a file that exists is never reported as missing.\<close>

definition fs_ok :: "host_fs \<Rightarrow> bool" where
  "fs_ok fs \<longleftrightarrow> go_map (fs_names fs) \<and> (\<forall>x\<in>set (fs_names fs). snd x < length (fs_data fs))
     \<and> (\<forall>p e. fs_deny fs p = Some e \<longrightarrow> \<not> IsNotExist e)"

lemma fs_ok_inode: "fs_ok fs \<Longrightarrow> map_of (fs_names fs) p = Some i \<Longrightarrow> i < length (fs_data fs)"
  unfolding fs_ok_def by (metis map_of_SomeD snd_conv)

lemma allowed_InrE:
  assumes "allowed p m fs = (Inr x, fs')"
  obtains "fs_deny fs p = None" and "m fs = (Inr x, fs')"
  using assms by (auto simp: allowed_def split: option.splits)

lemma allowed_state: "snd (allowed p m fs) = fs \<or> snd (allowed p m fs) = snd (m fs)"
  by (auto simp: allowed_def split: option.splits)

lemma create_file_ok: "fs_ok fs \<Longrightarrow> fs_ok (snd (create_file p d fs))"
  by (auto simp: create_file_def fs_ok_def in_set_update less_Suc_eq split: if_splits)

lemma update_data_ok: "fs_ok (fs\<lparr>fs_data := (fs_data fs)[i := d]\<rparr>) = fs_ok fs"
  by (simp add: fs_ok_def)

lemma file_calls_ok:
  assumes "fs_ok fs"
  shows "fs_ok (snd (ReadFile p fs))" "fs_ok (snd (Stat p fs))" "fs_ok (snd (WriteFile p d fs))"
    "fs_ok (snd (AppendFile p d fs))" "fs_ok (snd (Remove p fs))" "fs_ok (snd (MkdirAll p fs))"
  using assms create_file_ok[OF assms, of p d]
  by (auto simp: ReadFile_def Stat_def WriteFile_def AppendFile_def Remove_def MkdirAll_def allowed_def
      update_data_ok fs_ok_def in_set_delete split: option.splits list.splits)

lemma create_file_content:
  "create_file p d fs = (Inr (), fs') \<Longrightarrow> fs_ok fs \<Longrightarrow> content fs' q = (if q = p then Some d else content fs q)"
  using fs_ok_inode[of fs q]
  by (cases "map_of (fs_names fs) q") (auto simp: create_file_def content_def nth_append split: if_splits)

lemma ReadFile_content: "ReadFile p fs = (Inr d, fs') \<longleftrightarrow> fs_deny fs p = None \<and> content fs p = Some d \<and> fs' = fs"
  by (auto simp: ReadFile_def allowed_def split: option.splits)

text \<open>After its name was removed, a file is written to a new inode.\<close>

lemma Remove_content:
  assumes "Remove p fs = (Inr (), fs')"
  shows "content fs' q = (if q = p then None else content fs q)" and "fs_data fs' = fs_data fs"
  using assms
  by (auto simp: Remove_def allowed_def content_def split: option.splits if_splits)

lemma Remove_error_state: "Remove p fs = (Inl e, fs') \<Longrightarrow> fs' = fs"
  by (auto simp: Remove_def allowed_def split: option.splits if_splits)

lemma Remove_not_exist:
  assumes "Remove p fs = (Inl e, fs')" and "IsNotExist e" and "fs_ok fs"
  shows "content fs p = None"
  using assms
  by (auto simp: Remove_def allowed_def content_def fs_ok_def IsNotExist_def ENOTEMPTY_def split: option.splits if_splits)

lemma MkdirAll_content: "content (snd (MkdirAll p fs)) = content fs"
  by (auto simp: MkdirAll_def allowed_def content_def fun_eq_iff split: option.splits list.splits)

lemma WriteFile_new:
  assumes "WriteFile p d fs = (Inr (), fs')" and "fs_ok fs" and "content fs p = None"
  shows "content fs' q = (if q = p then Some d else content fs q)"
proof -
  have "map_of (fs_names fs) p = None" using assms(3) by (simp add: content_def)
  then have "create_file p d fs = (Inr (), fs')"
    using assms(1) by (auto simp: WriteFile_def elim!: allowed_InrE)
  then show ?thesis using create_file_content assms(2) by blast
qed

text \<open>Writing a file is seen through every name of its inode.\<close>

lemma AppendFile_content:
  assumes "AppendFile p d fs = (Inr (), fs')" and "fs_ok fs"
  shows "content fs' p = Some ((case content fs p of Some old \<Rightarrow> old | None \<Rightarrow> '''') @ d)"
proof (cases "map_of (fs_names fs) p")
  case None
  then have "create_file p d fs = (Inr (), fs')" "content fs p = None"
    using assms(1) by (auto simp: AppendFile_def content_def elim!: allowed_InrE)
  then show ?thesis using create_file_content assms(2) by simp
next
  case (Some i)
  then show ?thesis
    using assms fs_ok_inode[OF assms(2) Some]
    by (auto simp: AppendFile_def content_def elim!: allowed_InrE)
qed

lemma AppendFile_other:
  assumes "AppendFile p d fs = (Inr (), fs')" and "fs_ok fs" and "map_of (fs_names fs) q \<noteq> map_of (fs_names fs) p"
    and "q \<noteq> p"
  shows "content fs' q = content fs q"
proof (cases "map_of (fs_names fs) p")
  case None
  then have "create_file p d fs = (Inr (), fs')" using assms(1) by (auto simp: AppendFile_def elim!: allowed_InrE)
  then show ?thesis using create_file_content[of p d fs fs' q] assms(2,4) by simp
next
  case (Some i)
  then show ?thesis
    using assms(1,3) by (cases "map_of (fs_names fs) q") (auto simp: AppendFile_def content_def elim!: allowed_InrE)
qed

end
