(* ===== verification/Ephemeral_Cas.thy ===== *)
theory Ephemeral_Cas
  imports Host_FS Pipeline_State
begin

text \<open>
  \<open>src/pkg/ephemeralcas/blob_access.go\<close>: the storage of chunks and chunk mappings in a directory
  of the machine, one file per digest. The key of a digest, the digest function and the encoding of
  mappings are parameters; they belong to the packages \<open>digest\<close> and \<open>chunk\<close>.
\<close>

section \<open>Definitions\<close>

text \<open>
  \<open>computeDigest d\<close> applies the digest function of \<open>d\<close>; \<open>toCompactBinary\<close> and
  \<open>fromCompactBinary\<close> are the encoding of a mapping and its decoding for a digest.
\<close>

record 'm cas_codec =
  digestKey :: "digest \<Rightarrow> string"
  computeDigest :: "digest \<Rightarrow> string \<Rightarrow> digest"
  toCompactBinary :: "'m \<Rightarrow> string res"
  fromCompactBinary :: "string \<Rightarrow> digest \<Rightarrow> 'm res"

definition blobPath :: "'m cas_codec \<Rightarrow> string \<Rightarrow> digest \<Rightarrow> string" where
  "blobPath cc dir d = path_join [dir, digestKey cc d]"

definition Blob_Put :: "'m cas_codec \<Rightarrow> string \<Rightarrow> digest \<Rightarrow> string \<Rightarrow> (host_fs, unit) io" where
  "Blob_Put cc dir d value = WriteFile (blobPath cc dir d) value"

definition Blob_Get :: "'m cas_codec \<Rightarrow> string \<Rightarrow> digest \<Rightarrow> (host_fs, string) io" where
  "Blob_Get cc dir d f =
     (case ReadFile (blobPath cc dir d) f of
        (Inl e, f') \<Rightarrow>
          (Inl (if IsNotExist e then Errorf NotFound ''blob %s not found'' [hash d] else e), f')
      | (Inr data, f') \<Rightarrow>
          (if computeDigest cc d data \<noteq> d then Inl (Errorf DataLoss ''blob %s is corrupt'' [hash d])
           else Inr data, f'))"

text \<open>The loops of the two \<open>FindMissing\<close> methods differ in how they report an error.\<close>

fun find_missing ::
  "(digest \<Rightarrow> string) \<Rightarrow> (digest \<Rightarrow> go_error \<Rightarrow> go_error) \<Rightarrow> digest list \<Rightarrow> digest list \<Rightarrow> (host_fs, digest list) io"
where
  "find_missing path wrap missing [] f = (Inr missing, f)"
| "find_missing path wrap missing (d # ds) f =
     (case Stat (path d) f of
        (Inr _, f') \<Rightarrow> find_missing path wrap missing ds f'
      | (Inl e, f') \<Rightarrow>
          if \<not> IsNotExist e then (Inl (wrap d e), f')
          else find_missing path wrap (List.insert d missing) ds f')"

definition Blob_FindMissing :: "'m cas_codec \<Rightarrow> string \<Rightarrow> digest list \<Rightarrow> (host_fs, digest list) io" where
  "Blob_FindMissing cc dir digests =
     find_missing (blobPath cc dir) (\<lambda>d. Wrap ''stat blob %s'' [hash d]) [] digests"

record cdc_params =
  minChunkSizeBytes :: int
  horizonSizeBytes :: int

definition FetchCDCParameters :: "cdc_params res" where
  "FetchCDCParameters = Inr \<lparr>minChunkSizeBytes = 256 * 2 ^ 10, horizonSizeBytes = 2 * 2 ^ 20\<rparr>"

definition GetCapabilities :: "cdc_params option res" where
  "GetCapabilities = Inr (case FetchCDCParameters of Inr p \<Rightarrow> Some p | Inl _ \<Rightarrow> None)"

definition mappingPath :: "'m cas_codec \<Rightarrow> string \<Rightarrow> digest \<Rightarrow> string" where
  "mappingPath cc dir d = blobPath cc dir d @ ''.mapping''"

definition Mapping_Get :: "'m cas_codec \<Rightarrow> string \<Rightarrow> digest \<Rightarrow> (host_fs, 'm) io" where
  "Mapping_Get cc dir d f =
     (case ReadFile (mappingPath cc dir d) f of
        (Inl e, f') \<Rightarrow>
          (Inl (if IsNotExist e then Errorf NotFound ''chunk mapping %s not found'' [hash d] else e), f')
      | (Inr data, f') \<Rightarrow> (fromCompactBinary cc data d, f'))"

definition Mapping_Put :: "'m cas_codec \<Rightarrow> string \<Rightarrow> digest \<Rightarrow> 'm \<Rightarrow> (host_fs, unit) io" where
  "Mapping_Put cc dir d value =
     io_bind (io_pure (toCompactBinary cc value)) (\<lambda>data. WriteFile (mappingPath cc dir d) data)"

definition Mapping_FindMissing :: "'m cas_codec \<Rightarrow> string \<Rightarrow> digest list \<Rightarrow> (host_fs, digest list) io" where
  "Mapping_FindMissing cc dir digests = find_missing (mappingPath cc dir) (\<lambda>d e. e) [] digests"

section \<open>The contract of a blob storage\<close>

lemma find_missing_result:
  assumes "fs_ok f" and "find_missing path wrap acc ds f = (Inr ms, f')"
  shows "f' = f \<and> set ms = set acc \<union> {d \<in> set ds. content f (path d) = None \<and> path d \<notin> set (fs_dirs f)}"
  using assms(2)
proof (induction ds arbitrary: acc)
  case (Cons d ds)
  have deny: "fs_deny f (path d) = Some e \<Longrightarrow> \<not> IsNotExist e" for e
    using assms(1) by (simp add: fs_ok_def)
  show ?case
  proof (cases "fs_deny f (path d)")
    case (Some e)
    then show ?thesis using Cons.prems deny by (simp add: Stat_def allowed_def)
  next
    case None
    show ?thesis
    proof (cases "content f (path d) = None \<and> path d \<notin> set (fs_dirs f)")
      case True
      then have "find_missing path wrap (List.insert d acc) ds f = (Inr ms, f')"
        using Cons.prems None by (simp add: Stat_def allowed_def content_def IsNotExist_def ENOENT_def)
      from Cons.IH[OF this] show ?thesis using True by auto
    next
      case False
      then have "find_missing path wrap acc ds f = (Inr ms, f')"
        using Cons.prems None by (auto simp: Stat_def allowed_def content_def)
      from Cons.IH[OF this] show ?thesis using False by auto
    qed
  qed
qed simp

text \<open>
  What the two storages promise: a value that was put is read back, if it is a value the storage
  accepts for its digest; a digest without a file is not found; and exactly the digests without a
  file are missing.
\<close>

locale blob_access =
  fixes path :: "digest \<Rightarrow> string" and put :: "digest \<Rightarrow> 'v \<Rightarrow> (host_fs, unit) io"
    and get :: "digest \<Rightarrow> (host_fs, 'v) io" and missing :: "digest list \<Rightarrow> (host_fs, digest list) io"
    and valid :: "digest \<Rightarrow> 'v \<Rightarrow> bool"
  assumes put_get: "fs_ok f \<Longrightarrow> put d v f = (Inr (), f') \<Longrightarrow> valid d v \<Longrightarrow> get d f' = (Inr v, f')"
    and put_file: "fs_ok f \<Longrightarrow> put d v f = (Inr (), f') \<Longrightarrow> content f' (path d) \<noteq> None \<and> fs_ok f'"
    and get_absent: "fs_ok f \<Longrightarrow> fs_deny f (path d) = None \<Longrightarrow> content f (path d) = None \<Longrightarrow>
      \<exists>e. get d f = (Inl e, f) \<and> status_code e = NotFound"
    and missing_files: "fs_ok f \<Longrightarrow> missing ds f = (Inr ms, f') \<Longrightarrow>
      f' = f \<and> set ms = {d \<in> set ds. content f (path d) = None \<and> path d \<notin> set (fs_dirs f)}"
begin

lemma put_not_missing:
  "fs_ok f \<Longrightarrow> put d v f = (Inr (), f') \<Longrightarrow> missing ds f' = (Inr ms, f'') \<Longrightarrow> d \<notin> set ms"
  using put_file missing_files by fastforce

lemma missing_not_found:
  "fs_ok f \<Longrightarrow> fs_deny f (path d) = None \<Longrightarrow> missing ds f = (Inr ms, f') \<Longrightarrow> d \<in> set ms \<Longrightarrow>
    \<exists>e. get d f = (Inl e, f) \<and> status_code e = NotFound"
  using get_absent missing_files by fastforce

end

lemma WriteFile_content:
  assumes "WriteFile p d f = (Inr (), f')" and "fs_ok f"
  shows "content f' p = Some d" and "fs_deny f' p = None" and "fs_ok f'"
proof -
  have deny: "fs_deny f p = None" using assms(1) by (auto simp: WriteFile_def elim!: allowed_InrE)
  show "content f' p = Some d"
  proof (cases "map_of (fs_names f) p")
    case None
    then have "content f p = None" by (simp add: content_def)
    then show ?thesis using WriteFile_new[OF assms, of p] by simp
  next
    case (Some i)
    then show ?thesis
      using assms fs_ok_inode[OF assms(2) Some] by (auto simp: WriteFile_def content_def elim!: allowed_InrE)
  qed
  show "fs_deny f' p = None"
    using assms(1) deny by (auto simp: WriteFile_def create_file_def elim!: allowed_InrE split: option.splits if_splits)
  show "fs_ok f'" using file_calls_ok(3)[OF assms(2), of p d] assms(1) by simp
qed

lemma ReadFile_absent:
  "fs_deny f p = None \<Longrightarrow> content f p = None \<Longrightarrow> ReadFile p f = (Inl (ENOENT p), f)"
  by (simp add: ReadFile_def allowed_def)

lemma IsNotExist_ENOENT [simp]: "IsNotExist (ENOENT p)"
  by (simp add: IsNotExist_def ENOENT_def)

interpretation chunk_storage: blob_access "blobPath cc dir" "Blob_Put cc dir" "Blob_Get cc dir"
  "Blob_FindMissing cc dir" "\<lambda>d v. computeDigest cc d v = d" for cc dir
proof
  fix f f' d v ds ms
  assume ok: "fs_ok f"
  show "Blob_Get cc dir d f' = (Inr v, f')" if "Blob_Put cc dir d v f = (Inr (), f')" "computeDigest cc d v = d"
    using WriteFile_content[OF _ ok, of "blobPath cc dir d" v f'] that
    by (simp add: Blob_Put_def Blob_Get_def ReadFile_def allowed_def)
  show "content f' (blobPath cc dir d) \<noteq> None \<and> fs_ok f'" if "Blob_Put cc dir d v f = (Inr (), f')"
    using WriteFile_content[OF _ ok, of "blobPath cc dir d" v f'] that by (simp add: Blob_Put_def)
  show "\<exists>e. Blob_Get cc dir d f = (Inl e, f) \<and> status_code e = NotFound"
    if "fs_deny f (blobPath cc dir d) = None" "content f (blobPath cc dir d) = None"
    using ReadFile_absent[OF that] by (simp add: Blob_Get_def)
  show "f' = f \<and> set ms = {d \<in> set ds. content f (blobPath cc dir d) = None \<and> blobPath cc dir d \<notin> set (fs_dirs f)}"
    if "Blob_FindMissing cc dir ds f = (Inr ms, f')"
    using find_missing_result[OF ok] that by (force simp: Blob_FindMissing_def)
qed

interpretation mapping_storage: blob_access "mappingPath cc dir" "Mapping_Put cc dir" "Mapping_Get cc dir"
  "Mapping_FindMissing cc dir" "\<lambda>d v. \<exists>b. toCompactBinary cc v = Inr b \<and> fromCompactBinary cc b d = Inr v" for cc dir
proof
  fix f f' d v ds ms
  assume ok: "fs_ok f"
  show "Mapping_Get cc dir d f' = (Inr v, f')"
    if "Mapping_Put cc dir d v f = (Inr (), f')" "\<exists>b. toCompactBinary cc v = Inr b \<and> fromCompactBinary cc b d = Inr v"
    using WriteFile_content[OF _ ok, of "mappingPath cc dir d"] that
    by (auto simp: Mapping_Put_def Mapping_Get_def ReadFile_def allowed_def)
  show "content f' (mappingPath cc dir d) \<noteq> None \<and> fs_ok f'" if "Mapping_Put cc dir d v f = (Inr (), f')"
    using WriteFile_content[OF _ ok, of "mappingPath cc dir d"] that
    by (auto simp: Mapping_Put_def elim!: io_bind_InrE)
  show "\<exists>e. Mapping_Get cc dir d f = (Inl e, f) \<and> status_code e = NotFound"
    if "fs_deny f (mappingPath cc dir d) = None" "content f (mappingPath cc dir d) = None"
    using ReadFile_absent[OF that] by (simp add: Mapping_Get_def)
  show "f' = f \<and> set ms = {d \<in> set ds. content f (mappingPath cc dir d) = None \<and> mappingPath cc dir d \<notin> set (fs_dirs f)}"
    if "Mapping_FindMissing cc dir ds f = (Inr ms, f')"
    using find_missing_result[OF ok] that by (force simp: Mapping_FindMissing_def)
qed

section \<open>Properties\<close>

text \<open>
  C32: A chunk that was put under its own digest is read back and is not missing any more; and
  whatever is on the disk, a chunk that is read has the digest that was asked for, or the
  result is an error.
\<close>

theorem ephemeral_cas_round_trip:
  assumes "fs_ok f" and "Blob_Put cc dir d v f = (Inr (), f')" and "computeDigest cc d v = d"
  shows "Blob_Get cc dir d f' = (Inr v, f')
    \<and> (\<forall>ds ms f''. Blob_FindMissing cc dir ds f' = (Inr ms, f'') \<longrightarrow> d \<notin> set ms)
    \<and> (\<forall>d' v' g. fst (Blob_Get cc dir d' g) = Inr v' \<longrightarrow> computeDigest cc d' v' = d')"
proof -
  have "computeDigest cc d' v' = d'" if "fst (Blob_Get cc dir d' g) = Inr v'" for d' v' g
    using that by (auto simp: Blob_Get_def split: prod.splits sum.splits if_splits)
  then show ?thesis
    using chunk_storage.put_get[OF assms] chunk_storage.put_not_missing[OF assms(1,2)] by blast
qed

definition demo_codec :: "unit cas_codec" where
  "demo_codec = \<lparr>digestKey = hash, computeDigest = (\<lambda>_ s. \<lparr>hash = s, size_bytes = int (length s)\<rparr>),
     toCompactBinary = (\<lambda>_. Inr ''''), fromCompactBinary = (\<lambda>_ _. Inr ())\<rparr>"

definition demo_cas_dir :: host_fs where
  "demo_cas_dir = \<lparr>fs_names = [], fs_data = [], fs_dirs = [''/cas''], fs_deny = (\<lambda>_. None)\<rparr>"

theorem ephemeral_cas_round_trip_witness:
  "fst (Blob_Get demo_codec ''/cas'' \<lparr>hash = ''ab'', size_bytes = 2\<rparr>
     (snd (Blob_Put demo_codec ''/cas'' \<lparr>hash = ''ab'', size_bytes = 2\<rparr> ''ab'' demo_cas_dir))) = Inr ''ab''"
proof -
  let ?r = "Blob_Put demo_codec ''/cas'' \<lparr>hash = ''ab'', size_bytes = 2\<rparr> ''ab'' demo_cas_dir"
  have "fst ?r = Inr ()" by code_simp
  then have r: "?r = (Inr (), snd ?r)" by (metis prod.collapse)
  have "fs_ok demo_cas_dir" by (simp add: fs_ok_def demo_cas_dir_def)
  from ephemeral_cas_round_trip[OF this r] show ?thesis by (simp add: demo_codec_def)
qed

end
