(* ===== verification/Root_Fetcher.thy ===== *)
theory Root_Fetcher
  imports Image_Upload Fetcher_Acquire Ephemeral_Cas
begin

text \<open>
  \<open>src/cmd/bb_docker_root_fetcher/main.go\<close>: the materializer, which turns an image into a directory
  below the roots directory, and the start of the program. The operating system, the build
  directory that copies a tree out of the storage, and the image uploader on the ephemeral
  storage are parameters that act on a world; the theorems about directories read that world
  through a function that gives the entries of the roots directory.
\<close>

section \<open>Definitions: the materializer\<close>

text \<open>
  \<open>mt_uploader dir\<close> uploads to the ephemeral storage in \<open>dir\<close>, \<open>mt_newDigest\<close> parses a digest
  message, \<open>mt_refDigest\<close> is \<open>name.NewDigest\<close> followed by \<open>DigestStr\<close>.
\<close>

record ('w, 'd) materializer =
  rootsDir :: string
  mkdirTemp :: "string \<Rightarrow> string \<Rightarrow> ('w, string) io"
  removeAll_dir :: "string \<Rightarrow> ('w, unit) io"
  chmod :: "string \<Rightarrow> nat \<Rightarrow> ('w, unit) io"
  rename_dir :: "string \<Rightarrow> string \<Rightarrow> ('w, unit) io"
  mkdirAll_dir :: "string \<Rightarrow> ('w, unit) io"
  openLocalDirectory :: "string \<Rightarrow> ('w, unit) io"
  closeDirectory :: "string \<Rightarrow> 'w \<Rightarrow> 'w"
  mergeDirectoryContents :: "string \<Rightarrow> digest \<Rightarrow> ('w, unit) io"
  mt_uploader :: "string \<Rightarrow> ('w, 'd) ImageToCASUploader"
  mt_ctxErr :: "nat \<Rightarrow> nat \<Rightarrow> go_error option"
  mt_newDigest :: "digest \<Rightarrow> digest res"
  mt_parseReference :: "string \<Rightarrow> reference res"
  mt_refDigest :: "string \<Rightarrow> string res"

definition ignore_err :: "('w, 'a) io \<Rightarrow> 'w \<Rightarrow> 'w" where
  "ignore_err m w = snd (m w)"

fun ensure_dirs :: "('w, 'd) materializer \<Rightarrow> string \<Rightarrow> string list \<Rightarrow> ('w, unit) io" where
  "ensure_dirs m dirPath [] = io_pure (Inr ())"
| "ensure_dirs m dirPath (sub # subs) =
     (let p = path_join [dirPath, sub]
      in io_bind (io_wrap (Wrap ''ensure %s exists'' [p]) (mkdirAll_dir m p)) (\<lambda>_. ensure_dirs m dirPath subs))"

definition populateRoot :: "('w, 'd) materializer \<Rightarrow> string \<Rightarrow> digest \<Rightarrow> ('w, unit) io" where
  "populateRoot m dirPath rootDigest w =
     (case openLocalDirectory m dirPath w of
        (Inl e, w1) \<Rightarrow> (Inl (Wrap ''open in-progress root dir'' [] e), w1)
      | (Inr _, w1) \<Rightarrow>
          (case io_bind (io_wrap (Wrap ''materialize'' []) (mergeDirectoryContents m dirPath rootDigest))
                  (\<lambda>_. ensure_dirs m dirPath [''bin'', ''var'']) w1 of
             (r, w2) \<Rightarrow> (r, closeDirectory m dirPath w2)))"

definition buildRoot :: "('w, 'd) materializer \<Rightarrow> digest \<Rightarrow> ('w, string) io" where
  "buildRoot m rootDigest w =
     (case mkdirTemp m (rootsDir m) ''.tmp-root-'' w of
        (Inl e, w1) \<Rightarrow> (Inl (Wrap ''create in-progress root dir'' [] e), w1)
      | (Inr inProgressRoot, w1) \<Rightarrow>
          (case chmod m inProgressRoot 0x1ED w1 of
             (Inl e, w2) \<Rightarrow>
               (Inl (Wrap ''chmod in-progress root dir'' [] e), ignore_err (removeAll_dir m inProgressRoot) w2)
           | (Inr _, w2) \<Rightarrow>
               (case populateRoot m inProgressRoot rootDigest w2 of
                  (Inl e, w3) \<Rightarrow> (Inl e, ignore_err (removeAll_dir m inProgressRoot) w3)
                | (Inr _, w3) \<Rightarrow> (Inr inProgressRoot, w3))))"

text \<open>The part of \<open>materialize\<close> after the root was built: the final name and the rename.\<close>

definition install_root :: "('w, 'd) materializer \<Rightarrow> string \<Rightarrow> string \<Rightarrow> ('w, string) io" where
  "install_root m imageRef inProgressRoot w =
     (case ValidateImageReferenceIsShaDigest (mt_parseReference m) imageRef of
        Inl e \<Rightarrow> (Inl (Errorf Unknown ''invalid image ref: %s'' [imageRef]), w)
      | Inr _ \<Rightarrow>
          (case mt_refDigest m imageRef of
             Inl e \<Rightarrow> (Inl (Wrap ''invalid image ref %q'' [imageRef] e), w)
           | Inr refDigest \<Rightarrow>
               (let finalPath = path_join [rootsDir m, trim_prefix refDigest ''sha256:'']
                in case rename_dir m inProgressRoot finalPath w of
                     (Inl e, w1) \<Rightarrow>
                       (Inl (Wrap ''rename to final path'' [] e), ignore_err (removeAll_dir m inProgressRoot) w1)
                   | (Inr _, w1) \<Rightarrow> (Inr finalPath, w1))))"

text \<open>What runs between the creation of the ephemeral storage and its deferred removal.\<close>

definition materialize_from ::
  "('w, 'd) materializer \<Rightarrow> string \<Rightarrow> string \<Rightarrow> ('w, string) io"
where
  "materialize_from m imageRef casDir =
     io_bind (io_wrap (Wrap ''upload image to ephemeral CAS'' [])
                (UploadImageToCAS (mt_uploader m casDir) (mt_ctxErr m) imageRef)) (\<lambda>rootDigest.
       io_bind (io_pure (wrap_err (Wrap ''parse root digest'' []) (mt_newDigest m rootDigest))) (\<lambda>parsed.
         io_bind (buildRoot m parsed) (\<lambda>inProgressRoot. install_root m imageRef inProgressRoot)))"

definition materialize :: "('w, 'd) materializer \<Rightarrow> string \<Rightarrow> ('w, string) io" where
  "materialize m imageRef w =
     (case mkdirTemp m (rootsDir m) ''.tmp-blobs-'' w of
        (Inl e, w1) \<Rightarrow> (Inl (Wrap ''create ephemeral blob dir'' [] e), w1)
      | (Inr casDir, w1) \<Rightarrow>
          (case materialize_from m imageRef casDir w1 of
             (r, w2) \<Rightarrow> (r, ignore_err (removeAll_dir m casDir) w2)))"

text \<open>\<open>Materialize\<close> counts the pulls: the image and whether it succeeded.\<close>

definition Materialize ::
  "('w, 'd) materializer \<Rightarrow> string \<Rightarrow> 'w \<times> (string \<times> string) list \<Rightarrow> string res \<times> 'w \<times> (string \<times> string) list"
where
  "Materialize m imageRef = (\<lambda>(w, imagePullCount).
     case materialize m imageRef w of
       (r, w') \<Rightarrow> (r, w', imagePullCount @ [(imageRef, if isl r then ''error'' else ''success'')]))"

section \<open>Definitions: the start of the program\<close>

text \<open>
  The socket: \<open>rm\<close> is \<open>os.Remove\<close>, \<open>listen\<close> makes the socket and the listener, \<open>chmodSocket\<close>
  restricts its permissions and \<open>closeListener\<close> closes the listener.
\<close>

definition listenUnixSocket ::
  "(string \<Rightarrow> ('w, unit) io) \<Rightarrow> (string \<Rightarrow> ('w, 'l) io) \<Rightarrow> (string \<Rightarrow> nat \<Rightarrow> ('w, unit) io) \<Rightarrow> ('l \<Rightarrow> 'w \<Rightarrow> 'w) \<Rightarrow>
   string \<Rightarrow> ('w, 'l) io"
where
  "listenUnixSocket rm listen chmodSocket closeListener socketPath w =
     (case listen socketPath (ignore_err (rm socketPath) w) of
        (Inl e, w1) \<Rightarrow> (Inl (Wrap ''Failed to listen on %s'' [socketPath] e), w1)
      | (Inr listener, w1) \<Rightarrow>
          (case chmodSocket socketPath 0x1B0 w1 of
             (Inl e, w2) \<Rightarrow>
               (Inl (Wrap ''Failed to set permissions on %s'' [socketPath] e),
                ignore_err (rm socketPath) (closeListener listener w2))
           | (Inr _, w2) \<Rightarrow> (Inr listener, w2)))"

record fetcher_config =
  RootsDirectoryPath :: string
  RegistryAuthentication :: "registry_auth_config list"
  ImagePullTimeout :: "int option"
  MaximumImageSizeBytes :: int
  FetchParallelism :: nat
  FetchOpenDirectoryLimit :: nat
  MaximumMaterializedRoots :: int
  MaximumConcurrentFetches_cfg :: nat
  AcquireTimeout_cfg :: "int option"
  PrefetchImages_cfg :: "string list"
  RootUseBoost :: "int option"
  MaximumRootUseBoost :: "int option"
  BuildUser_cfg :: "BuildUser option"

definition duration_or_zero :: "int option \<Rightarrow> int" where
  "duration_or_zero d = (case d of None \<Rightarrow> 0 | Some t \<Rightarrow> t)"

text \<open>
  The wiping of the roots directory; the two calls act on the world, \<open>rmAll\<close> and
  \<open>mkdirAll\<close> are \<open>os.RemoveAll\<close> and \<open>os.MkdirAll\<close>.
\<close>

definition prepare_roots ::
  "(string \<Rightarrow> ('w, unit) io) \<Rightarrow> (string \<Rightarrow> ('w, unit) io) \<Rightarrow> string \<Rightarrow> ('w, unit) io"
where
  "prepare_roots rmAll mkdirAll path =
     (let cleanedRoots = clean path
      in if cleanedRoots = ''/'' \<or> cleanedRoots = ''.''
         then io_pure (Inl (Errorf InvalidArgument ''RootsDirectoryPath %q must contain at least one path segment'' [path]))
         else io_bind (io_wrap (Wrap ''Failed to clear roots directory %v'' [path]) (rmAll path))
                (\<lambda>_. io_wrap (Wrap ''Failed to create roots directory %v'' [path]) (mkdirAll path)))"

text \<open>The settings that are derived from the configuration, and the server that is made.\<close>

definition fetcher_settings ::
  "(string \<Rightarrow> (string, string \<times> string) gomap res) \<Rightarrow> string list \<Rightarrow> fetcher_config \<Rightarrow> (ImagePuller \<times> UnixUser \<times> Server) res"
where
  "fetcher_settings readCredentials existing config =
     rbind (wrap_err (Wrap ''Failed to parse registry authentication'' [])
              (ParseRegistryAuth readCredentials (RegistryAuthentication config))) (\<lambda>auth.
       if FetchParallelism config = 0 then Inl (Errorf InvalidArgument ''fetchParallelism not set'' [])
       else if FetchOpenDirectoryLimit config = 0 then Inl (Errorf InvalidArgument ''openDirLimit not set'' [])
       else if MaximumMaterializedRoots config = 0 then Inl (Errorf InvalidArgument ''maxRoots not set'' [])
       else if MaximumConcurrentFetches_cfg config = 0 then Inl (Errorf InvalidArgument ''maxConcurrentFetches not set'' [])
       else rbind (wrap_err (Wrap ''Invalid build user'' []) (BuildUserFromProto (BuildUser_cfg config))) (\<lambda>user.
         rbind (wrap_err (Wrap ''Failed to create docker root fetcher'' [])
                  (NewServer existing \<lparr>MaxRoots = MaximumMaterializedRoots config,
                     MaxConcurrentFetches = int (MaximumConcurrentFetches_cfg config),
                     AcquireTimeout = duration_or_zero (AcquireTimeout_cfg config),
                     PrefetchImages_opt = PrefetchImages_cfg config,
                     UseBoost = duration_or_zero (RootUseBoost config),
                     MaxUseBoost = duration_or_zero (MaximumRootUseBoost config)\<rparr>)) (\<lambda>server.
           Inr (\<lparr>authConfig = auth, maxImageSizeBytes = MaximumImageSizeBytes config,
                 pullTimeout = duration_or_zero (ImagePullTimeout config)\<rparr>, user, server))))"

definition start_fetcher ::
  "(string \<Rightarrow> ('w, unit) io) \<Rightarrow> (string \<Rightarrow> ('w, unit) io) \<Rightarrow> (string \<Rightarrow> (string, string \<times> string) gomap res) \<Rightarrow>
   fetcher_config \<Rightarrow> ('w, ImagePuller \<times> UnixUser \<times> Server) io"
where
  "start_fetcher rmAll mkdirAll readCredentials config =
     io_bind (prepare_roots rmAll mkdirAll (RootsDirectoryPath config))
       (\<lambda>_. io_pure (fetcher_settings readCredentials [] config))"

section \<open>What is left in the roots directory\<close>

text \<open>
  What the materializer relies on: a temporary directory is new and its name begins with the
  pattern, removing and renaming do what they say, and nothing else, the upload included, makes or
  removes an entry of the roots directory itself.
\<close>

definition keeps_entries :: "('w \<Rightarrow> string set) \<Rightarrow> ('w, 'a) io \<Rightarrow> bool" where
  "keeps_entries entries m \<longleftrightarrow> (\<forall>w. entries (snd (m w)) = entries w)"

definition temp_dir_law :: "('w, 'd) materializer \<Rightarrow> ('w \<Rightarrow> string set) \<Rightarrow> bool" where
  "temp_dir_law m entries \<longleftrightarrow> (\<forall>pat\<in>{''.tmp-blobs-'', ''.tmp-root-''}. \<forall>w p w'.
     mkdirTemp m (rootsDir m) pat w = (Inr p, w') \<longrightarrow>
       p \<notin> entries w \<and> entries w' = insert p (entries w) \<and> has_prefix (base_name p) pat)
   \<and> (\<forall>pat\<in>{''.tmp-blobs-'', ''.tmp-root-''}. \<forall>w e w'. mkdirTemp m (rootsDir m) pat w = (Inl e, w') \<longrightarrow> entries w' = entries w)"

definition rename_law :: "('w, 'd) materializer \<Rightarrow> ('w \<Rightarrow> string set) \<Rightarrow> bool" where
  "rename_law m entries \<longleftrightarrow> (\<forall>p q w w'.
     (rename_dir m p q w = (Inr (), w') \<longrightarrow> entries w' = insert q (entries w - {p})))
   \<and> (\<forall>p q w e w'. rename_dir m p q w = (Inl e, w') \<longrightarrow> entries w' = entries w)"

definition materializer_laws :: "('w, 'd) materializer \<Rightarrow> ('w \<Rightarrow> string set) \<Rightarrow> bool" where
  "materializer_laws m entries \<longleftrightarrow> temp_dir_law m entries \<and> rename_law m entries
   \<and> (\<forall>p w. entries (snd (removeAll_dir m p w)) = entries w - {p})
   \<and> (\<forall>p n. keeps_entries entries (chmod m p n)) \<and> (\<forall>p. keeps_entries entries (mkdirAll_dir m p))
   \<and> (\<forall>p. keeps_entries entries (openLocalDirectory m p)) \<and> (\<forall>p w. entries (closeDirectory m p w) = entries w)
   \<and> (\<forall>p d. keeps_entries entries (mergeDirectoryContents m p d))
   \<and> (\<forall>dir ref. keeps_entries entries (UploadImageToCAS (mt_uploader m dir) (mt_ctxErr m) ref))"

lemma keeps_entriesD: "keeps_entries entries m \<Longrightarrow> m w = (r, w') \<Longrightarrow> entries w' = entries w"
  unfolding keeps_entries_def by (metis snd_conv)

lemma ensure_dirs_keeps:
  assumes "\<And>p. keeps_entries entries (mkdirAll_dir m p)"
  shows "entries (snd (ensure_dirs m d subs w)) = entries w"
proof (induction subs arbitrary: w)
  case (Cons sub subs)
  obtain r w1 where r: "mkdirAll_dir m (path_join [d, sub]) w = (r, w1)" by fastforce
  then have "entries w1 = entries w" using keeps_entriesD assms by metis
  then show ?case using r Cons[of w1] by (cases r) (simp_all add: io_bind_def io_wrap_def Let_def)
qed simp

lemma populateRoot_keeps:
  assumes "materializer_laws m entries"
  shows "entries (snd (populateRoot m d g w)) = entries w"
proof -
  have k: "\<And>p. keeps_entries entries (mkdirAll_dir m p)" "keeps_entries entries (openLocalDirectory m d)"
    "keeps_entries entries (mergeDirectoryContents m d g)" "\<And>w. entries (closeDirectory m d w) = entries w"
    using assms by (simp_all add: materializer_laws_def)
  obtain r w1 where op: "openLocalDirectory m d w = (r, w1)" by fastforce
  obtain q w2 where mg: "mergeDirectoryContents m d g w1 = (q, w2)" by fastforce
  have "entries w1 = entries w" "entries w2 = entries w1"
    using keeps_entriesD[OF k(2) op] keeps_entriesD[OF k(3) mg] .
  then show ?thesis
    using op mg ensure_dirs_keeps[OF k(1), of d "[''bin'', ''var'']" w2] k(4)
    by (cases r; cases q; cases "ensure_dirs m d [''bin'', ''var''] w2")
      (simp_all add: populateRoot_def io_bind_def io_wrap_def)
qed

lemma buildRoot_entries:
  assumes "materializer_laws m entries" and "buildRoot m g w = (r, w')"
  shows "case r of Inr p \<Rightarrow> p \<notin> entries w \<and> entries w' = insert p (entries w) | Inl e \<Rightarrow> entries w' = entries w"
proof -
  have k: "temp_dir_law m entries" "\<And>p n. keeps_entries entries (chmod m p n)"
    "\<And>p w. entries (snd (removeAll_dir m p w)) = entries w - {p}"
    using assms(1) by (simp_all add: materializer_laws_def)
  obtain t w1 where mk: "mkdirTemp m (rootsDir m) ''.tmp-root-'' w = (t, w1)" by fastforce
  show ?thesis
  proof (cases t)
    case (Inl e)
    then show ?thesis using assms(2) mk k(1) by (auto simp: buildRoot_def temp_dir_law_def)
  next
    case (Inr p)
    have p: "p \<notin> entries w" "entries w1 = insert p (entries w)"
      using k(1) mk Inr unfolding temp_dir_law_def by blast+
    obtain c w2 where ch: "chmod m p 0x1ED w1 = (c, w2)" by fastforce
    obtain q w3 where po: "populateRoot m p g w2 = (q, w3)" by fastforce
    have "entries w2 = entries w1" using keeps_entriesD[OF k(2) ch] .
    moreover have "entries w3 = entries w2" using populateRoot_keeps[OF assms(1), of p g w2] po by simp
    ultimately show ?thesis
      using assms(2) mk Inr ch po p k(3) by (cases c; cases q) (auto simp: buildRoot_def ignore_err_def)
  qed
qed

lemma materialize_from_entries:
  assumes "materializer_laws m entries"
    and "ValidateImageReferenceIsShaDigest (mt_parseReference m) ref = Inr ()"
    and "mt_refDigest m ref = Inr (''sha256:'' @ h)" and "materialize_from m ref casDir w = (r, w')"
  shows "case r of Inr p \<Rightarrow> p = path_join [rootsDir m, h] \<and> entries w' = insert p (entries w)
    | Inl e \<Rightarrow> entries w' = entries w"
proof -
  have k: "rename_law m entries" "\<And>p w. entries (snd (removeAll_dir m p w)) = entries w - {p}"
    "keeps_entries entries (UploadImageToCAS (mt_uploader m casDir) (mt_ctxErr m) ref)"
    using assms(1) by (simp_all add: materializer_laws_def)
  obtain u w1 where up: "UploadImageToCAS (mt_uploader m casDir) (mt_ctxErr m) ref w = (u, w1)" by fastforce
  have w1: "entries w1 = entries w" using keeps_entriesD[OF k(3) up] .
  show ?thesis
  proof (cases "isl u \<or> isl (mt_newDigest m (projr u))")
    case True
    then show ?thesis
      using assms(4) up w1
      by (cases u; cases "mt_newDigest m (projr u)") (auto simp: materialize_from_def io_bind_def io_wrap_def)
  next
    case False
    then obtain d g where ud: "u = Inr d" "mt_newDigest m d = Inr g"
      by (cases u; cases "mt_newDigest m (projr u)") auto
    obtain b w2 where bu: "buildRoot m g w1 = (b, w2)" by fastforce
    note be = buildRoot_entries[OF assms(1) bu]
    show ?thesis
    proof (cases b)
      case (Inl e)
      then show ?thesis
        using assms(4) up ud bu be w1 by (auto simp: materialize_from_def io_bind_def io_wrap_def)
    next
      case (Inr p)
      obtain rr w3 where rn: "rename_dir m p (path_join [rootsDir m, h]) w2 = (rr, w3)" by fastforce
      have e3: "entries w3 = (if isl rr then entries w2 else insert (path_join [rootsDir m, h]) (entries w2 - {p}))"
        using k(1) rn unfolding rename_law_def by (cases rr) auto
      have "(r, w') = (case rr of
            Inl e \<Rightarrow> (Inl (Wrap ''rename to final path'' [] e), snd (removeAll_dir m p w3))
          | Inr _ \<Rightarrow> (Inr (path_join [rootsDir m, h]), w3))"
        using assms(2,3,4) up ud bu Inr rn trim_prefix_append[of "''sha256:''" h]
        by (auto simp: materialize_from_def io_bind_def io_wrap_def install_root_def Let_def ignore_err_def
            split: sum.splits)
      then show ?thesis using be Inr w1 e3 k(2) by (cases rr) auto
    qed
  qed
qed

section \<open>Properties\<close>

lemma hex_name:
  assumes "h \<noteq> ''''" and "list_all is_lower_hex h"
  shows "plain_comp h" and "\<not> has_prefix h ''.tmp-blobs-''"
proof -
  have "\<not> is_lower_hex slash" "\<not> is_lower_hex (CHR ''.'')" by (simp_all add: is_lower_hex_def is_digit_def)
  then show "plain_comp h" "\<not> has_prefix h ''.tmp-blobs-''"
    using assms by (auto simp: plain_comp_def list_all_iff has_prefix_iff)
qed


text \<open>A materializer whose world is the list of the entries of the roots directory.\<close>

definition demo_root_uploader :: "(string list, unit) ImageToCASUploader" where
  "demo_root_uploader = NewImageToCasUploader
     \<lparr>parseReference = (\<lambda>s. Inr \<lparr>registryStr = ''r'', digestStr = s\<rparr>), remoteGet = (\<lambda>_ _ _. Pair (Inr ())),
      descImage = (\<lambda>_. Pair (Inr \<lparr>manifest_sizes = Inr [10], image_layers = Inr []\<rparr>)), cancelPull = id\<rparr>
     \<lparr>createTemp = Pair (Inr ''/tmp/casUpload1''), writeTemp = (\<lambda>_ _. Pair (Inr ())),
      removeTemp = (\<lambda>_. Pair (Inr ())), uploadBlob = (\<lambda>tf. Pair (Inr (demo_digest (tmp_data tf))))\<rparr>
     (\<lambda>_. Pair (Inr (demo_digest ''root''))) (Pair (Inr ())) \<lparr>authConfig = [], maxImageSizeBytes = 100, pullTimeout = 60\<rparr> demo_user"

definition demo_hash :: string where
  "demo_hash = replicate 64 (CHR ''a'')"

definition demo_materializer :: "(string list, unit) materializer" where
  "demo_materializer = \<lparr>rootsDir = ''/roots'',
     mkdirTemp = (\<lambda>dir pat w. let p = dir @ ''/'' @ pat @ show_nat (length w) in
        if p \<in> set w then (Inl (EEXIST p), w) else (Inr p, p # w)),
     removeAll_dir = (\<lambda>p w. (Inr (), removeAll p w)), chmod = (\<lambda>_ _. Pair (Inr ())),
     rename_dir = (\<lambda>p q w. (Inr (), q # removeAll p w)), mkdirAll_dir = (\<lambda>_. Pair (Inr ())),
     openLocalDirectory = (\<lambda>_. Pair (Inr ())), closeDirectory = (\<lambda>_ w. w),
     mergeDirectoryContents = (\<lambda>_ _. Pair (Inr ())), mt_uploader = (\<lambda>_. demo_root_uploader),
     mt_ctxErr = (\<lambda>_ _. None), mt_newDigest = Inr, mt_parseReference = (\<lambda>s. Inr \<lparr>registryStr = ''r'', digestStr = s\<rparr>),
     mt_refDigest = (\<lambda>_. Inr (''sha256:'' @ demo_hash))\<rparr>"

text \<open>
  A reference that names an image without a digest is only rejected after the image has been
  pulled and its root built, and that root is then left in the roots directory.
\<close>

theorem materialize_leaks_root:
  "isl (fst (materialize demo_materializer ''ubuntu:latest'' []))
   \<and> snd (materialize demo_materializer ''ubuntu:latest'' []) = [''/roots/.tmp-root-1'']"
  by (intro conjI) code_simp+

lemma demo_uploader_world: "snd (UploadImageToCAS demo_root_uploader ctx ref w) = w"
  by (auto simp: UploadImageToCAS_def uploadImageToCASImpl_def upload_layers_def UploadDirectories_def
      GetImageFromRef_def getImageFromRefImpl_def validateImageSize_def getAuthForRegistry_def demo_root_uploader_def
      NewImageToCasUploader_def newUploadDirState_def io_bind_def io_wrap_def Let_def wrap_err_def
      split: prod.splits sum.splits)

lemma demo_materializer_laws: "materializer_laws demo_materializer set"
proof -
  have "has_prefix (base_name (''/roots/'' @ pat @ show_nat n)) pat"
    if "pat \<in> {''.tmp-blobs-'', ''.tmp-root-''}" for pat n
  proof -
    have "slash \<notin> set (pat @ show_nat n)" using that show_nat_no_char[of slash n] by auto
    then have "base_name (''/roots'' @ slash # (pat @ show_nat n)) = pat @ show_nat n" by (rule base_name_append)
    then show ?thesis by (simp add: has_prefix_def)
  qed
  from this[of "''.tmp-blobs-''"] this[of "''.tmp-root-''"] show ?thesis
    unfolding materializer_laws_def temp_dir_law_def rename_law_def keeps_entries_def
    by (auto simp: demo_materializer_def demo_uploader_world Let_def split: if_splits)
qed


lemma NewServer_Inr:
  assumes "NewServer existing opts = Inr s" and "1 \<le> MaxConcurrentFetches opts"
  shows "server_ok s" and "RootCount s = 0" and "MaxRoots (options s) = max 1 (MaxRoots opts)"
    and "MaxConcurrentFetches (options s) = MaxConcurrentFetches opts"
    and "2 * int (card (set (PrefetchImages_opt opts))) < max 1 (MaxRoots opts)"
  using assms NewServer_ok[OF assms(1)]
  by (auto simp: NewServer_def RootCount_def normalize_options_def Let_def card_set split: if_splits)

lemma fetcher_settings_Inr:
  assumes "fetcher_settings creds existing config = Inr (puller, user, server)"
  shows "0 < FetchParallelism config \<and> 0 < FetchOpenDirectoryLimit config \<and> server_ok server \<and> RootCount server = 0
     \<and> MaxRoots (options server) = max 1 (MaximumMaterializedRoots config)
     \<and> MaxConcurrentFetches (options server) = int (MaximumConcurrentFetches_cfg config)
     \<and> 2 * int (card (set (PrefetchImages_cfg config))) < max 1 (MaximumMaterializedRoots config)
     \<and> maxImageSizeBytes puller = MaximumImageSizeBytes config \<and> Name user \<noteq> ''''"
proof -
  obtain opts where new: "NewServer existing opts = Inr server"
    and opts: "MaxRoots opts = MaximumMaterializedRoots config"
      "MaxConcurrentFetches opts = int (MaximumConcurrentFetches_cfg config)" "1 \<le> MaxConcurrentFetches opts"
      "PrefetchImages_opt opts = PrefetchImages_cfg config"
    and user: "BuildUserFromProto (BuildUser_cfg config) = Inr user"
    and rest: "0 < FetchParallelism config" "0 < FetchOpenDirectoryLimit config"
      "maxImageSizeBytes puller = MaximumImageSizeBytes config"
    using assms by (auto simp: fetcher_settings_def split: if_splits)
  have "Name user \<noteq> ''''"
    using user by (auto simp: BuildUserFromProto_def defaultBuildUser_def Let_def split: option.splits if_splits)
  then show ?thesis using NewServer_Inr[OF new opts(3)] opts rest by simp
qed


definition demo_fetcher_config :: "string \<Rightarrow> fetcher_config" where
  "demo_fetcher_config path = \<lparr>RootsDirectoryPath = path, RegistryAuthentication = [], ImagePullTimeout = None,
     MaximumImageSizeBytes = 100, FetchParallelism = 4, FetchOpenDirectoryLimit = 10, MaximumMaterializedRoots = 5,
     MaximumConcurrentFetches_cfg = 2, AcquireTimeout_cfg = None, PrefetchImages_cfg = [''a'', ''b''], RootUseBoost = None,
     MaximumRootUseBoost = None, BuildUser_cfg = None\<rparr>"

text \<open>The world of the witness is the log of the removed paths.\<close>

abbreviation demo_start :: "string \<Rightarrow> (ImagePuller \<times> UnixUser \<times> Server) res \<times> string list" where
  "demo_start path \<equiv> start_fetcher (\<lambda>p w. (Inr (), w @ [p])) (\<lambda>_. Pair (Inr ())) (\<lambda>_. Inr []) (demo_fetcher_config path) []"


text \<open>
  The check misses directories above: the path \<open>..\<close> is accepted, and the first thing the program
  then does is to remove the parent of its working directory.
\<close>

theorem start_fetcher_accepts_parent:
  "snd (prepare_roots (\<lambda>p w. (Inr (), w @ [p])) (\<lambda>_. Pair (Inr ())) ''..'' []) = [''..'']"
  by code_simp

end
