(* ===== verification/Fetcher_Metrics.thy ===== *)
theory Fetcher_Metrics
  imports Complex_Main Prelude
begin

text \<open>
  \<open>src/pkg/fetcher/metrics.go\<close>: the instruments of the root fetcher and the exporters they are
  pushed to. The telemetry library is the parameter \<open>otlp\<close>. Histogram boundaries are floating
  point numbers that are doubled from a start value; doubling is exact, so they are modelled as
  rationals (with \<open>0.001\<close> as a thousandth).
\<close>

section \<open>Definitions\<close>

datatype instrument = Int64Counter | Int64UpDownCounter | Float64Histogram "rat list"

text \<open>The loop that fills the slice of boundaries.\<close>

fun boundary_loop :: "rat \<Rightarrow> rat \<Rightarrow> nat \<Rightarrow> rat list" where
  "boundary_loop b factor 0 = []"
| "boundary_loop b factor (Suc n) = b # boundary_loop (b * factor) factor n"

definition exponentialBoundaries :: "rat \<Rightarrow> rat \<Rightarrow> nat \<Rightarrow> rat list" where
  "exponentialBoundaries start factor n_bounds = boundary_loop start factor n_bounds"

record 'i Metrics =
  AcquireTotal :: 'i
  AcquireDuration :: 'i
  RootsGauge :: 'i
  ImagePullCount :: 'i
  ImagePrepDuration :: 'i
  EvictionIdleDuration :: 'i

text \<open>\<open>meter\<close> makes an instrument of a name.\<close>

definition newMetrics :: "(string \<Rightarrow> instrument \<Rightarrow> ('w, 'i) io) \<Rightarrow> string \<Rightarrow> ('w, 'i Metrics) io" where
  "newMetrics meter appName =
     (let prefix = appName @ ''_''
      in io_bind (meter (prefix @ ''acquire_total'') Int64Counter) (\<lambda>acquireTotal.
         io_bind (meter (prefix @ ''acquire_duration_seconds'') (Float64Histogram (exponentialBoundaries (1 / 1000) 2 21))) (\<lambda>acquireDuration.
         io_bind (meter (prefix @ ''materialized_roots'') Int64UpDownCounter) (\<lambda>rootsGauge.
         io_bind (meter (prefix @ ''image_pull_count'') Int64Counter) (\<lambda>imagePullCount.
         io_bind (meter (prefix @ ''image_prep_duration_seconds'') (Float64Histogram (exponentialBoundaries 1 2 11))) (\<lambda>imagePrepDuration.
         io_bind (meter (prefix @ ''eviction_idle_duration_seconds'') (Float64Histogram (exponentialBoundaries 1 2 20))) (\<lambda>evictionIdleDuration.
         io_pure (Inr \<lparr>AcquireTotal = acquireTotal, AcquireDuration = acquireDuration, RootsGauge = rootsGauge,
           ImagePullCount = imagePullCount, ImagePrepDuration = imagePrepDuration,
           EvictionIdleDuration = evictionIdleDuration\<rparr>))))))))"

text \<open>
  \<open>podNameVar\<close> is the variable \<open>POD_NAME\<close>, \<open>hostname\<close> the result of \<open>os.Hostname\<close>;
  \<open>setProvider\<close> makes a meter provider with a periodic reader per exporter and installs it.
\<close>

record ('w, 'i, 'r, 'e) otlp =
  podNameVar :: string
  hostname :: string
  newResource :: "string \<Rightarrow> string \<Rightarrow> ('w, 'r) io"
  newExporter :: "string \<Rightarrow> ('w, 'e) io"
  setProvider :: "'e list \<Rightarrow> 'r \<Rightarrow> 'w \<Rightarrow> 'w"
  meterOf :: "string \<Rightarrow> string \<Rightarrow> instrument \<Rightarrow> ('w, 'i) io"

fun new_exporters :: "('w, 'i, 'r, 'e) otlp \<Rightarrow> string list \<Rightarrow> ('w, 'e list) io" where
  "new_exporters env [] = io_pure (Inr [])"
| "new_exporters env (endpoint # endpoints) =
     io_bind (io_wrap (Wrap ''create otlp exporter for %s: %w'' [endpoint]) (newExporter env endpoint)) (\<lambda>exporter.
       io_bind (new_exporters env endpoints) (\<lambda>rest. io_pure (Inr (exporter # rest))))"

text \<open>The second result says whether there is a shutdown function.\<close>

definition InitOTLPMetrics ::
  "('w, 'i, 'r, 'e) otlp \<Rightarrow> string \<Rightarrow> string list \<Rightarrow> ('w, 'i Metrics \<times> bool) io"
where
  "InitOTLPMetrics env appName endpoints =
     (if endpoints = [] then io_bind (newMetrics (meterOf env appName) appName) (\<lambda>m. io_pure (Inr (m, False)))
      else let podName = (if podNameVar env = '''' then hostname env else podNameVar env)
           in io_bind (io_wrap (Wrap ''create otel resource: %w'' []) (newResource env podName appName)) (\<lambda>res.
                io_bind (new_exporters env endpoints) (\<lambda>exporters w.
                  io_bind (newMetrics (meterOf env appName) appName) (\<lambda>m. io_pure (Inr (m, True)))
                    (setProvider env exporters res w))))"

section \<open>Boundaries\<close>

lemma boundary_loop_eq: "boundary_loop b factor n = map (\<lambda>i. b * factor ^ i) [0..<n]"
proof (induction n arbitrary: b)
  case (Suc n)
  have "[0..<Suc n] = 0 # map Suc [0..<n]" by (simp add: map_Suc_upt upt_conv_Cons)
  then show ?case using Suc[of "b * factor"] by (simp add: algebra_simps)
qed simp

text \<open>The library requires the boundaries of a histogram to be strictly increasing.\<close>

lemma exponential_boundaries:
  assumes "0 < start" and "1 < factor"
  shows "length (exponentialBoundaries start factor n_bounds) = n_bounds"
    and "i < n_bounds \<Longrightarrow> exponentialBoundaries start factor n_bounds ! i = start * factor ^ i"
    and "sorted_wrt (<) (exponentialBoundaries start factor n_bounds)"
  using assms
  by (auto simp: exponentialBoundaries_def boundary_loop_eq sorted_wrt_iff_nth_less power_strict_increasing)

section \<open>The instruments\<close>

text \<open>The instruments in the order in which they are made, as a specification.\<close>

definition instruments :: "string \<Rightarrow> (string \<times> instrument) list" where
  "instruments app =
     map (\<lambda>(n, i). (app @ ''_'' @ n, i))
       [(''acquire_total'', Int64Counter), (''acquire_duration_seconds'', Float64Histogram (exponentialBoundaries (1 / 1000) 2 21)),
        (''materialized_roots'', Int64UpDownCounter), (''image_pull_count'', Int64Counter),
        (''image_prep_duration_seconds'', Float64Histogram (exponentialBoundaries 1 2 11)),
        (''eviction_idle_duration_seconds'', Float64Histogram (exponentialBoundaries 1 2 20))]"

definition valid_instrument :: "instrument \<Rightarrow> bool" where
  "valid_instrument i = (case i of Float64Histogram bs \<Rightarrow> sorted_wrt (<) bs | _ \<Rightarrow> True)"

text \<open>A meter that also keeps a record of the instruments that were made.\<close>

definition recording_meter ::
  "(string \<Rightarrow> instrument \<Rightarrow> ('w, 'i) io) \<Rightarrow> string \<Rightarrow> instrument \<Rightarrow> ('w \<times> (string \<times> instrument) list, 'i) io"
where
  "recording_meter meter n i = (\<lambda>(w, made).
     case meter n i w of (Inl e, w') \<Rightarrow> (Inl e, (w', made)) | (Inr x, w') \<Rightarrow> (Inr x, (w', made @ [(n, i)])))"

lemma instruments_valid: "distinct (map fst (instruments app))" "list_all (valid_instrument \<circ> snd) (instruments app)"
  by (simp_all add: instruments_def valid_instrument_def exponential_boundaries(3))

definition made_so_far ::
  "'a res \<Rightarrow> (string \<times> instrument) list \<Rightarrow> (string \<times> instrument) list \<Rightarrow> (string \<times> instrument) list \<Rightarrow> bool"
where
  "made_so_far r made made' rest \<longleftrightarrow> (\<exists>k. made' = made @ take k rest \<and> (isl r \<or> k = length rest))"

lemma made_next:
  assumes "io_bind (recording_meter meter n i) f (w, made) = (r, (w', made'))"
    and "\<And>x w1. f x (w1, made @ [(n, i)]) = (r, (w', made')) \<Longrightarrow> made_so_far r (made @ [(n, i)]) made' rest"
  shows "made_so_far r made made' ((n, i) # rest)"
proof -
  obtain q w1 where m: "meter n i w = (q, w1)" by fastforce
  show ?thesis
  proof (cases q)
    case (Inl e)
    then show ?thesis
      using assms(1) m by (auto simp: io_bind_def recording_meter_def made_so_far_def intro: exI[of _ 0])
  next
    case (Inr x)
    then have "f x (w1, made @ [(n, i)]) = (r, (w', made'))"
      using assms(1) m by (simp add: io_bind_def recording_meter_def)
    from assms(2)[OF this] obtain k where "made' = made @ (n, i) # take k rest" "isl r \<or> k = length rest"
      by (auto simp: made_so_far_def)
    then show ?thesis by (auto simp: made_so_far_def intro!: exI[of _ "Suc k"])
  qed
qed

text \<open>
  When the metrics are made, all six instruments were registered, once each and under different
  names, every histogram with increasing boundaries; when an instrument is refused, the error is
  returned and only those before it were registered.
\<close>

theorem metrics_registered:
  assumes "newMetrics (recording_meter meter) app (w, []) = (r, (w', made))"
  shows "(\<exists>k. made = take k (instruments app)) \<and> (\<not> isl r \<longrightarrow> made = instruments app)
    \<and> distinct (map fst made) \<and> list_all (valid_instrument \<circ> snd) made"
proof -
  have "made_so_far r [] made (instruments app)"
    using assms unfolding newMetrics_def Let_def instruments_def
    by (simp only: list.map prod.case append_assoc) (elim made_next, simp add: made_so_far_def)
  then obtain k where k: "made = take k (instruments app)" "isl r \<or> k = length (instruments app)"
    by (auto simp: made_so_far_def)
  moreover have "distinct (map fst made)"
    unfolding k(1) take_map[symmetric] using instruments_valid(1) by (rule distinct_take)
  moreover have "list_all (valid_instrument \<circ> snd) made"
    using instruments_valid(2)[of app] unfolding k(1) list_all_iff by (meson in_set_takeD)
  ultimately show ?thesis by auto
qed

section \<open>The providers\<close>

text \<open>Without endpoints nothing but the instruments is made; with endpoints there is one exporter for each.\<close>

lemma new_exporters_length: "new_exporters env es w = (Inr xs, w') \<Longrightarrow> length xs = length es"
  by (induction es arbitrary: w xs) (auto elim!: io_bind_InrE)

lemma InitOTLPMetrics_shutdown: "InitOTLPMetrics env app es w = (Inr (m, sd), w') \<Longrightarrow> sd = (es \<noteq> [])"
  by (auto simp: InitOTLPMetrics_def Let_def elim!: io_bind_InrE split: if_splits)

end
