(* ===== verification/Fetcher_Main.thy ===== *)
theory Fetcher_Main
  imports Root_Fetcher Logging Fetcher_Metrics
begin

text \<open>
  \<open>main\<close> of \<open>src/cmd/bb_docker_root_fetcher/main.go\<close>: the order in which the program reads its
  configuration, sets up logging and metrics, wipes the roots directory, makes the server, starts
  prefetching, listens and serves, with the deferred calls on every way out. The accept loop
  itself (\<open>serve\<close>) is the step relation of \<open>Fetcher_Shutdown\<close>; here it is a call.
\<close>

section \<open>Definitions\<close>

record fetcher_app_config = fetcher_config +
  OtlpCollectorEndpoints :: "string list"
  SocketPath :: string

record ('w, 'i, 'r, 'e, 'l) fetcher_env =
  fm_args :: "string list"
  fm_getenv :: "string \<Rightarrow> string"
  fm_setLogger :: "int \<Rightarrow> 'w \<Rightarrow> 'w"
  fm_readConfig :: "string \<Rightarrow> ('w, fetcher_app_config) io"
  fm_applyGlobal :: "fetcher_app_config \<Rightarrow> ('w, unit) io"
  fm_otlp :: "('w, 'i, 'r, 'e) otlp"
  fm_shutdownMetrics :: "'w \<Rightarrow> 'w"
  fm_removeAll :: "string \<Rightarrow> ('w, unit) io"
  fm_mkdirAll :: "string \<Rightarrow> ('w, unit) io"
  fm_credentials :: "string \<Rightarrow> (string, string \<times> string) gomap res"
  fm_prefetch :: "Server \<Rightarrow> 'w \<Rightarrow> 'w"
  fm_remove :: "string \<Rightarrow> ('w, unit) io"
  fm_listen :: "string \<Rightarrow> ('w, 'l) io"
  fm_chmod :: "string \<Rightarrow> nat \<Rightarrow> ('w, unit) io"
  fm_closeListener :: "'l \<Rightarrow> 'w \<Rightarrow> 'w"
  fm_serve :: "ImagePuller \<Rightarrow> UnixUser \<Rightarrow> Server \<Rightarrow> 'l \<Rightarrow> ('w, unit) io"

text \<open>The socket and the accept loop; the listener is closed when the loop returns.\<close>

definition listen_and_serve ::
  "('w, 'i, 'r, 'e, 'l) fetcher_env \<Rightarrow> string \<Rightarrow> (ImagePuller \<times> UnixUser \<times> Server) \<Rightarrow> ('w, unit) io"
where
  "listen_and_serve env socketPath = (\<lambda>(puller, user, server) w.
     case listenUnixSocket (fm_remove env) (fm_listen env) (fm_chmod env) (fm_closeListener env) socketPath
            (fm_prefetch env server w) of
       (Inl e, w1) \<Rightarrow> (Inl e, w1)
     | (Inr listener, w1) \<Rightarrow>
         (case fm_serve env puller user server listener w1 of (r, w2) \<Rightarrow> (r, fm_closeListener env listener w2)))"

text \<open>Everything after the metrics; when there is a shutdown function, it is deferred.\<close>

definition run_with_metrics ::
  "('w, 'i, 'r, 'e, 'l) fetcher_env \<Rightarrow> fetcher_app_config \<Rightarrow> bool \<Rightarrow> ('w, unit) io"
where
  "run_with_metrics env config hasShutdown w =
     (case io_bind (start_fetcher (fm_removeAll env) (fm_mkdirAll env) (fm_credentials env) (fetcher_config.truncate config))
             (listen_and_serve env (SocketPath config)) w of
        (r, w1) \<Rightarrow> (r, if hasShutdown then fm_shutdownMetrics env w1 else w1))"

definition fetcher_main :: "('w, 'i, 'r, 'e, 'l) fetcher_env \<Rightarrow> ('w, unit) io" where
  "fetcher_main env =
     io_bind (io_wrap (WrapWithCode InvalidArgument ''Failed to configure logging'' []) (Configure (fm_getenv env) (fm_setLogger env))) (\<lambda>_.
       if length (fm_args env) \<noteq> 2
       then io_pure (Inl (Errorf InvalidArgument ''Usage: docker_root_fetcher config.jsonnet'' []))
       else io_bind (io_wrap (Wrap ''Failed to read configuration from %s'' [fm_args env ! 1]) (fm_readConfig env (fm_args env ! 1))) (\<lambda>config.
         io_bind (io_wrap (Wrap ''Failed to apply global configuration options'' []) (fm_applyGlobal env config)) (\<lambda>_.
           io_bind (io_wrap (Wrap ''Failed to initialize metrics'' [])
                      (InitOTLPMetrics (fm_otlp env) ''docker_root_fetcher'' (OtlpCollectorEndpoints config))) (\<lambda>(metrics, hasShutdown).
             run_with_metrics env config hasShutdown))))"

section \<open>What the program leaves behind\<close>

text \<open>
  What is observed of the world: the open listeners, whether a meter provider is installed, and
  the paths that were removed recursively.
\<close>

record ('w, 'l) fetcher_obs =
  listeners :: "'w \<Rightarrow> 'l set"
  provider :: "'w \<Rightarrow> bool"
  wiped :: "'w \<Rightarrow> string list"

definition same :: "('w, 'l) fetcher_obs \<Rightarrow> 'w \<Rightarrow> 'w \<Rightarrow> bool" where
  "same b w w' \<longleftrightarrow> listeners b w' = listeners b w \<and> provider b w' = provider b w \<and> wiped b w' = wiped b w"

definition quiet :: "('w, 'l) fetcher_obs \<Rightarrow> ('w, 'a) io \<Rightarrow> bool" where
  "quiet b m \<longleftrightarrow> (\<forall>w. same b w (snd (m w)))"

definition socket_laws :: "('w, 'i, 'r, 'e, 'l) fetcher_env \<Rightarrow> ('w, 'l) fetcher_obs \<Rightarrow> bool" where
  "socket_laws env b \<longleftrightarrow>
     (\<forall>p w l w'. fm_listen env p w = (Inr l, w') \<longrightarrow>
        listeners b w' = insert l (listeners b w) \<and> l \<notin> listeners b w \<and> provider b w' = provider b w \<and> wiped b w' = wiped b w)
   \<and> (\<forall>p w e w'. fm_listen env p w = (Inl e, w') \<longrightarrow> same b w w')
   \<and> (\<forall>l w. listeners b (fm_closeListener env l w) = listeners b w - {l}
        \<and> provider b (fm_closeListener env l w) = provider b w \<and> wiped b (fm_closeListener env l w) = wiped b w)
   \<and> (\<forall>p. quiet b (fm_remove env p)) \<and> (\<forall>p n. quiet b (fm_chmod env p n))
   \<and> (\<forall>p u s l. quiet b (fm_serve env p u s l)) \<and> (\<forall>s w. same b w (fm_prefetch env s w))"

definition otlp_laws :: "('w, 'i, 'r, 'e) otlp \<Rightarrow> ('w, 'l) fetcher_obs \<Rightarrow> bool" where
  "otlp_laws t b \<longleftrightarrow> (\<forall>p a. quiet b (newResource t p a)) \<and> (\<forall>p. quiet b (newExporter t p))
   \<and> (\<forall>a n i. quiet b (meterOf t a n i))
   \<and> (\<forall>es r w. provider b (setProvider t es r w) \<and> listeners b (setProvider t es r w) = listeners b w
        \<and> wiped b (setProvider t es r w) = wiped b w)"

definition fetcher_laws :: "('w, 'i, 'r, 'e, 'l) fetcher_env \<Rightarrow> ('w, 'l) fetcher_obs \<Rightarrow> bool" where
  "fetcher_laws env b \<longleftrightarrow> socket_laws env b \<and> otlp_laws (fm_otlp env) b
   \<and> (\<forall>l w. same b w (fm_setLogger env l w)) \<and> (\<forall>p. quiet b (fm_readConfig env p))
   \<and> (\<forall>c. quiet b (fm_applyGlobal env c)) \<and> (\<forall>p. quiet b (fm_mkdirAll env p))
   \<and> (\<forall>w. \<not> provider b (fm_shutdownMetrics env w) \<and> listeners b (fm_shutdownMetrics env w) = listeners b w
        \<and> wiped b (fm_shutdownMetrics env w) = wiped b w)
   \<and> (\<forall>p w. wiped b (snd (fm_removeAll env p w)) = wiped b w @ [p]
        \<and> listeners b (snd (fm_removeAll env p w)) = listeners b w \<and> provider b (snd (fm_removeAll env p w)) = provider b w)"

lemma same_trans [trans]: "same b w1 w2 \<Longrightarrow> same b w2 w3 \<Longrightarrow> same b w1 w3"
  by (simp add: same_def)

lemma same_refl [simp]: "same b w w"
  by (simp add: same_def)

lemma quietD: "quiet b m \<Longrightarrow> m w = (r, w') \<Longrightarrow> same b w w'"
  unfolding quiet_def by (metis snd_conv)

lemma quiet_pure [simp]: "quiet b (io_pure r)"
  by (simp add: quiet_def)

lemma quiet_wrap [simp]: "quiet b (io_wrap f m) = quiet b m"
  by (simp add: quiet_def io_wrap_def case_prod_unfold)

lemma quiet_bind [intro]:
  assumes "quiet b m" and "\<And>x. quiet b (f x)"
  shows "quiet b (io_bind m f)"
  unfolding quiet_def
proof
  fix w
  obtain r w1 where m: "m w = (r, w1)" by fastforce
  then show "same b w (snd (io_bind m f w))"
    using quietD[OF assms(1) m] assms(2) same_trans[of b w w1]
    by (cases r) (auto simp: io_bind_def quiet_def)
qed

lemma same_fields:
  "same b w w' \<Longrightarrow> listeners b w' = listeners b w" "same b w w' \<Longrightarrow> provider b w' = provider b w"
  "same b w w' \<Longrightarrow> wiped b w' = wiped b w"
  by (simp_all add: same_def)

lemma ignore_err_same: "quiet b m \<Longrightarrow> same b w (ignore_err m w)"
  by (simp add: quiet_def ignore_err_def)

lemma socket_lawsD:
  assumes "socket_laws env b"
  shows "fm_listen env p w = (Inr l, w') \<Longrightarrow> listeners b w' = insert l (listeners b w) \<and> l \<notin> listeners b w
      \<and> provider b w' = provider b w \<and> wiped b w' = wiped b w"
    and "fm_listen env p w = (Inl e, w') \<Longrightarrow> same b w w'"
    and "listeners b (fm_closeListener env l w) = listeners b w - {l}"
    and "provider b (fm_closeListener env l w) = provider b w" and "wiped b (fm_closeListener env l w) = wiped b w"
    and "quiet b (fm_remove env p)" and "quiet b (fm_chmod env p n)" and "quiet b (fm_serve env pu u s l)"
    and "same b w (fm_prefetch env s w)"
  using assms unfolding socket_laws_def by simp_all

lemma listenUnixSocket_obs:
  assumes "socket_laws env b"
    and "listenUnixSocket (fm_remove env) (fm_listen env) (fm_chmod env) (fm_closeListener env) p w = (r, w')"
  shows "case r of Inl e \<Rightarrow> same b w w'
    | Inr l \<Rightarrow> listeners b w' = insert l (listeners b w) \<and> l \<notin> listeners b w \<and> provider b w' = provider b w \<and> wiped b w' = wiped b w"
proof -
  note L = socket_lawsD[OF assms(1)]
  let ?w0 = "ignore_err (fm_remove env p) w"
  have w0: "same b w ?w0" by (rule ignore_err_same[OF L(6)])
  obtain q w1 where listen: "fm_listen env p ?w0 = (q, w1)" by fastforce
  obtain c w2 where ch: "fm_chmod env p 0x1B0 w1 = (c, w2)" by fastforce
  have w2: "same b w1 w2" by (rule quietD[OF L(7) ch])
  show ?thesis
  proof (cases q)
    case (Inl e)
    then show ?thesis
      using assms(2) listen L(2)[OF listen[unfolded Inl]] w0 same_trans
      by (auto simp: listenUnixSocket_def)
  next
    case (Inr l)
    note one = L(1)[OF listen[unfolded Inr]]
    have rm: "same b x (ignore_err (fm_remove env p) x)" for x by (rule ignore_err_same[OF L(6)])
    have closed: "same b w (ignore_err (fm_remove env p) (fm_closeListener env l w2))"
      using rm[of "fm_closeListener env l w2"] L(3-5)[of l w2] one w0 w2 by (simp add: same_def)
    show ?thesis
      using assms(2) listen Inr ch one w0 w2 closed
      by (cases c) (auto simp: listenUnixSocket_def same_def)
  qed
qed

lemma listen_and_serve_same:
  assumes "socket_laws env b"
  shows "same b w (snd (listen_and_serve env p x w))"
proof -
  note L = socket_lawsD[OF assms]
  obtain puller user server where x: "x = (puller, user, server)" by (cases x)
  let ?w0 = "fm_prefetch env server w"
  obtain q w1 where listen: "listenUnixSocket (fm_remove env) (fm_listen env) (fm_chmod env) (fm_closeListener env) p ?w0 = (q, w1)"
    by fastforce
  note obs = listenUnixSocket_obs[OF assms listen]
  show ?thesis
  proof (cases q)
    case (Inl e)
    then show ?thesis using obs listen L(9)[of w server] same_trans by (auto simp: listen_and_serve_def x)
  next
    case (Inr l)
    obtain r w2 where serve: "fm_serve env puller user server l w1 = (r, w2)" by fastforce
    have "same b w1 w2" by (rule quietD[OF L(8) serve])
    then show ?thesis
      using obs listen Inr serve L(9)[of w server] L(3-5)[of l w2] by (auto simp: listen_and_serve_def x same_def)
  qed
qed

lemma fetcher_lawsD:
  assumes "fetcher_laws env b"
  shows "socket_laws env b" and "otlp_laws (fm_otlp env) b" and "same b w (fm_setLogger env l w)"
    and "quiet b (fm_readConfig env p)" and "quiet b (fm_applyGlobal env c)" and "quiet b (fm_mkdirAll env p)"
    and "\<not> provider b (fm_shutdownMetrics env w)" and "listeners b (fm_shutdownMetrics env w) = listeners b w"
    and "wiped b (fm_shutdownMetrics env w) = wiped b w"
    and "wiped b (snd (fm_removeAll env p w)) = wiped b w @ [p]"
    and "listeners b (snd (fm_removeAll env p w)) = listeners b w"
    and "provider b (snd (fm_removeAll env p w)) = provider b w"
  using assms unfolding fetcher_laws_def by simp_all

text \<open>Wiping the roots directory is the only recursive removal, and it is refused for a silly path.\<close>

definition wiped_once :: "('w, 'l) fetcher_obs \<Rightarrow> string \<Rightarrow> 'w \<Rightarrow> 'w \<Rightarrow> bool" where
  "wiped_once b path w w' \<longleftrightarrow> clean path \<notin> {''/'', ''.''}
     \<and> listeners b w' = listeners b w \<and> provider b w' = provider b w \<and> wiped b w' = wiped b w @ [path]"

lemma wiped_once_same: "wiped_once b p w w1 \<Longrightarrow> same b w1 w2 \<Longrightarrow> wiped_once b p w w2"
  by (simp add: wiped_once_def same_def)

lemma prepare_roots_obs:
  assumes "fetcher_laws env b" and "prepare_roots (fm_removeAll env) (fm_mkdirAll env) path w = (r, w')"
  shows "isl r \<and> same b w w' \<or> wiped_once b path w w'"
proof (cases "clean path \<in> {''/'', ''.''}")
  case True
  then show ?thesis using assms(2) by (auto simp: prepare_roots_def Let_def)
next
  case False
  note L = fetcher_lawsD[OF assms(1)]
  obtain q w1 where rm: "fm_removeAll env path w = (q, w1)" by fastforce
  have one: "wiped_once b path w w1" using L(10-12)[of path w] rm False by (simp add: wiped_once_def)
  obtain m w2 where mk: "fm_mkdirAll env path w1 = (m, w2)" by fastforce
  have "same b w1 w2" by (rule quietD[OF L(6) mk])
  then have "wiped_once b path w w2" using wiped_once_same[OF one] by blast
  then show ?thesis
    using assms(2) False rm mk one by (cases q) (auto simp: prepare_roots_def io_bind_def io_wrap_def Let_def)
qed

lemma run_body_obs:
  assumes "fetcher_laws env b"
    and "io_bind (start_fetcher (fm_removeAll env) (fm_mkdirAll env) (fm_credentials env) config) (listen_and_serve env p) w = (r, w')"
  shows "same b w w' \<and> isl r \<or> wiped_once b (RootsDirectoryPath config) w w' \<and> (isl r \<or> (\<exists>x. fetcher_settings (fm_credentials env) [] config = Inr x))"
proof -
  note L = fetcher_lawsD[OF assms(1)]
  let ?path = "RootsDirectoryPath config"
  obtain q w1 where prep: "prepare_roots (fm_removeAll env) (fm_mkdirAll env) ?path w = (q, w1)" by fastforce
  note obs = prepare_roots_obs[OF assms(1) prep]
  show ?thesis
  proof (cases "isl q \<or> isl (fetcher_settings (fm_credentials env) [] config)")
    case True
    then show ?thesis
      using assms(2) prep obs
      by (cases q; cases "fetcher_settings (fm_credentials env) [] config") (auto simp: start_fetcher_def io_bind_def)
  next
    case False
    then obtain x where x: "q = Inr ()" "fetcher_settings (fm_credentials env) [] config = Inr x"
      by (cases q; cases "fetcher_settings (fm_credentials env) [] config") auto
    then have "w' = snd (listen_and_serve env p x w1)"
      using assms(2) prep by (auto simp: start_fetcher_def io_bind_def)
    then have "same b w1 w'" using listen_and_serve_same[OF L(1)] by metis
    then show ?thesis using obs x wiped_once_same by fastforce
  qed
qed

lemma InitOTLPMetrics_obs:
  assumes "otlp_laws t b" and "InitOTLPMetrics t app es w = (r, w')"
  shows "listeners b w' = listeners b w" and "wiped b w' = wiped b w"
    and "\<not> provider b w \<Longrightarrow> provider b w' \<Longrightarrow> es \<noteq> []"
proof -
  have q: "quiet b (newResource t p a)" "quiet b (newExporter t p)" "quiet b (meterOf t a n i)" for p a n i
    using assms(1) unfolding otlp_laws_def by simp_all
  have set: "listeners b (setProvider t xs res x) = listeners b x" "wiped b (setProvider t xs res x) = wiped b x" for xs res x
    using assms(1) unfolding otlp_laws_def by simp_all
  have new: "quiet b (io_bind (newMetrics (meterOf t app) app) (\<lambda>m. io_pure (Inr (m, x))))" for x :: bool
    unfolding newMetrics_def Let_def using q(3) by (intro quiet_bind) simp_all
  have exps: "quiet b (new_exporters t xs)" for xs
    by (induction xs) (auto intro!: quiet_bind simp: q(2))
  have "listeners b w' = listeners b w \<and> wiped b w' = wiped b w \<and> (\<not> provider b w \<longrightarrow> provider b w' \<longrightarrow> es \<noteq> [])"
  proof (cases "es = []")
    case True
    then show ?thesis using assms(2) quietD[OF new] by (auto simp: InitOTLPMetrics_def same_def)
  next
    case False
    let ?pod = "if podNameVar t = '''' then hostname t else podNameVar t"
    obtain a w1 where res: "newResource t ?pod app w = (a, w1)" by fastforce
    obtain c w2 where ex: "new_exporters t es w1 = (c, w2)" by fastforce
    have w1: "same b w w1" by (rule quietD[OF q(1) res])
    have w2: "same b w w2" by (rule same_trans[OF w1 quietD[OF exps ex]])
    show ?thesis
    proof (cases "isl a \<or> isl c")
      case True
      then show ?thesis
        using assms(2) False res ex w1 w2
        by (cases a; cases c) (auto simp: InitOTLPMetrics_def Let_def io_bind_def io_wrap_def same_def)
    next
      case ok: False
      then obtain x xs where ac: "a = Inr x" "c = Inr xs" by (cases a; cases c) auto
      have "(r, w') = io_bind (newMetrics (meterOf t app) app) (\<lambda>m. io_pure (Inr (m, True))) (setProvider t xs x w2)"
        using assms(2) False res ex ac by (simp add: InitOTLPMetrics_def Let_def io_bind_def io_wrap_def)
      then have "same b (setProvider t xs x w2) w'" using quietD[OF new] by metis
      then show ?thesis using set w2 False by (simp add: same_def)
    qed
  qed
  then show "listeners b w' = listeners b w" "wiped b w' = wiped b w" "\<not> provider b w \<Longrightarrow> provider b w' \<Longrightarrow> es \<noteq> []" by auto
qed

lemma run_with_metrics_obs:
  assumes "fetcher_laws env b" and "run_with_metrics env config sd w = (r, w')"
    and "provider b w \<Longrightarrow> sd"
  shows "listeners b w' = listeners b w \<and> \<not> provider b w'
    \<and> (isl r \<and> wiped b w' = wiped b w
       \<or> clean (RootsDirectoryPath config) \<notin> {''/'', ''.''} \<and> wiped b w' = wiped b w @ [RootsDirectoryPath config]
         \<and> (isl r \<or> (\<exists>x. fetcher_settings (fm_credentials env) [] (fetcher_config.truncate config) = Inr x)))"
proof -
  let ?c = "fetcher_config.truncate config"
  obtain q w1 where body: "io_bind (start_fetcher (fm_removeAll env) (fm_mkdirAll env) (fm_credentials env) ?c)
      (listen_and_serve env (SocketPath config)) w = (q, w1)" by fastforce
  then have "r = q" "w' = (if sd then fm_shutdownMetrics env w1 else w1)"
    using assms(2) by (auto simp: run_with_metrics_def)
  then show ?thesis
    using run_body_obs[OF assms(1) body] assms(3) fetcher_lawsD(7-9)[OF assms(1), of w1]
    by (auto simp: same_def wiped_once_def fetcher_config.truncate_def)
qed

section \<open>Properties\<close>


text \<open>
  A machine whose state is the list of the open listeners, the provider and the list of the wiped
  paths, and on which everything succeeds.
\<close>

type_synonym demo_host = "string list \<times> bool \<times> string list"

definition demo_host_obs :: "(demo_host, string) fetcher_obs" where
  "demo_host_obs = \<lparr>listeners = (\<lambda>(ls, p, ws). set ls), provider = (\<lambda>(ls, p, ws). p), wiped = (\<lambda>(ls, p, ws). ws)\<rparr>"

definition demo_fetcher_env :: "string \<Rightarrow> (demo_host, unit, unit, unit, string) fetcher_env" where
  "demo_fetcher_env path = \<lparr>fm_args = [''fetcher'', ''config''], fm_getenv = (\<lambda>_. ''warn''), fm_setLogger = (\<lambda>_ w. w),
     fm_readConfig = (\<lambda>_. Pair (Inr (fetcher_config.extend (demo_fetcher_config path)
       (fetcher_app_config.fields [''collector:4317''] ''/run/fetcher.sock'')))),
     fm_applyGlobal = (\<lambda>_. Pair (Inr ())),
     fm_otlp = \<lparr>podNameVar = '''', hostname = ''host'', newResource = (\<lambda>_ _. Pair (Inr ())), newExporter = (\<lambda>_. Pair (Inr ())),
       setProvider = (\<lambda>_ _ (ls, p, ws). (ls, True, ws)), meterOf = (\<lambda>_ _ _. Pair (Inr ()))\<rparr>,
     fm_shutdownMetrics = (\<lambda>(ls, p, ws). (ls, False, ws)),
     fm_removeAll = (\<lambda>path (ls, p, ws). (Inr (), (ls, p, ws @ [path]))), fm_mkdirAll = (\<lambda>_. Pair (Inr ())),
     fm_credentials = (\<lambda>_. Inr []), fm_prefetch = (\<lambda>_ w. w), fm_remove = (\<lambda>_. Pair (Inr ())),
     fm_listen = (\<lambda>path (ls, p, ws). if path \<in> set ls then (Inl (Errorf Unknown ''address already in use'' []), (ls, p, ws))
       else (Inr path, (path # ls, p, ws))),
     fm_chmod = (\<lambda>_ _. Pair (Inr ())), fm_closeListener = (\<lambda>l (ls, p, ws). (removeAll l ls, p, ws)),
     fm_serve = (\<lambda>_ _ _ _. Pair (Inr ()))\<rparr>"

lemma demo_fetcher_laws: "fetcher_laws (demo_fetcher_env path) demo_host_obs"
proof -
  have "socket_laws (demo_fetcher_env path) demo_host_obs"
    by (auto simp: socket_laws_def demo_fetcher_env_def demo_host_obs_def quiet_def same_def split: if_splits)
  moreover have "otlp_laws (fm_otlp (demo_fetcher_env path)) demo_host_obs"
    by (auto simp: otlp_laws_def demo_fetcher_env_def demo_host_obs_def quiet_def same_def)
  ultimately show ?thesis
    by (auto simp: fetcher_laws_def demo_fetcher_env_def demo_host_obs_def quiet_def same_def)
qed


end
