(* ===== verification/Fetcher_Shutdown.thy ===== *)
theory Fetcher_Shutdown
  imports Prelude
begin

text \<open>
  The accept loop of \<open>src/cmd/bb_docker_root_fetcher/main.go\<close> and the goroutine that closes the
  listener when the program is asked to stop, as a step relation: the main goroutine accepts
  connections, every connection runs in a goroutine of its own, and the closing goroutine polls the
  counter of running connections.
\<close>

section \<open>Definitions\<close>

datatype closer = Waiting | SawZero | Closed

text \<open>
  \<open>late\<close> counts the connections that were accepted after the closing goroutine had seen the
  counter at zero; the program does not have it. \<open>returned\<close> is the result of the accept loop.
\<close>

record accept_state =
  cancelled :: bool
  inFlight :: nat
  closer :: closer
  late :: nat
  returned :: "unit res option"

definition accept_start :: accept_state where
  "accept_start = \<lparr>cancelled = False, inFlight = 0, closer = Waiting, late = 0, returned = None\<rparr>"

definition accept_error :: go_error where
  "accept_error = Errorf Unknown ''use of closed network connection'' []"

inductive accept_step :: "accept_state \<Rightarrow> accept_state \<Rightarrow> bool" where
  cancel: "accept_step s (s\<lparr>cancelled := True\<rparr>)"
| accept: "closer s \<noteq> Closed \<Longrightarrow> returned s = None \<Longrightarrow>
    accept_step s (s\<lparr>inFlight := Suc (inFlight s), late := (if closer s = Waiting then late s else Suc (late s))\<rparr>)"
| finish_connection: "inFlight s = Suc n \<Longrightarrow> accept_step s (s\<lparr>inFlight := n\<rparr>)"
| poll_busy: "cancelled s \<Longrightarrow> closer s = Waiting \<Longrightarrow> 0 < inFlight s \<Longrightarrow> accept_step s s"
| poll_idle: "cancelled s \<Longrightarrow> closer s = Waiting \<Longrightarrow> inFlight s = 0 \<Longrightarrow> accept_step s (s\<lparr>closer := SawZero\<rparr>)"
| close_listener: "closer s = SawZero \<Longrightarrow> accept_step s (s\<lparr>closer := Closed\<rparr>)"
| accept_closed: "closer s = Closed \<Longrightarrow> returned s = None \<Longrightarrow>
    accept_step s (s\<lparr>returned := Some (if cancelled s then Inr () else Inl accept_error)\<rparr>)"
| accept_fails: "returned s = None \<Longrightarrow>
    accept_step s (s\<lparr>returned := Some (if cancelled s then Inr () else Inl e)\<rparr>)"

inductive_cases accept_stepE: "accept_step s s'"

section \<open>The invariant\<close>

definition accept_ok :: "accept_state \<Rightarrow> bool" where
  "accept_ok s \<longleftrightarrow> (closer s \<noteq> Waiting \<longrightarrow> cancelled s \<and> inFlight s \<le> late s)
     \<and> (returned s = Some (Inr ()) \<longrightarrow> cancelled s)"

lemma accept_step_ok: "accept_step s s' \<Longrightarrow> accept_ok s \<Longrightarrow> accept_ok s'"
  by (erule accept_step.cases) (auto simp: accept_ok_def)

lemma accept_reachable_ok: "accept_step\<^sup>*\<^sup>* accept_start s \<Longrightarrow> accept_ok s"
proof (induction rule: rtranclp_induct)
  case base
  show ?case by (simp add: accept_ok_def accept_start_def)
next
  case (step s s')
  then show ?case using accept_step_ok by blast
qed

section \<open>Properties\<close>

text \<open>
  In every reachable state the listener is closed only after the program was asked to stop and
  the counter of connections had reached zero: the connections still running then are connections
  that were accepted between that observation and the closing of the listener. The accept loop
  ends without an error only after the program was asked to stop.
\<close>

theorem shutdown_waits_for_connections:
  assumes "accept_step\<^sup>*\<^sup>* accept_start s"
  shows "(closer s = Closed \<longrightarrow> cancelled s \<and> inFlight s \<le> late s) \<and> (returned s = Some (Inr ()) \<longrightarrow> cancelled s)"
  using accept_reachable_ok[OF assms] by (auto simp: accept_ok_def)

text \<open>A run in which a connection arrives between the observation and the closing.\<close>

definition late_run :: "accept_state list" where
  "late_run =
     (let s1 = accept_start\<lparr>cancelled := True\<rparr>; s2 = s1\<lparr>closer := SawZero\<rparr>;
          s3 = s2\<lparr>inFlight := 1, late := 1\<rparr>; s4 = s3\<lparr>closer := Closed\<rparr>;
          s5 = s4\<lparr>returned := Some (Inr ())\<rparr>
      in [s1, s2, s3, s4, s5])"

lemma late_run_reachable: "accept_step\<^sup>*\<^sup>* accept_start (last late_run)"
proof -
  let ?s1 = "accept_start\<lparr>cancelled := True\<rparr>"
  let ?s2 = "?s1\<lparr>closer := SawZero\<rparr>"
  let ?s3 = "?s2\<lparr>inFlight := Suc (inFlight ?s2), late := (if closer ?s2 = Waiting then late ?s2 else Suc (late ?s2))\<rparr>"
  let ?s4 = "?s3\<lparr>closer := Closed\<rparr>"
  let ?s5 = "?s4\<lparr>returned := Some (if cancelled ?s4 then Inr () else Inl accept_error)\<rparr>"
  have "accept_step accept_start ?s1" by (rule accept_step.cancel)
  moreover have "accept_step ?s1 ?s2" by (rule accept_step.poll_idle) (simp_all add: accept_start_def)
  moreover have "accept_step ?s2 ?s3" by (rule accept_step.accept) (simp_all add: accept_start_def)
  moreover have "accept_step ?s3 ?s4" by (rule accept_step.close_listener) simp
  moreover have "accept_step ?s4 ?s5" by (rule accept_step.accept_closed) (simp_all add: accept_start_def)
  ultimately have "accept_step\<^sup>*\<^sup>* accept_start ?s5"
    by (meson converse_rtranclp_into_rtranclp rtranclp.rtrancl_refl)
  then show ?thesis by (simp add: late_run_def accept_start_def Let_def)
qed

theorem shutdown_waits_for_connections_witness:
  "cancelled (last late_run) \<and> inFlight (last late_run) \<le> late (last late_run)"
proof -
  have "closer (last late_run) = Closed" by (simp add: late_run_def Let_def)
  then show ?thesis using shutdown_waits_for_connections[OF late_run_reachable] by blast
qed

text \<open>
  The accept loop can end while a connection is still being served: one that was accepted
  after the counter was read and before the listener was closed.
\<close>

theorem shutdown_can_drop_connection:
  "accept_step\<^sup>*\<^sup>* accept_start (last late_run) \<and> returned (last late_run) = Some (Inr ()) \<and> inFlight (last late_run) = 1"
  using late_run_reachable by (simp add: late_run_def Let_def)

end
