(* ===== verification/Chroot_Helper.thy ===== *)
theory Chroot_Helper
  imports Host_FS Pipeline_State "HOL-Library.Word"
begin

unbundle bit_operations_syntax

text \<open>
  \<open>src/cmd/bb_chroot_helper_privileged/main.go\<close>: the helper that runs the command of an action in
  a chroot. It runs as root; the model of the process has the parts of the kernel's state that
  its system calls change, and the rule of the kernel that only root may choose its user and group
  freely. Every system call may also fail for reasons of its own, given by the parameter
  \<open>deny\<close>.
\<close>

section \<open>Definitions\<close>

definition buildUser :: string where
  "buildUser = ''build''"

record userCredentials =
  cred_uid :: int
  cred_gid :: int

record mountPoint =
  mp_source :: string
  mp_target :: string
  mp_fstype :: string
  mp_flags :: "64 word"
  mp_mode :: nat

datatype syscall =
    SysUnshare | SysMakePrivate | SysMount string | SysChroot string | SysChdir string
  | SysSetgroups | SysSetgid | SysSetuid | SysExec string

record process =
  pr_fs :: host_fs
  unshared :: bool
  mountsPrivate :: bool
  mounts :: "(mountPoint \<times> string) list"
  rootDir :: string
  workDir :: string
  groups :: "int list"
  gid :: int
  uid :: int
  executed :: "string list option"

type_synonym kernel = "syscall \<Rightarrow> go_error option"

definition EPERM :: go_error where
  "EPERM = Errorf Unknown ''operation not permitted'' []"

definition on_fs :: "(host_fs, 'a) io \<Rightarrow> (process, 'a) io" where
  "on_fs m s = (case m (pr_fs s) of (r, f) \<Rightarrow> (r, s\<lparr>pr_fs := f\<rparr>))"

definition sys :: "kernel \<Rightarrow> syscall \<Rightarrow> (process \<Rightarrow> process) \<Rightarrow> (process, unit) io" where
  "sys deny call effect s = (case deny call of Some e \<Rightarrow> (Inl e, s) | None \<Rightarrow> (Inr (), effect s))"

definition Unshare :: "kernel \<Rightarrow> (process, unit) io" where
  "Unshare deny = sys deny SysUnshare (\<lambda>s. s\<lparr>unshared := True\<rparr>)"

definition MakePrivate :: "kernel \<Rightarrow> (process, unit) io" where
  "MakePrivate deny = sys deny SysMakePrivate (\<lambda>s. s\<lparr>mountsPrivate := True\<rparr>)"

definition Mount :: "kernel \<Rightarrow> mountPoint \<Rightarrow> string \<Rightarrow> (process, unit) io" where
  "Mount deny m target = sys deny (SysMount target) (\<lambda>s. s\<lparr>mounts := mounts s @ [(m, target)]\<rparr>)"

definition Chroot :: "kernel \<Rightarrow> string \<Rightarrow> (process, unit) io" where
  "Chroot deny dir = sys deny (SysChroot dir) (\<lambda>s. s\<lparr>rootDir := dir\<rparr>)"

definition Chdir :: "kernel \<Rightarrow> string \<Rightarrow> (process, unit) io" where
  "Chdir deny dir = sys deny (SysChdir dir) (\<lambda>s. s\<lparr>workDir := dir\<rparr>)"

text \<open>Without root's privileges a process may not choose its groups, nor another group or user.\<close>

definition Setgroups :: "kernel \<Rightarrow> int list \<Rightarrow> (process, unit) io" where
  "Setgroups deny gs s = (if uid s \<noteq> 0 then (Inl EPERM, s) else sys deny SysSetgroups (\<lambda>s. s\<lparr>groups := gs\<rparr>) s)"

definition Setgid :: "kernel \<Rightarrow> int \<Rightarrow> (process, unit) io" where
  "Setgid deny g s =
     (if uid s \<noteq> 0 \<and> g \<noteq> gid s then (Inl EPERM, s) else sys deny SysSetgid (\<lambda>s. s\<lparr>gid := g\<rparr>) s)"

definition Setuid :: "kernel \<Rightarrow> int \<Rightarrow> (process, unit) io" where
  "Setuid deny u s =
     (if uid s \<noteq> 0 \<and> u \<noteq> uid s then (Inl EPERM, s) else sys deny SysSetuid (\<lambda>s. s\<lparr>uid := u\<rparr>) s)"

text \<open>\<open>syscall.Exec\<close> replaces the program; it returns only when it fails.\<close>

definition Exec :: "kernel \<Rightarrow> string list \<Rightarrow> (process, unit) io" where
  "Exec deny args = sys deny (SysExec (hd args)) (\<lambda>s. s\<lparr>executed := Some args\<rparr>)"

fun split_chroot_parts :: "string list \<Rightarrow> string list \<Rightarrow> (string list \<times> string list) option" where
  "split_chroot_parts pre [] = None"
| "split_chroot_parts pre (part # parts) =
     (if part = BazelInputRootDirectoryName then Some (rev pre, part # parts)
      else split_chroot_parts (part # pre) parts)"

definition splitChrootPath :: "string \<Rightarrow> (string \<times> string) res" where
  "splitChrootPath cwd =
     (case split_chroot_parts [] (split_on slash cwd) of
        Some (pre, post) \<Rightarrow>
          (let chrootDir = join ''/'' pre
           in Inr (if chrootDir = '''' then ''/'' else chrootDir, ''/'' @ join ''/'' post))
      | None \<Rightarrow> Inl (Errorf Unknown ''could not find %s in path %s'' [BazelInputRootDirectoryName, cwd]))"

definition MS_NOSUID :: "64 word" where "MS_NOSUID = 2"
definition MS_NODEV :: "64 word" where "MS_NODEV = 4"
definition MS_NOEXEC :: "64 word" where "MS_NOEXEC = 8"
definition MS_BIND :: "64 word" where "MS_BIND = 4096"
definition MS_REC :: "64 word" where "MS_REC = 16384"

definition mount_table :: "mountPoint list" where
  "mount_table =
     [\<lparr>mp_source = ''proc'', mp_target = ''proc'', mp_fstype = ''proc'',
       mp_flags = MS_NOSUID OR MS_NOEXEC OR MS_NODEV, mp_mode = 0x1ED\<rparr>,
      \<lparr>mp_source = ''sysfs'', mp_target = ''sys'', mp_fstype = ''sysfs'',
       mp_flags = MS_NOSUID OR MS_NOEXEC OR MS_NODEV, mp_mode = 0x1ED\<rparr>,
      \<lparr>mp_source = ''/dev'', mp_target = ''dev'', mp_fstype = '''', mp_flags = MS_BIND OR MS_REC, mp_mode = 0x1ED\<rparr>,
      \<lparr>mp_source = ''tmpfs'', mp_target = ''tmp'', mp_fstype = ''tmpfs'',
       mp_flags = MS_NOSUID OR MS_NODEV, mp_mode = 0x1FF\<rparr>]"

text \<open>\<open>os.MkdirAll\<close> whose \<open>os.IsExist\<close> errors are ignored.\<close>

definition make_mount_point :: "string \<Rightarrow> (host_fs, unit) io" where
  "make_mount_point p f =
     (case MkdirAll p f of (Inl e, f') \<Rightarrow> (if IsExist e then Inr () else Inl e, f') | (Inr _, f') \<Rightarrow> (Inr (), f'))"

fun setup_mounts :: "kernel \<Rightarrow> string \<Rightarrow> mountPoint list \<Rightarrow> (process, unit) io" where
  "setup_mounts deny chrootDir [] = io_pure (Inr ())"
| "setup_mounts deny chrootDir (m # ms) =
     (let targetPath = path_join [chrootDir, mp_target m]
      in io_bind (io_wrap (Wrap ''failed to create /%s mount point'' [mp_target m]) (on_fs (make_mount_point targetPath)))
        (\<lambda>_. io_bind (io_wrap (Wrap ''failed to mount /%s'' [mp_target m]) (Mount deny m targetPath))
          (\<lambda>_. setup_mounts deny chrootDir ms)))"

definition setupMounts :: "kernel \<Rightarrow> string \<Rightarrow> (process, unit) io" where
  "setupMounts deny chrootDir = setup_mounts deny chrootDir mount_table"

definition appendToFile :: "string \<Rightarrow> string \<Rightarrow> (host_fs, unit) io" where
  "appendToFile path line = AppendFile path line"

definition has_user_line :: "string \<Rightarrow> string \<Rightarrow> bool" where
  "has_user_line data username = list_ex (\<lambda>line. has_prefix line (username @ '':'')) (split_on (CHR 0x0A) data)"

definition fileContainsUser :: "string \<Rightarrow> string \<Rightarrow> (host_fs, bool) io" where
  "fileContainsUser path username f =
     (case ReadFile path f of
        (Inl e, f') \<Rightarrow> (if IsNotExist e then Inr False else Inl e, f')
      | (Inr data, f') \<Rightarrow> (Inr (has_user_line data username), f'))"

text \<open>One of the two halves of \<open>createBuildUser\<close>, for a file and the line to append to it.\<close>

definition ensure_user_line :: "string \<Rightarrow> string \<Rightarrow> string \<Rightarrow> string \<Rightarrow> (host_fs, unit) io" where
  "ensure_user_line checkMsg appendMsg path line =
     io_bind (io_wrap (Wrap checkMsg []) (fileContainsUser path buildUser))
       (\<lambda>exists. if \<not> exists then io_wrap (Wrap appendMsg []) (appendToFile path line) else io_pure (Inr ()))"

definition helper_passwd_line :: "userCredentials \<Rightarrow> string" where
  "helper_passwd_line creds =
     buildUser @ '':x:'' @ show_int (cred_uid creds) @ '':'' @ show_int (cred_gid creds) @ ''::/tmp:/bin/sh'' @ [CHR 0x0A]"

definition helper_group_line :: "userCredentials \<Rightarrow> string" where
  "helper_group_line creds = buildUser @ '':x:'' @ show_int (cred_gid creds) @ '':'' @ [CHR 0x0A]"

definition createBuildUser :: "string \<Rightarrow> userCredentials \<Rightarrow> (host_fs, unit) io" where
  "createBuildUser chrootDir creds =
     io_bind (ensure_user_line ''failed to check /etc/passwd for build user'' ''failed to append build user to /etc/passwd''
                (path_join [chrootDir, ''etc/passwd'']) (helper_passwd_line creds))
       (\<lambda>_. ensure_user_line ''failed to check /etc/group for build group'' ''failed to append build group to /etc/group''
                (path_join [chrootDir, ''etc/group'']) (helper_group_line creds))"

definition removeIfExists :: "string \<Rightarrow> (host_fs, unit) io" where
  "removeIfExists p f =
     (case Remove p f of (Inl e, f') \<Rightarrow> (if IsNotExist e then Inr () else Inl e, f') | (Inr _, f') \<Rightarrow> (Inr (), f'))"

definition copyResolvConf :: "string \<Rightarrow> (host_fs, unit) io" where
  "copyResolvConf chrootDir =
     (let src = path_join [''/'', ''etc/resolv.conf''];
          dst = path_join [chrootDir, ''etc/resolv.conf'']
      in io_bind (io_wrap (Wrap ''failed to read %s'' [src]) (ReadFile src)) (\<lambda>data.
        io_bind (io_wrap (Wrap ''failed to create %s'' [path_dir dst]) (MkdirAll (path_dir dst))) (\<lambda>_.
          io_bind (io_wrap (Wrap ''failed to remove existing %s'' [dst]) (removeIfExists dst)) (\<lambda>_.
            io_wrap (Wrap ''failed to write %s'' [dst]) (WriteFile dst data)))))"

text \<open>\<open>lookup\<close> is \<open>user.Lookup\<close>: the strings \<open>Uid\<close> and \<open>Gid\<close> of a user.\<close>

definition lookupUser :: "(string \<Rightarrow> (string \<times> string) res) \<Rightarrow> string \<Rightarrow> userCredentials res" where
  "lookupUser lookup username =
     rbind (wrap_err (Wrap ''failed to lookup user %s'' [username]) (lookup username)) (\<lambda>(u, g).
       case atoi u of
         None \<Rightarrow> Inl (Wrap ''failed to parse uid'' [] (Errorf Unknown ''strconv.Atoi: parsing %q'' [u]))
       | Some i \<Rightarrow>
           (case atoi g of
              None \<Rightarrow> Inl (Wrap ''failed to parse gid'' [] (Errorf Unknown ''strconv.Atoi: parsing %q'' [g]))
            | Some j \<Rightarrow> Inr \<lparr>cred_uid = i, cred_gid = j\<rparr>))"

definition dropPrivileges :: "kernel \<Rightarrow> userCredentials \<Rightarrow> (process, unit) io" where
  "dropPrivileges deny creds =
     io_bind (io_wrap (Wrap ''failed to setgroups'' []) (Setgroups deny [cred_gid creds])) (\<lambda>_.
       io_bind (io_wrap (Wrap ''failed to setgid'' []) (Setgid deny (cred_gid creds))) (\<lambda>_.
         io_wrap (Wrap ''failed to setuid'' []) (Setuid deny (cred_uid creds))))"

definition helper_run :: "kernel \<Rightarrow> string \<Rightarrow> string \<Rightarrow> userCredentials \<Rightarrow> string list \<Rightarrow> (process, unit) io" where
  "helper_run deny chrootDir workingDir creds args =
     io_bind (io_wrap (Wrap ''failed to unshare mount namespace'' []) (Unshare deny)) (\<lambda>_.
       io_bind (io_wrap (Wrap ''failed to make mounts private'' []) (MakePrivate deny)) (\<lambda>_.
         io_bind (setupMounts deny chrootDir) (\<lambda>_.
           io_bind (on_fs (copyResolvConf chrootDir)) (\<lambda>_.
             io_bind (on_fs (createBuildUser chrootDir creds)) (\<lambda>_.
               io_bind (io_wrap (Wrap ''failed to chroot to %s'' [chrootDir]) (Chroot deny chrootDir)) (\<lambda>_.
                 io_bind (io_wrap (Wrap ''failed to chdir to %s'' [workingDir]) (Chdir deny workingDir)) (\<lambda>_.
                   io_bind (io_wrap (Wrap ''failed to drop privileges'' []) (dropPrivileges deny creds)) (\<lambda>_.
                     io_wrap (Wrap ''failed to exec %s'' [hd args]) (Exec deny args)))))))))"

text \<open>
  \<open>main\<close>: an error is printed and the exit status is 1. \<open>getwd\<close> and \<open>evalSymlinks\<close> are the
  working directory and its resolution.
\<close>

definition helper_args :: "string list \<Rightarrow> string list" where
  "helper_args argv = (case tl argv of a # as \<Rightarrow> if a = ''--'' then as else a # as | [] \<Rightarrow> [])"

definition helper_main ::
  "kernel \<Rightarrow> (string \<Rightarrow> (string \<times> string) res) \<Rightarrow> string res \<Rightarrow> (string \<Rightarrow> string res) \<Rightarrow> string list \<Rightarrow> (process, unit) io"
where
  "helper_main deny lookup getwd evalSymlinks argv =
     (let args = helper_args argv
      in if args = [] then io_pure (Inl (Errorf Unknown ''Usage: %s [--] <command> [args...]'' [hd argv]))
         else io_bind (io_pure (lookupUser lookup buildUser)) (\<lambda>creds.
           io_bind (io_pure (wrap_err (Wrap ''failed to get working directory'' []) getwd)) (\<lambda>cwd0.
             io_bind (io_pure (wrap_err (Wrap ''failed to resolve working directory'' []) (evalSymlinks cwd0))) (\<lambda>cwd.
               io_bind (io_pure (splitChrootPath cwd)) (\<lambda>(chrootDir, workingDir).
                 helper_run deny chrootDir workingDir creds args)))))"

section \<open>Splitting the working directory\<close>

lemma split_chroot_parts_Some:
  "split_chroot_parts pre parts = Some (a, b) \<longleftrightarrow>
     (\<exists>x. a = rev pre @ x \<and> parts = x @ b \<and> BazelInputRootDirectoryName \<notin> set x
        \<and> (\<exists>t. b = BazelInputRootDirectoryName # t))"
proof (induction parts arbitrary: pre)
  case (Cons p parts)
  then show ?case by (auto simp: Cons_eq_append_conv)
qed auto

lemma split_chroot_parts_None:
  "split_chroot_parts pre parts = None \<longleftrightarrow> BazelInputRootDirectoryName \<notin> set parts"
  by (induction parts arbitrary: pre) auto

text \<open>
  For an absolute working directory the helper finds the first component
  \<open>bazel_exec_root\<close>: the directory it changes its root to is what comes before, so it has no such
  component itself, the directory it changes to inside is the rest, which begins with that
  component, and together they are the working directory again. It fails exactly when the path has
  no such component.
\<close>

theorem split_chroot_path:
  assumes "is_abs cwd"
  shows "case splitChrootPath cwd of
      Inr (chrootDir, workingDir) \<Rightarrow>
        (cwd = chrootDir @ workingDir \<or> chrootDir = ''/'' \<and> cwd = workingDir)
      \<and> BazelInputRootDirectoryName \<notin> set (split_on slash chrootDir)
      \<and> (\<exists>rest. split_on slash workingDir = '''' # BazelInputRootDirectoryName # rest)
    | Inl e \<Rightarrow> BazelInputRootDirectoryName \<notin> set (split_on slash cwd)"
proof (cases "split_chroot_parts [] (split_on slash cwd)")
  case None
  moreover have "BazelInputRootDirectoryName \<notin> set (split_on slash cwd)"
    using None split_chroot_parts_None by blast
  ultimately show ?thesis by (simp add: splitChrootPath_def)
next
  case (Some x)
  obtain pre post where x: "x = (pre, post)" by (cases x)
  then obtain rest where parts: "split_on slash cwd = pre @ post" and no: "BazelInputRootDirectoryName \<notin> set pre"
    and post: "post = BazelInputRootDirectoryName # rest"
    using Some by (auto simp: split_chroot_parts_Some)
  have "hd (split_on slash cwd) = ''''" using assms by (cases cwd) (auto simp: is_abs_def)
  then have pre: "pre \<noteq> []" using parts post by (cases pre) (auto simp: BazelInputRootDirectoryName_def)
  have sep: "slash \<notin> set p" if "p \<in> set (pre @ post)" for p
    using that parts split_on_no_sep by metis
  have cwd: "cwd = join ''/'' pre @ ''/'' @ join ''/'' post"
    using join_split_on[of slash cwd] join_append_cons[OF pre, of post "''/''"] parts post by simp
  have "split_on slash (join ''/'' pre) = pre" "split_on slash (join ''/'' post) = post"
    using split_on_join[OF pre] split_on_join[of post] sep post by auto
  then show ?thesis
    using cwd no post x Some by (auto simp: splitChrootPath_def BazelInputRootDirectoryName_def Let_def)
qed

theorem split_chroot_path_witness:
  "splitChrootPath ''/worker/root/bazel_exec_root/src'' = Inr (''/worker/root'', ''/bazel_exec_root/src'')
   \<and> BazelInputRootDirectoryName \<notin> set (split_on slash ''/worker/root'')"
proof -
  have "splitChrootPath ''/worker/root/bazel_exec_root/src'' = Inr (''/worker/root'', ''/bazel_exec_root/src'')"
    by code_simp
  then show ?thesis
    using split_chroot_path[of "''/worker/root/bazel_exec_root/src''"] by (simp add: is_abs_def)
qed

section \<open>Confinement\<close>

abbreviation not_executed :: "process \<Rightarrow> bool" where
  "not_executed s \<equiv> executed s = None"

lemma sys_keeps: "(\<And>s. executed (f s) = executed s) \<Longrightarrow> io_keeps not_executed (sys deny c f)"
  by (rule io_keepsI) (auto simp: sys_def split: option.splits)

lemma on_fs_keeps: "io_keeps not_executed (on_fs m)"
  by (rule io_keepsI) (auto simp: on_fs_def split: prod.splits)

lemma calls_keep [simp]:
  "io_keeps not_executed (Unshare deny)" "io_keeps not_executed (MakePrivate deny)"
  "io_keeps not_executed (Mount deny m t)" "io_keeps not_executed (Chroot deny d)"
  "io_keeps not_executed (Chdir deny d)" "io_keeps not_executed (Setgroups deny gs)"
  "io_keeps not_executed (Setgid deny g)" "io_keeps not_executed (Setuid deny u)"
  unfolding Unshare_def MakePrivate_def Mount_def Chroot_def Chdir_def
  by (auto intro!: sys_keeps) (auto simp: io_keeps_def Setgroups_def Setgid_def Setuid_def sys_def split: option.splits)

lemma setup_mounts_keep: "io_keeps not_executed (setup_mounts deny chrootDir ms)"
  by (induction ms) (auto simp: Let_def on_fs_keeps intro!: io_keeps_bind)

lemma dropPrivileges_keep: "io_keeps not_executed (dropPrivileges deny creds)"
  by (auto simp: dropPrivileges_def intro!: io_keeps_bind)

text \<open>A program runs at the end of a sequence only if every step before succeeded.\<close>

lemma executed_bindE:
  assumes "executed (snd (io_bind m f s)) = Some cmd" and "executed s = None" and "io_keeps not_executed m"
  obtains x s1 where "m s = (Inr x, s1)" and "executed s1 = None" and "executed (snd (f x s1)) = Some cmd"
  using assms io_keepsD[OF assms(3,2)] by (cases "m s") (auto simp: io_bind_def split: sum.splits)

text \<open>The parts of the state that the preparation of the files does not touch.\<close>

definition same_process :: "process \<Rightarrow> process \<Rightarrow> bool" where
  "same_process s s' \<longleftrightarrow> unshared s' = unshared s \<and> mountsPrivate s' = mountsPrivate s \<and> rootDir s' = rootDir s
     \<and> workDir s' = workDir s \<and> groups s' = groups s \<and> gid s' = gid s \<and> uid s' = uid s"

lemma on_fs_same: "on_fs m s = (r, s') \<Longrightarrow> same_process s s'"
  by (auto simp: on_fs_def same_process_def split: prod.splits)

lemma sys_Inr: "sys deny c f s = (Inr (), s') \<Longrightarrow> s' = f s"
  by (auto simp: sys_def split: option.splits)

lemma setup_mounts_same: "setup_mounts deny chrootDir ms s = (Inr (), s') \<Longrightarrow> same_process s s'"
proof (induction ms arbitrary: s)
  case (Cons m ms)
  then obtain s1 s2 where 1: "on_fs (make_mount_point (path_join [chrootDir, mp_target m])) s = (Inr (), s1)"
    and 2: "Mount deny m (path_join [chrootDir, mp_target m]) s1 = (Inr (), s2)"
    and 3: "setup_mounts deny chrootDir ms s2 = (Inr (), s')"
    by (auto simp: Let_def elim!: io_bind_InrE)
  have "same_process s1 s2" using sys_Inr[OF 2[unfolded Mount_def]] by (simp add: same_process_def)
  then show ?case using on_fs_same[OF 1] Cons.IH[OF 3] by (simp add: same_process_def)
qed (simp add: same_process_def)

lemma dropPrivileges_Inr:
  assumes "dropPrivileges deny creds s = (Inr (), s')"
  shows "s' = s\<lparr>groups := [cred_gid creds], gid := cred_gid creds, uid := cred_uid creds\<rparr>" and "uid s = 0"
proof -
  from assms obtain s1 s2 where "Setgroups deny [cred_gid creds] s = (Inr (), s1)"
    and "Setgid deny (cred_gid creds) s1 = (Inr (), s2)" and "Setuid deny (cred_uid creds) s2 = (Inr (), s')"
    by (auto simp: dropPrivileges_def elim!: io_bind_InrE)
  then have "uid s = 0" and "s1 = s\<lparr>groups := [cred_gid creds]\<rparr>" and "s2 = s1\<lparr>gid := cred_gid creds\<rparr>"
    and "s' = s2\<lparr>uid := cred_uid creds\<rparr>"
    by (auto simp: Setgroups_def Setgid_def Setuid_def dest: sys_Inr split: if_splits)
  then show "s' = s\<lparr>groups := [cred_gid creds], gid := cred_gid creds, uid := cred_uid creds\<rparr>" and "uid s = 0"
    by simp_all
qed

lemma helper_run_executed:
  assumes "executed s = None" and "executed (snd (helper_run deny chrootDir workingDir creds args s)) = Some cmd"
  shows "let s' = snd (helper_run deny chrootDir workingDir creds args s)
    in cmd = args \<and> unshared s' \<and> mountsPrivate s' \<and> rootDir s' = chrootDir \<and> workDir s' = workingDir
     \<and> groups s' = [cred_gid creds] \<and> gid s' = cred_gid creds \<and> uid s' = cred_uid creds"
proof -
  from assms(2) obtain s1 s2 s3 s4 s5 s6 s7 s8 where
    s1: "Unshare deny s = (Inr (), s1)" and s2: "MakePrivate deny s1 = (Inr (), s2)"
    and s3: "setupMounts deny chrootDir s2 = (Inr (), s3)"
    and s4: "on_fs (copyResolvConf chrootDir) s3 = (Inr (), s4)"
    and s5: "on_fs (createBuildUser chrootDir creds) s4 = (Inr (), s5)"
    and s6: "Chroot deny chrootDir s5 = (Inr (), s6)" and s7: "Chdir deny workingDir s6 = (Inr (), s7)"
    and s8: "dropPrivileges deny creds s7 = (Inr (), s8)" and none: "executed s8 = None"
    and ex: "executed (snd (io_wrap (Wrap ''failed to exec %s'' [hd args]) (Exec deny args) s8)) = Some cmd"
    unfolding helper_run_def
    by (auto elim!: executed_bindE simp: assms(1) setupMounts_def setup_mounts_keep on_fs_keeps dropPrivileges_keep)
  have "same_process s2 s5"
    using setup_mounts_same[OF s3[unfolded setupMounts_def]] on_fs_same[OF s4] on_fs_same[OF s5]
    by (simp add: same_process_def)
  moreover have "cmd = args \<and> snd (Exec deny args s8) = s8\<lparr>executed := Some args\<rparr>"
    using ex none by (auto simp: Exec_def sys_def io_wrap_def split: option.splits)
  moreover have "snd (helper_run deny chrootDir workingDir creds args s) = snd (Exec deny args s8)"
    using s1 s2 s3 s4 s5 s6 s7 s8 by (simp add: helper_run_def io_bind_def io_wrap_def case_prod_unfold)
  ultimately show ?thesis
    using s1 s2 s6 s7 dropPrivileges_Inr(1)[OF s8]
    by (auto simp: Unshare_def MakePrivate_def Chroot_def Chdir_def same_process_def dest!: sys_Inr)
qed

text \<open>
  C7: Whatever fails and whatever the arguments are, if the helper ends up running a program, it
  is the command it was given, and at that moment the process has a private mount namespace, its
  root is the directory before \<open>bazel_exec_root\<close> and its working directory the rest of the path,
  and it has the build user's user ID, group ID and no other group. In particular an error
  before that point means that nothing is run.
\<close>

theorem helper_execs_confined:
  assumes "executed s = None"
    and "executed (snd (helper_main deny lookup getwd evalSymlinks argv s)) = Some cmd"
  shows "\<exists>cwd0 cwd chrootDir workingDir creds.
      getwd = Inr cwd0 \<and> evalSymlinks cwd0 = Inr cwd \<and> splitChrootPath cwd = Inr (chrootDir, workingDir)
    \<and> lookupUser lookup buildUser = Inr creds \<and> cmd = helper_args argv \<and> cmd \<noteq> []
    \<and> (let s' = snd (helper_main deny lookup getwd evalSymlinks argv s)
       in unshared s' \<and> mountsPrivate s' \<and> rootDir s' = chrootDir \<and> workDir s' = workingDir
        \<and> groups s' = [cred_gid creds] \<and> gid s' = cred_gid creds \<and> uid s' = cred_uid creds)"
proof -
  have ne: "helper_args argv \<noteq> []" using assms by (auto simp: helper_main_def Let_def)
  obtain creds where creds: "lookupUser lookup buildUser = Inr creds"
    using assms ne by (cases "lookupUser lookup buildUser") (auto simp: helper_main_def Let_def)
  obtain cwd0 where cwd0: "getwd = Inr cwd0"
    using assms ne creds by (cases getwd) (auto simp: helper_main_def Let_def)
  obtain cwd where cwd: "evalSymlinks cwd0 = Inr cwd"
    using assms ne creds cwd0 by (cases "evalSymlinks cwd0") (auto simp: helper_main_def Let_def)
  obtain d where d: "splitChrootPath cwd = Inr d"
    using assms ne creds cwd0 cwd by (cases "splitChrootPath cwd") (auto simp: helper_main_def Let_def)
  obtain c w where cw: "d = (c, w)" by (cases d)
  have run: "helper_main deny lookup getwd evalSymlinks argv s = helper_run deny c w creds (helper_args argv) s"
    using ne creds cwd0 cwd d cw by (simp add: helper_main_def Let_def)
  from helper_run_executed[OF assms(1) assms(2)[unfolded run]] show ?thesis
    using ne creds cwd0 cwd d cw unfolding run Let_def by simp
qed

definition demo_machine :: host_fs where
  "demo_machine = \<lparr>fs_names = [(''/etc/resolv.conf'', 0), (''/r/etc/passwd'', 1), (''/cache/p'', 1)],
     fs_data = [''nameserver 10.0.0.1'', ''root:x:0:0''], fs_dirs = [''/'', ''/etc'', ''/r'', ''/r/etc'', ''/cache''],
     fs_deny = (\<lambda>_. None)\<rparr>"

definition demo_process :: process where
  "demo_process = \<lparr>pr_fs = demo_machine, unshared = False, mountsPrivate = False, mounts = [], rootDir = ''/'',
     workDir = ''/r/bazel_exec_root'', groups = [0], gid = 0, uid = 0, executed = None\<rparr>"

abbreviation demo_helper :: "unit res \<times> process" where
  "demo_helper \<equiv> helper_main (\<lambda>_. None) (\<lambda>_. Inr (''1000'', ''1001'')) (Inr ''/r/bazel_exec_root'') Inr
     [''helper'', ''--'', ''/bin/cc'', ''a.c''] demo_process"

theorem helper_execs_confined_witness:
  "executed (snd demo_helper) = Some [''/bin/cc'', ''a.c''] \<and> uid (snd demo_helper) = 1000
   \<and> gid (snd demo_helper) = 1001 \<and> rootDir (snd demo_helper) = ''/r''"
proof -
  have ex: "executed (snd demo_helper) = Some [''/bin/cc'', ''a.c'']" by code_simp
  have creds: "lookupUser (\<lambda>_. Inr (''1000'', ''1001'')) buildUser = Inr \<lparr>cred_uid = 1000, cred_gid = 1001\<rparr>"
    and sp: "splitChrootPath ''/r/bazel_exec_root'' = Inr (''/r'', ''/bazel_exec_root'')" by code_simp+
  have "executed demo_process = None" by (simp add: demo_process_def)
  from helper_execs_confined[OF this ex] show ?thesis using ex creds sp by (auto simp: Let_def)
qed

section \<open>The files of the chroot\<close>

text \<open>A file that is empty or whose last line is terminated.\<close>

definition terminated :: "string \<Rightarrow> bool" where
  "terminated d \<longleftrightarrow> d = '''' \<or> last d = CHR 0x0A"

lemma has_user_line_append:
  assumes "terminated d" and "has_prefix l (u @ '':'')" and "CHR 0x0A \<notin> set (u @ '':'')"
  shows "has_user_line (d @ l) u"
proof -
  obtain r where l: "l = (u @ '':'') @ r" using assms(2) by (auto simp: has_prefix_iff)
  have "list_ex (\<lambda>x. has_prefix x (u @ '':'')) (split_on (CHR 0x0A) ((u @ '':'') @ r))"
  proof (cases "CHR 0x0A \<in> set r")
    case True
    then obtain a b where "r = a @ CHR 0x0A # b" "CHR 0x0A \<notin> set a" by (meson split_list_first)
    then show ?thesis
      using assms(3) split_on_append[of "CHR 0x0A" "(u @ '':'') @ a" b] by (auto simp: has_prefix_iff)
  next
    case False
    then show ?thesis using assms(3) by (auto simp: split_on_id has_prefix_iff)
  qed
  moreover have "split_on (CHR 0x0A) (d @ l) = butlast (split_on (CHR 0x0A) d) @ split_on (CHR 0x0A) l"
  proof (cases "d = ''''")
    case False
    then obtain a where "d = a @ [CHR 0x0A]" using assms(1) by (metis append_butlast_last_id terminated_def)
    then show ?thesis using split_on_append_sep[of "CHR 0x0A" a l] split_on_append_sep[of "CHR 0x0A" a "''''"] by simp
  qed simp
  ultimately show ?thesis using l by (simp add: has_user_line_def)
qed

lemma ensure_cases:
  assumes "fileContainsUser path buildUser f =
      (Inr (case content f path of Some d \<Rightarrow> has_user_line d buildUser | None \<Rightarrow> False), f)"
    and "ensure_user_line m1 m2 path line f = (Inr (), f')"
  obtains (there) d where "content f path = Some d" "has_user_line d buildUser" "f' = f"
  | (append) "AppendFile path line f = (Inr (), f')"
proof (cases "case content f path of Some d \<Rightarrow> has_user_line d buildUser | None \<Rightarrow> False")
  case True
  then obtain d where d: "content f path = Some d" "has_user_line d buildUser" by (cases "content f path") auto
  have "f' = f"
    using assms(2) unfolding ensure_user_line_def io_bind_def io_wrap_def assms(1) by (simp add: d)
  then show ?thesis using there d by blast
next
  case False
  then have "io_wrap (Wrap m2 []) (appendToFile path line) f = (Inr (), f')"
    using assms(2) unfolding ensure_user_line_def io_bind_def io_wrap_def[of "Wrap m1 []"] assms(1)
    by simp
  then show ?thesis using append by (simp add: appendToFile_def)
qed

text \<open>
  C38: A successful check-and-append on a passwd or group file that is missing, empty or
  newline-terminated leaves a file that contains a line of the build user after all the lines it
  had before, and doing it again changes nothing.
\<close>

theorem user_line_ensured:
  assumes "fs_ok f" and "fs_deny f path = None" and "has_prefix line (buildUser @ '':'')"
    and "list_all terminated (case content f path of Some d \<Rightarrow> [d] | None \<Rightarrow> [])"
    and "ensure_user_line m1 m2 path line f = (Inr (), f')"
  shows "\<exists>d. content f' path = Some d \<and> has_user_line d buildUser
      \<and> take (length (case content f path of Some old \<Rightarrow> old | None \<Rightarrow> '''')) d =
          (case content f path of Some old \<Rightarrow> old | None \<Rightarrow> '''')
      \<and> ensure_user_line m1 m2 path line f' = (Inr (), f')"
proof -
  define old where "old = (case content f path of Some d \<Rightarrow> d | None \<Rightarrow> '''')"
  have done_old: "terminated old" using assms(4) by (auto simp: old_def terminated_def split: option.splits)
  have again: "ensure_user_line m1 m2 path line g = (Inr (), g)"
    if "content g path = Some d" "has_user_line d buildUser" "fs_deny g path = None" for g d
    using that by (simp add: ensure_user_line_def fileContainsUser_def ReadFile_def allowed_def io_bind_def io_wrap_def)
  have "fileContainsUser path buildUser f = (Inr (case content f path of Some d \<Rightarrow> has_user_line d buildUser | None \<Rightarrow> False), f)"
    using assms(2)
    by (cases "content f path") (simp_all add: fileContainsUser_def ReadFile_def allowed_def IsNotExist_def ENOENT_def)
  then consider (there) d where "content f path = Some d" "has_user_line d buildUser" "f' = f"
    | (append) "AppendFile path line f = (Inr (), f')"
    using assms(5) by (rule ensure_cases)
  then show ?thesis
  proof cases
    case there
    then show ?thesis using again[of f d] assms(2) by simp
  next
    case append
    have d: "content f' path = Some (old @ line)" using AppendFile_content[OF append assms(1)] by (simp add: old_def)
    have has: "has_user_line (old @ line) buildUser"
      by (rule has_user_line_append[OF done_old assms(3)]) (simp add: buildUser_def)
    have "fs_deny f' path = None"
      using append assms(2) by (auto simp: AppendFile_def allowed_def create_file_def split: option.splits if_splits)
    then show ?thesis using again[OF d has] d has by (simp add: old_def[symmetric])
  qed
qed

definition demo_creds :: userCredentials where
  "demo_creds = \<lparr>cred_uid = 1000, cred_gid = 1001\<rparr>"

abbreviation demo_ensure :: "unit res \<times> host_fs" where
  "demo_ensure \<equiv> ensure_user_line '''' '''' ''/r/etc/group'' (helper_group_line demo_creds) demo_machine"

theorem user_line_ensured_witness:
  "\<exists>d. content (snd demo_ensure) ''/r/etc/group'' = Some d \<and> has_user_line d buildUser
     \<and> ensure_user_line '''' '''' ''/r/etc/group'' (helper_group_line demo_creds) (snd demo_ensure)
         = (Inr (), snd demo_ensure)"
proof -
  have "fst demo_ensure = Inr ()" by code_simp
  then have r: "demo_ensure = (Inr (), snd demo_ensure)" by (metis prod.collapse)
  have "fs_ok demo_machine" "fs_deny demo_machine ''/r/etc/group'' = None"
    by (simp_all add: fs_ok_def demo_machine_def go_map_def)
  moreover have "has_prefix (helper_group_line demo_creds) (buildUser @ '':'')"
    by (auto simp: has_prefix_iff helper_group_line_def)
  moreover have "list_all terminated (case content demo_machine ''/r/etc/group'' of Some d \<Rightarrow> [d] | None \<Rightarrow> [])"
    by (simp add: content_def demo_machine_def)
  ultimately show ?thesis using user_line_ensured[OF _ _ _ _ r] by blast
qed

text \<open>
  Without the final newline the appended entry becomes a part of the last line: the helper
  succeeds, and the file has no line of the build user.
\<close>

theorem user_line_lost_without_newline:
  "fst (createBuildUser ''/r'' demo_creds demo_machine) = Inr ()
   \<and> content (snd (createBuildUser ''/r'' demo_creds demo_machine)) ''/r/etc/passwd'' =
       Some (''root:x:0:0build:x:1000:1001::/tmp:/bin/sh'' @ [CHR 0x0A])
   \<and> fst (fileContainsUser ''/r/etc/passwd'' buildUser (snd (createBuildUser ''/r'' demo_creds demo_machine))) = Inr False"
  by (intro conjI) code_simp+

text \<open>
  The password file is changed in place: when it is a hard link to a file of the worker's
  cache, as the comment in \<open>copyResolvConf\<close> considers, the cached file changes too.
\<close>

theorem cached_passwd_overwritten:
  "content demo_machine ''/cache/p'' = Some ''root:x:0:0''
   \<and> content (snd (createBuildUser ''/r'' demo_creds demo_machine)) ''/cache/p'' \<noteq> Some ''root:x:0:0''"
  by (intro conjI) code_simp+

lemma removeIfExists_content:
  assumes "removeIfExists p f = (Inr (), f')" and "content f = c" and "fs_ok f"
  shows "content f' q = (if q = p then None else c q)"
proof (cases "Remove p f")
  case (Pair r f1)
  show ?thesis
  proof (cases r)
    case (Inl e)
    then have "f' = f" "IsNotExist e" using assms(1) Pair Remove_error_state by (auto simp: removeIfExists_def split: if_splits)
    moreover have "content f p = None"
      using Pair Inl \<open>IsNotExist e\<close> assms(3) Remove_not_exist by blast
    ultimately show ?thesis using assms(2) by auto
  next
    case (Inr u)
    then show ?thesis using assms Pair Remove_content(1)[of p f f1 q] by (auto simp: removeIfExists_def)
  qed
qed

text \<open>
  Copying the name server configuration gives the chroot a file with the host's content, and
  no other file changes, even when the old one was a hard link to a file elsewhere.
\<close>

theorem resolv_conf_copied:
  assumes "fs_ok f" and "copyResolvConf chrootDir f = (Inr (), f')"
  shows "content f' (path_join [chrootDir, ''etc/resolv.conf'']) = content f ''/etc/resolv.conf''
    \<and> content f ''/etc/resolv.conf'' \<noteq> None
    \<and> (q \<noteq> path_join [chrootDir, ''etc/resolv.conf''] \<longrightarrow> content f' q = content f q)"
proof -
  let ?dst = "path_join [chrootDir, ''etc/resolv.conf'']"
  have src: "path_join [''/'', ''etc/resolv.conf''] = ''/etc/resolv.conf''" by code_simp
  from assms(2) obtain data f1 f2 f3 where read: "ReadFile ''/etc/resolv.conf'' f = (Inr data, f1)"
    and mk: "MkdirAll (path_dir ?dst) f1 = (Inr (), f2)" and rm: "removeIfExists ?dst f2 = (Inr (), f3)"
    and wr: "WriteFile ?dst data f3 = (Inr (), f')"
    unfolding copyResolvConf_def Let_def src by (auto elim!: io_bind_InrE)
  have f1: "f1 = f" "content f ''/etc/resolv.conf'' = Some data" using read by (auto simp: ReadFile_content)
  have ok2: "fs_ok f2" using file_calls_ok(6)[OF assms(1), of "path_dir ?dst"] mk f1 by simp
  have c2: "content f2 = content f" using MkdirAll_content[of "path_dir ?dst" f1] mk f1 by simp
  have ok3: "fs_ok f3" and c3: "content f3 q = (if q = ?dst then None else content f q)" for q
  proof -
    show "fs_ok f3"
      using rm ok2 file_calls_ok(5)[OF ok2, of ?dst]
      by (auto simp: removeIfExists_def split: prod.splits sum.splits if_splits)
    show "content f3 q = (if q = ?dst then None else content f q)"
      using rm c2 ok2 by (rule removeIfExists_content)
  qed
  show ?thesis using WriteFile_new[OF wr ok3] c3 f1(2) by simp
qed

theorem resolv_conf_copied_witness:
  "content (snd (copyResolvConf ''/r'' demo_machine)) ''/r/etc/resolv.conf'' = Some ''nameserver 10.0.0.1''
   \<and> content (snd (copyResolvConf ''/r'' demo_machine)) ''/cache/p'' = Some ''root:x:0:0''"
proof -
  let ?r = "copyResolvConf ''/r'' demo_machine"
  have "fst ?r = Inr ()" by code_simp
  then have r: "?r = (Inr (), snd ?r)" by (metis prod.collapse)
  have ok: "fs_ok demo_machine" by (simp add: fs_ok_def demo_machine_def go_map_def)
  have dst: "path_join [''/r'', ''etc/resolv.conf''] = ''/r/etc/resolv.conf''" by code_simp
  show ?thesis
    using resolv_conf_copied[OF ok r, of "''/cache/p''"] unfolding dst
    by (simp add: content_def demo_machine_def)
qed

end
