(* ===== verification/Helper_Installer.thy ===== *)
theory Helper_Installer
  imports Host_FS
begin

text \<open>
  \<open>src/cmd/bb_chroot_helper_installer/main.go\<close>: the installation of the helper binaries. The
  marker file tells other containers that the binaries are complete, so what matters is the order
  of the calls; the model keeps them as a list, so that the states in between can be spoken of.
\<close>

section \<open>Definitions\<close>

datatype install_call =
    CallMkdirAll string
  | CallRemove string
  | CallWriteFile string string

text \<open>A call, and how its error is reported; \<open>os.IsNotExist\<close> errors of a removal are ignored.\<close>

definition install_call_io :: "install_call \<Rightarrow> (host_fs, unit) io" where
  "install_call_io c =
     (case c of
        CallMkdirAll p \<Rightarrow> MkdirAll p
      | CallRemove p \<Rightarrow> (\<lambda>f. case Remove p f of
            (Inl e, f') \<Rightarrow> (if IsNotExist e then Inr () else Inl e, f')
          | (Inr _, f') \<Rightarrow> (Inr (), f'))
      | CallWriteFile p d \<Rightarrow> WriteFile p d)"

fun run_calls :: "(install_call \<times> string \<times> string list) list \<Rightarrow> (host_fs, unit) io" where
  "run_calls [] = io_pure (Inr ())"
| "run_calls ((c, msg, args) # cs) =
     io_bind (io_wrap (Wrap msg args) (install_call_io c)) (\<lambda>_. run_calls cs)"

definition installed_path :: "string \<Rightarrow> string" where
  "installed_path installationPath = path_join [installationPath, ''chroot_helpers_installed'']"

text \<open>\<open>helpers\<close> is the map of the embedded binaries, in the order in which Go visits it.\<close>

definition helper_calls :: "string \<Rightarrow> string \<times> string \<Rightarrow> (install_call \<times> string \<times> string list) list" where
  "helper_calls installationPath h =
     (let p = path_join [installationPath, fst h]
      in [(CallRemove p, ''failed to remove old %s'', [fst h]),
          (CallWriteFile p (snd h), ''failed to install %s'', [fst h])])"

definition install_calls :: "(string, string) gomap \<Rightarrow> string \<Rightarrow> (install_call \<times> string \<times> string list) list" where
  "install_calls helpers installationPath =
     [(CallMkdirAll installationPath, ''failed to create installation directory'', []),
      (CallRemove (installed_path installationPath), ''failed to remove old installation marker'', [])]
     @ concat (map (helper_calls installationPath) helpers)
     @ [(CallWriteFile (installed_path installationPath) '''', ''failed to write installation marker'', [])]"

definition install :: "(string, string) gomap \<Rightarrow> string \<Rightarrow> (host_fs, unit) io" where
  "install helpers installationPath = run_calls (install_calls helpers installationPath)"

text \<open>\<open>main\<close>: the default path, or the only argument.\<close>

definition installer_main :: "(string, string) gomap \<Rightarrow> string list \<Rightarrow> (host_fs, unit) io" where
  "installer_main helpers argv =
     (case length argv of
        Suc 0 \<Rightarrow> install helpers ''/bb''
      | Suc (Suc 0) \<Rightarrow> install helpers (argv ! 1)
      | _ \<Rightarrow> io_pure (Inl (Errorf Unknown ''usage: bb_chroot_helper_installer [installation_path]'' [])))"

section \<open>What the calls do\<close>

lemma run_calls_append: "run_calls (cs @ ds) = io_bind (run_calls cs) (\<lambda>_. run_calls ds)"
  by (induction cs rule: run_calls.induct) (auto simp: io_bind_def fun_eq_iff split: prod.splits sum.splits)

text \<open>The path a call is about; all other files keep their content.\<close>

primrec call_path :: "install_call \<Rightarrow> string option" where
  "call_path (CallMkdirAll p) = None"
| "call_path (CallRemove p) = Some p"
| "call_path (CallWriteFile p d) = Some p"

lemma install_call_ok: "fs_ok f \<Longrightarrow> fs_ok (snd (install_call_io c f))"
  using file_calls_ok[of f]
  by (cases c) (auto simp: install_call_io_def split: prod.splits sum.splits, (metis snd_conv)+)

lemma run_calls_ok: "fs_ok f \<Longrightarrow> fs_ok (snd (run_calls cs f))"
proof (induction cs arbitrary: f rule: run_calls.induct)
  case (2 c msg args cs)
  then show ?case
    using install_call_ok[OF 2(2), of c]
    by (cases "install_call_io c f") (auto simp: io_bind_def io_wrap_def wrap_err_def split: sum.splits)
qed simp

text \<open>A file that does not exist is created only by a call on its own path.\<close>

lemma install_call_absent:
  "content f m = None \<Longrightarrow> call_path c \<noteq> Some m \<Longrightarrow> content (snd (install_call_io c f)) m = None"
  by (cases c) (auto simp: install_call_io_def content_def Remove_def WriteFile_def MkdirAll_def create_file_def
      allowed_def split: prod.splits sum.splits option.splits list.splits if_splits)

lemma run_calls_absent:
  "content f m = None \<Longrightarrow> list_all (\<lambda>c. call_path (fst c) \<noteq> Some m) cs \<Longrightarrow> content (snd (run_calls cs f)) m = None"
proof (induction cs arbitrary: f rule: run_calls.induct)
  case (2 c msg args cs)
  then show ?case
    using install_call_absent[OF 2(2), of c]
    by (cases "install_call_io c f") (auto simp: io_bind_def io_wrap_def wrap_err_def split: sum.splits)
qed simp

lemma call_remove:
  assumes "install_call_io (CallRemove p) f = (r, f')" and "fs_ok f"
  shows "content f' q = (if q = p \<and> r = Inr () then None else content f q)"
proof (cases "Remove p f")
  case (Pair x f1)
  show ?thesis
  proof (cases x)
    case (Inl e)
    then have "f' = f" "r = Inr () \<Longrightarrow> IsNotExist e"
      using assms(1) Pair Remove_error_state by (auto simp: install_call_io_def split: if_splits)
    then show ?thesis using Remove_not_exist[of p f e f1] Pair Inl assms(2) by auto
  next
    case (Inr u)
    then show ?thesis using assms(1) Pair Remove_content(1)[of p f f1 q] by (auto simp: install_call_io_def)
  qed
qed

text \<open>Installing one binary: it replaces the file, and no other file changes.\<close>

lemma helper_calls_content:
  assumes "run_calls (helper_calls path h) f = (Inr (), f')" and "fs_ok f"
  shows "content f' q = (if q = path_join [path, fst h] then Some (snd h) else content f q)"
proof -
  let ?p = "path_join [path, fst h]"
  from assms(1) obtain f1 where rm: "install_call_io (CallRemove ?p) f = (Inr (), f1)"
    and wr: "WriteFile ?p (snd h) f1 = (Inr (), f')"
    by (auto simp: helper_calls_def Let_def install_call_io_def elim!: io_bind_InrE)
  have "fs_ok f1" using install_call_ok[OF assms(2), of "CallRemove ?p"] rm by simp
  then show ?thesis
    using WriteFile_new[OF wr] call_remove[OF rm assms(2)] by simp
qed

lemma helpers_installed:
  assumes "run_calls (concat (map (helper_calls path) hs)) f = (Inr (), f')" and "fs_ok f"
    and "distinct (map (\<lambda>h. path_join [path, fst h]) hs)"
  shows "(h \<in> set hs \<longrightarrow> content f' (path_join [path, fst h]) = Some (snd h))
    \<and> (q \<notin> (\<lambda>h. path_join [path, fst h]) ` set hs \<longrightarrow> content f' q = content f q)"
  using assms
proof (induction hs arbitrary: f h q)
  case (Cons g hs)
  from Cons.prems(1) obtain f1 where g: "run_calls (helper_calls path g) f = (Inr (), f1)"
    and rest: "run_calls (concat (map (helper_calls path) hs)) f1 = (Inr (), f')"
    by (auto simp: run_calls_append elim!: io_bind_InrE)
  have ok: "fs_ok f1" using run_calls_ok[OF Cons.prems(2), of "helper_calls path g"] g by simp
  note c = helper_calls_content[OF g Cons.prems(2)]
  show ?case
    using Cons.IH[OF rest ok, of h q] Cons.IH[OF rest ok, of h "path_join [path, fst g]"] Cons.prems(3) c by auto
qed simp

text \<open>The paths of the binaries differ from each other and from the marker's.\<close>

lemma install_paths:
  assumes "go_map helpers" and "set (keys helpers) \<subseteq> {''bb_chroot_helper'', ''bb_chroot_helper_privileged''}"
  shows "h \<in> set helpers \<Longrightarrow> path_join [path, fst h] \<noteq> installed_path path"
    and "distinct (map (\<lambda>h. path_join [path, fst h]) helpers)"
    and "list_all (\<lambda>c. call_path (fst c) \<noteq> Some (installed_path path)) (concat (map (helper_calls path) helpers))"
proof -
  have plain: "h \<in> set helpers \<Longrightarrow> plain_comp (fst h)" for h
    using assms(2) by (auto simp: plain_comp_def)
  have m: "base_name (installed_path path) = ''chroot_helpers_installed''"
    unfolding installed_path_def by (rule base_name_path_join) (simp add: plain_comp_def)
  have base: "h \<in> set helpers \<Longrightarrow> base_name (path_join [path, fst h]) = fst h" for h
    using plain base_name_path_join by blast
  show no: "path_join [path, fst h] \<noteq> installed_path path" if "h \<in> set helpers" for h
    using m base[OF that] assms(2) that by auto
  have "inj_on (\<lambda>h. path_join [path, fst h]) (set helpers)"
    using assms(1) base unfolding go_map_def distinct_map inj_on_def by metis
  moreover have "distinct helpers" using assms(1) by (simp add: go_map_def distinct_map)
  ultimately show "distinct (map (\<lambda>h. path_join [path, fst h]) helpers)" by (simp add: distinct_map)
  show "list_all (\<lambda>c. call_path (fst c) \<noteq> Some (installed_path path)) (concat (map (helper_calls path) helpers))"
    using no by (auto simp: list_all_iff helper_calls_def Let_def)
qed

text \<open>Writing a file either fails and leaves the files as they were, or succeeds.\<close>

lemma WriteFile_fails:
  assumes "WriteFile p d f = (Inl e, f')"
  shows "content f' = content f"
  using assms by (auto simp: WriteFile_def allowed_def create_file_def split: prod.splits option.splits if_splits)

text \<open>
  The part of the installation after the old marker is gone: the marker is back only when all
  calls were made and succeeded.
\<close>

lemma marker_after_helpers:
  defines "marker \<equiv> \<lambda>path. (CallWriteFile (installed_path path) '''', ''failed to write installation marker'', [])"
  assumes "go_map helpers" and "set (keys helpers) \<subseteq> {''bb_chroot_helper'', ''bb_chroot_helper_privileged''}"
    and ok: "fs_ok f" and none: "content f (installed_path path) = None"
    and run: "run_calls (take k (concat (map (helper_calls path) helpers) @ [marker path])) f = (r, f')"
    and mark: "content f' (installed_path path) \<noteq> None"
  shows "r = Inr () \<and> (\<forall>h\<in>set helpers. content f' (path_join [path, fst h]) = Some (snd h))"
proof -
  let ?m = "installed_path path" and ?hs = "concat (map (helper_calls path) helpers)"
  note paths = install_paths[where path = path, OF assms(2,3)]
  note no = paths(1) and dist = paths(2) and touch = paths(3)
  have "\<not> k \<le> length ?hs"
  proof
    assume "k \<le> length ?hs"
    moreover have "list_all (\<lambda>c. call_path (fst c) \<noteq> Some ?m) (take k ?hs)"
      using touch unfolding list_all_iff by (meson in_set_takeD)
    ultimately show False using run_calls_absent[OF none, of "take k ?hs"] run mark by simp
  qed
  then have "take k (?hs @ [marker path]) = ?hs @ [marker path]" by simp
  then have full: "io_bind (run_calls ?hs) (\<lambda>_. run_calls [marker path]) f = (r, f')"
    using run by (simp only: run_calls_append)
  obtain r3 f3 where hs: "run_calls ?hs f = (r3, f3)" by fastforce
  have none3: "content f3 ?m = None" and ok3: "fs_ok f3"
    using run_calls_absent[OF none touch] run_calls_ok[OF ok, of ?hs] hs by auto
  then have r3: "r3 = Inr ()" using full hs mark by (cases r3) (auto simp: io_bind_def)
  have wr: "io_wrap (Wrap ''failed to write installation marker'' []) (WriteFile ?m '''') f3 = (r, f')"
    using full hs r3 by (auto simp: marker_def io_bind_def install_call_io_def split: prod.splits sum.splits)
  have new: "WriteFile ?m '''' f3 = (Inr (), f')"
  proof (cases "WriteFile ?m '''' f3")
    case (Pair q g)
    then show ?thesis using wr WriteFile_fails[of ?m "''''" f3] none3 mark
      by (cases q) (auto simp: io_wrap_def)
  qed
  then have "r = Inr ()" using wr by (simp add: io_wrap_def)
  then show ?thesis
    using WriteFile_new[OF new ok3 none3] helpers_installed[OF hs[unfolded r3] ok dist] no by auto
qed

section \<open>Properties\<close>

text \<open>
  C11: However far an installation gets, because a call fails or because the installer is
  stopped between two calls after it removed the marker, in whatever order the binaries are
  written: if the marker file exists, then either no file was changed at all, or every call
  succeeded and both binaries have their full content.
\<close>

theorem marker_means_installed:
  assumes "fs_ok f" and "go_map helpers"
    and "set (keys helpers) \<subseteq> {''bb_chroot_helper'', ''bb_chroot_helper_privileged''}"
    and "2 \<le> n" and "run_calls (take n (install_calls helpers path)) f = (r, f')"
    and "content f' (installed_path path) \<noteq> None"
  shows "isl r \<and> content f' = content f
    \<or> r = Inr () \<and> (\<forall>h\<in>set helpers. content f' (path_join [path, fst h]) = Some (snd h))"
proof -
  let ?m = "installed_path path" and ?hs = "concat (map (helper_calls path) helpers)"
  obtain k where n: "n = Suc (Suc k)" using le_Suc_ex[OF assms(4)] by auto
  obtain r1 f1 where mk: "MkdirAll path f = (r1, f1)" by fastforce
  have c1: "content f1 = content f" "fs_ok f1"
    using MkdirAll_content[of path f] file_calls_ok(6)[OF assms(1), of path] mk by auto
  obtain r2 f2 where rm: "install_call_io (CallRemove ?m) f1 = (r2, f2)" by fastforce
  note c2 = call_remove[OF rm c1(2)]
  have run: "(r, f') = (case r1 of Inl e \<Rightarrow> (Inl (Wrap ''failed to create installation directory'' [] e), f1)
    | Inr _ \<Rightarrow> (case r2 of Inl e \<Rightarrow> (Inl (Wrap ''failed to remove old installation marker'' [] e), f2)
      | Inr _ \<Rightarrow> run_calls (take k (?hs @ [(CallWriteFile ?m '''', ''failed to write installation marker'', [])])) f2))"
    using assms(5) mk rm unfolding n install_calls_def
    by (cases r1; cases r2)
      (simp_all add: io_bind_def io_wrap_def install_call_io_def[of "CallMkdirAll path"] del: take_append)
  show ?thesis
  proof (cases "isl r1 \<or> isl r2")
    case True
    then have "isl r" "content f' = content f"
      using run c1(1) c2 by (auto simp: isl_def fun_eq_iff split: sum.splits)
    then show ?thesis by blast
  next
    case False
    then have "r2 = Inr ()" and run': "run_calls (take k (?hs @ [(CallWriteFile ?m '''',
        ''failed to write installation marker'', [])])) f2 = (r, f')"
      using run by (auto simp: isl_def split: sum.splits)
    then have none: "content f2 ?m = None" using c2[of ?m] by simp
    have ok2: "fs_ok f2" using install_call_ok[OF c1(2), of "CallRemove ?m"] rm by simp
    show ?thesis
      using marker_after_helpers[OF assms(2,3) ok2 none run' assms(6)] by blast
  qed
qed

text \<open>An installation over an old one that is stopped after the first binary was written.\<close>

definition demo_old_install :: host_fs where
  "demo_old_install = \<lparr>fs_names = [(''/bb/bb_chroot_helper'', 0), (''/bb/chroot_helpers_installed'', 1)],
     fs_data = [''old'', ''''], fs_dirs = [''/'', ''/bb''], fs_deny = (\<lambda>_. None)\<rparr>"

definition demo_helpers :: "(string, string) gomap" where
  "demo_helpers = [(''bb_chroot_helper'', ''new''), (''bb_chroot_helper_privileged'', ''suid'')]"

theorem marker_means_installed_witness:
  "fst (install demo_helpers ''/bb'' demo_old_install) = Inr ()
   \<and> content (snd (install demo_helpers ''/bb'' demo_old_install)) ''/bb/bb_chroot_helper'' = Some ''new''
   \<and> content (snd (run_calls (take 4 (install_calls demo_helpers ''/bb'')) demo_old_install)) (installed_path ''/bb'') = None"
proof -
  let ?r = "run_calls (take 7 (install_calls demo_helpers ''/bb'')) demo_old_install"
  have all: "install demo_helpers ''/bb'' = run_calls (take 7 (install_calls demo_helpers ''/bb''))"
    by (simp add: install_def install_calls_def helper_calls_def demo_helpers_def Let_def)
  have ok: "fs_ok demo_old_install" by (simp add: fs_ok_def demo_old_install_def go_map_def)
  have hs: "go_map demo_helpers" "set (keys demo_helpers) \<subseteq> {''bb_chroot_helper'', ''bb_chroot_helper_privileged''}"
    by (simp_all add: demo_helpers_def go_map_def)
  have r: "?r = (fst ?r, snd ?r)" by simp
  have marker: "content (snd ?r) (installed_path ''/bb'') \<noteq> None"
    and stop: "content (snd (run_calls (take 4 (install_calls demo_helpers ''/bb'')) demo_old_install)) (installed_path ''/bb'') = None"
    and succ: "\<not> isl (fst ?r)"
    by code_simp+
  have p: "path_join [''/bb'', ''bb_chroot_helper''] = ''/bb/bb_chroot_helper''" by code_simp
  have two: "(2::nat) \<le> 7" by simp
  show ?thesis
    using marker_means_installed[OF ok hs two r marker] succ stop p unfolding all by (auto simp: demo_helpers_def)
qed

end
